(* ===== verification/C_Prelude.thy ===== *)
theory C_Prelude
  imports Main "HOL-Library.Signed_Division"
begin

text \<open>
  The part of the C language that the modelled programs share.

  A call either does not return, faults, or returns a value, so its result has type
  \<open>'a cres\<close>: \<open>None\<close> is a run that never ends, \<open>Some (Inl e)\<close> an undefined or trapping
  operation (\<open>c_error\<close>), \<open>Some (Inr x)\<close> the value \<open>x\<close>. \<open>bnd\<close> runs two pieces of code
  one after the other. Loops whose end is not evident are partial functions over this
  type, so a theorem that gives \<open>ret x\<close> also says that the loop ends.

  Signed arithmetic is checked: \<open>ck\<close> faults when the mathematical result does not fit
  into a 32-bit \<open>int\<close>. What a program prints is a list of \<open>out\<close> items, one per
  conversion or literal piece of a format string.
\<close>

section \<open>Faults and results\<close>

datatype c_error =
    NullDeref          \<comment> \<open>access through the null pointer\<close>
  | BadPointer         \<comment> \<open>access to a block that was freed or never allocated\<close>
  | HeapOverflow       \<comment> \<open>access beyond the usable bytes of a heap block\<close>
  | OutOfBounds        \<comment> \<open>array index outside the array\<close>
  | Uninit             \<comment> \<open>read of an indeterminate value\<close>
  | SignedOverflow     \<comment> \<open>signed result outside the range of int\<close>
  | DivByZero          \<comment> \<open>integer division by zero\<close>
  | BadConversion      \<comment> \<open>a double that does not fit into an int\<close>
  | BadVLA             \<comment> \<open>array of variable length with a size that is not positive\<close>
  | BadCall            \<comment> \<open>library function called outside its precondition\<close>

type_synonym 'a cres = "(c_error + 'a) option"

abbreviation ret :: "'a \<Rightarrow> 'a cres" where
  "ret x \<equiv> Some (Inr x)"

abbreviation fault :: "c_error \<Rightarrow> 'a cres" where
  "fault e \<equiv> Some (Inl e)"

definition bnd :: "'a cres \<Rightarrow> ('a \<Rightarrow> 'b cres) \<Rightarrow> 'b cres" where
  "bnd m f = Option.bind m (\<lambda>r. case r of Inl e \<Rightarrow> fault e | Inr x \<Rightarrow> f x)"

named_theorems heap_simps \<open>evaluation of heap accesses\<close>
named_theorems list_spec \<open>functional behaviour of the list operations\<close>

lemma bnd_ret [simp]: "bnd (ret x) f = f x"
  by (simp add: bnd_def)

lemma bnd_fault [simp]: "bnd (fault e) f = fault e"
  by (simp add: bnd_def)

lemma bnd_None [simp]: "bnd None f = None"
  by (simp add: bnd_def)

lemma bnd_eq_ret: "bnd m f = ret y \<longleftrightarrow> (\<exists>x. m = ret x \<and> f x = ret y)"
  by (cases m) (auto simp: bnd_def split: sum.splits)

lemma bnd_eq_ret_E:
  assumes "bnd m f = ret y"
  obtains x where "m = ret x" and "f x = ret y"
  using assms by (auto simp: bnd_eq_ret)

lemma bnd_ret_right: "bnd m ret = m"
  by (cases m) (auto simp: bnd_def split: sum.splits)

lemma bnd_assoc: "bnd (bnd m f) g = bnd m (\<lambda>x. bnd (f x) g)"
  by (cases m) (auto simp: bnd_def split: sum.splits)

lemma bnd_cong [fundef_cong]:
  "m = m' \<Longrightarrow> (\<And>x. m' = ret x \<Longrightarrow> f x = g x) \<Longrightarrow> bnd m f = bnd m' g"
  by (cases m') (auto simp: bnd_def split: sum.splits)

lemma bnd_mono [partial_function_mono]:
  assumes "mono_option B" and "\<And>y. mono_option (C y)"
  shows "mono_option (\<lambda>f. bnd (B f) (\<lambda>y. C y f))"
proof -
  have "mono_option (\<lambda>f. case r of Inl e \<Rightarrow> fault e | Inr x \<Rightarrow> C x f)" for r
    using assms(2) by (cases r) (auto intro: option.const_mono)
  then show ?thesis
    unfolding bnd_def by (intro bind_mono assms(1)) auto
qed

text \<open>A value is present.\<close>

definition need :: "c_error \<Rightarrow> 'a option \<Rightarrow> 'a cres" where
  "need e v = (case v of None \<Rightarrow> fault e | Some x \<Rightarrow> ret x)"

lemma need_simps [simp]:
  "need e None = fault e" "need e (Some x) = ret x"
  by (simp_all add: need_def)

lemma two_last: "2 \<le> length xs \<Longrightarrow> \<exists>ys y z. xs = ys @ [y, z]"
  by (cases xs rule: rev_cases; cases "butlast xs" rule: rev_cases) auto

section \<open>Signed integers\<close>

definition INT_MAX :: int where "INT_MAX = 2147483647"
definition INT_MIN :: int where "INT_MIN = - 2147483648"

definition in_int :: "int \<Rightarrow> bool" where
  "in_int x \<longleftrightarrow> INT_MIN \<le> x \<and> x \<le> INT_MAX"

lemmas int_range_defs = in_int_def INT_MAX_def INT_MIN_def

definition ck :: "int \<Rightarrow> int cres" where
  "ck x = (if in_int x then ret x else fault SignedOverflow)"

definition c_div :: "int \<Rightarrow> int \<Rightarrow> int cres" where
  "c_div a b = (if b = 0 then fault DivByZero else ck (a sdiv b))"

definition c_mod :: "int \<Rightarrow> int \<Rightarrow> int cres" where
  "c_mod a b =
     (if b = 0 then fault DivByZero
      else if in_int (a sdiv b) then ret (a smod b) else fault SignedOverflow)"

lemma ck_ret [simp]: "in_int x \<Longrightarrow> ck x = ret x"
  by (simp add: ck_def)

lemma ck_eq_ret [simp]: "ck x = ret y \<longleftrightarrow> in_int x \<and> y = x"
  by (auto simp: ck_def)

lemma in_int_mono: "in_int y \<Longrightarrow> 0 \<le> x \<Longrightarrow> x \<le> y \<Longrightarrow> in_int x"
  by (simp add: int_range_defs)

lemma in_int_of_nat: "in_int (int n) \<longleftrightarrow> int n \<le> INT_MAX"
  by (simp add: int_range_defs)

lemma sdiv_pos: "0 \<le> a \<Longrightarrow> 0 < b \<Longrightarrow> a sdiv b = a div (b :: int)"
  by (cases "a = 0") (simp_all add: signed_divide_int_def sgn_if)

lemma smod_pos: "0 \<le> a \<Longrightarrow> 0 < b \<Longrightarrow> a smod b = a mod (b :: int)"
  by (cases "a = 0") (simp_all add: signed_modulo_int_def sgn_if)

lemma c_div_pos: "0 \<le> a \<Longrightarrow> 0 < b \<Longrightarrow> in_int a \<Longrightarrow> c_div a b = ret (a div b)"
proof -
  assume a: "0 \<le> a" "0 < b" "in_int a"
  then have "a div b \<le> a" and "0 \<le> a div b"
    using zdiv_mono2 [of a 1 b] by (simp_all add: pos_imp_zdiv_nonneg_iff)
  with a show ?thesis
    by (simp add: c_div_def sdiv_pos in_int_mono [of a])
qed

section \<open>Counting loops\<close>

text \<open>
  \<^verbatim>\<open>for (int i=a; i<b; i++) body\<close> and \<^verbatim>\<open>for (int i=a; i>b; i--) body\<close> over a state. The
  counter cannot overflow, because the guard bounds it.
\<close>

function for_up :: "int \<Rightarrow> int \<Rightarrow> (int \<Rightarrow> 's \<Rightarrow> 's cres) \<Rightarrow> 's \<Rightarrow> 's cres" where
  "for_up i b f s = (if i < b then bnd (f i s) (for_up (i + 1) b f) else ret s)"
  by pat_completeness auto
termination
  by (relation "measure (\<lambda>(i, b, f, s). nat (b - i))") auto

function for_down :: "int \<Rightarrow> int \<Rightarrow> (int \<Rightarrow> 's \<Rightarrow> 's cres) \<Rightarrow> 's \<Rightarrow> 's cres" where
  "for_down i b f s = (if b < i then bnd (f i s) (for_down (i - 1) b f) else ret s)"
  by pat_completeness auto
termination
  by (relation "measure (\<lambda>(i, b, f, s). nat (i - b))") auto

declare for_up.simps [simp del] for_down.simps [simp del]

text \<open>The same loops as a run over the list of the counter's values.\<close>

fun for_each :: "('a \<Rightarrow> 's \<Rightarrow> 's cres) \<Rightarrow> 'a list \<Rightarrow> 's \<Rightarrow> 's cres" where
  "for_each f [] s = ret s"
| "for_each f (x # xs) s = bnd (f x s) (for_each f xs)"

lemma for_up_each: "for_up a b f s = for_each f [a..b - 1] s"
proof (induction a b f s rule: for_up.induct)
  case (1 a b f s)
  then show ?case
    by (cases "a < b")
      (auto simp: for_up.simps [of a] upto_rec1 [of a] cong: bnd_cong)
qed

lemma for_down_each: "for_down a b f s = for_each f (rev [b + 1..a]) s"
proof (induction a b f s rule: for_down.induct)
  case (1 a b f s)
  then show ?case
    by (cases "b < a")
      (auto simp: for_down.simps [of a] upto_rec2 [of "b + 1" a] cong: bnd_cong)
qed

lemma for_each_append: "for_each f (xs @ ys) s = bnd (for_each f xs s) (for_each f ys)"
  by (induction xs arbitrary: s) (auto simp: bnd_assoc intro: bnd_cong)

lemma for_up_split:
  assumes "a \<le> b" and "b \<le> c"
  shows "for_up a c f s = bnd (for_up a b f s) (for_up b c f)"
proof -
  have "[a..c - 1] = [a..b - 1] @ [b..c - 1]" using assms upto_split1 [of a b "c - 1"] by (cases "b = c") auto
  then show ?thesis by (simp add: for_up_each for_each_append cong: bnd_cong)
qed

text \<open>A body that ignores the counter.\<close>

lemma for_each_const:
  "length xs = length ys \<Longrightarrow> for_each (\<lambda>_. g) xs s = for_each (\<lambda>_. g) ys s"
  by (induction xs ys arbitrary: s rule: list_induct2) (auto intro: bnd_cong)

text \<open>A loop with an invariant, from \<open>a\<close> up to \<open>b\<close>, counted in natural numbers.\<close>

lemma for_up_inv:
  assumes "P a s" and "a \<le> b"
    and "\<And>i s. a \<le> i \<Longrightarrow> i < b \<Longrightarrow> P i s \<Longrightarrow> \<exists>s'. f (int i) s = ret s' \<and> P (Suc i) s'"
  shows "\<exists>s'. for_up (int a) (int b) f s = ret s' \<and> P b s'"
  using assms
proof (induction "b - a" arbitrary: a s)
  case 0
  then show ?case by (subst for_up.simps) simp
next
  case (Suc n)
  then obtain s1 where s1: "f (int a) s = ret s1" "P (Suc a) s1" by force
  have "\<exists>s'. for_up (int (Suc a)) (int b) f s1 = ret s' \<and> P b s'"
    by (rule Suc.hyps(1)) (use Suc s1 in auto)
  moreover have "a < b" using Suc.hyps(2) by simp
  ultimately show ?case using s1(1) by (subst for_up.simps) (simp add: add.commute)
qed

section \<open>Output\<close>

datatype out =
    OInt int      \<comment> \<open>\<^verbatim>\<open>%d\<close>\<close>
  | OChar int     \<comment> \<open>\<^verbatim>\<open>%c\<close>, the character code\<close>
  | OPtr nat      \<comment> \<open>\<^verbatim>\<open>%p\<close>, the address\<close>
  | OHex nat      \<comment> \<open>\<^verbatim>\<open>%x\<close>\<close>
  | OStr string   \<comment> \<open>literal text and \<^verbatim>\<open>%s\<close>\<close>

abbreviation newline :: out where
  "newline \<equiv> OStr [CHR 0x0A]"

text \<open>
  \<^verbatim>\<open>scanf("%d", &x)\<close> with one line of input: \<open>Some v\<close> when the line starts with a number,
  \<open>None\<close> when it does not, in which case \<^verbatim>\<open>x\<close> keeps its value.
\<close>

definition scan_int :: "int \<Rightarrow> int option \<Rightarrow> int" where
  "scan_int x inp = (case inp of None \<Rightarrow> x | Some v \<Rightarrow> v)"

lemma scan_int_simps [simp]: "scan_int x None = x" "scan_int x (Some v) = v"
  by (simp_all add: scan_int_def)

section \<open>Arrays of int\<close>

text \<open>
  An array is the list of its elements; an index outside it faults. Indices are C ints.
\<close>

definition rd :: "'a list \<Rightarrow> int \<Rightarrow> 'a cres" where
  "rd xs i = (if 0 \<le> i \<and> i < int (length xs) then ret (xs ! nat i) else fault OutOfBounds)"

definition wr :: "'a list \<Rightarrow> int \<Rightarrow> 'a \<Rightarrow> 'a list cres" where
  "wr xs i v =
     (if 0 \<le> i \<and> i < int (length xs) then ret (xs[nat i := v]) else fault OutOfBounds)"

lemma rd_ret [simp]: "0 \<le> i \<Longrightarrow> i < int (length xs) \<Longrightarrow> rd xs i = ret (xs ! nat i)"
  by (simp add: rd_def)

lemma wr_ret [simp]: "0 \<le> i \<Longrightarrow> i < int (length xs) \<Longrightarrow> wr xs i v = ret (xs[nat i := v])"
  by (simp add: wr_def)

lemma rd_oob [simp]: "i < 0 \<or> int (length xs) \<le> i \<Longrightarrow> rd xs i = fault OutOfBounds"
  by (auto simp: rd_def)

lemma wr_oob [simp]: "i < 0 \<or> int (length xs) \<le> i \<Longrightarrow> wr xs i v = fault OutOfBounds"
  by (auto simp: wr_def)

section \<open>Bytes\<close>

text \<open>Reading \<open>n\<close> bytes of a buffer from index \<open>a\<close> on, and the number they are in host (little-endian) order.\<close>

type_synonym mem = "nat list"

definition rd_bytes :: "mem \<Rightarrow> int \<Rightarrow> nat \<Rightarrow> nat list cres" where
  "rd_bytes m a n =
     (if 0 \<le> a \<and> a + int n \<le> int (length m) then ret (take n (drop (nat a) m)) else fault OutOfBounds)"

definition le_nat :: "nat list \<Rightarrow> nat" where
  "le_nat bs = foldr (\<lambda>b acc. b + 256 * acc) bs 0"

lemma rd_bytes_ret:
  "0 \<le> a \<Longrightarrow> a + int n \<le> int (length m) \<Longrightarrow> rd_bytes m a n = ret (take n (drop (nat a) m))"
  by (simp add: rd_bytes_def)

text \<open>The bytes of a number.\<close>

fun le_enc :: "nat \<Rightarrow> nat \<Rightarrow> nat list" where
  "le_enc 0 n = []"
| "le_enc (Suc k) n = n mod 256 # le_enc k (n div 256)"

lemma length_le_enc [simp]: "length (le_enc k n) = k"
  by (induction k arbitrary: n) auto

lemma le_nat_simps [simp]: "le_nat [] = 0" "le_nat (b # bs) = b + 256 * le_nat bs"
  by (simp_all add: le_nat_def)

lemma le_nat_enc: "n < 256 ^ k \<Longrightarrow> le_nat (le_enc k n) = n"
proof (induction k arbitrary: n)
  case (Suc k)
  then have "n div 256 < 256 ^ k" by (simp add: less_mult_imp_div_less mult.commute)
  with Suc.IH show ?case by simp
qed simp

end
