(* ===== verification/C_Heap.thy ===== *)
theory C_Heap
  imports C_Prelude
begin

text \<open>
  The heap of the linked-list programs under \<^verbatim>\<open>src/linked_list\<close>: blocks that hold a
  \<^verbatim>\<open>struct node\<close>, the allocator, the accesses \<^verbatim>\<open>p->value\<close> and \<^verbatim>\<open>p->next\<close>, and the
  predicate that a chain of nodes stores a list.

  The programs allocate a node with \<^verbatim>\<open>malloc(sizeof(struct node *))\<close>, 8 bytes, and then
  use 16. Whether that works depends on how many bytes the allocator hands out beyond the
  request, so a block records its usable size and the heap a \<open>slack\<close>: an access that
  needs more bytes than the block has faults with \<open>HeapOverflow\<close>. The heap also has a
  \<open>quota\<close>, the number of blocks \<^verbatim>\<open>malloc\<close> can still supply; at 0 it returns \<open>NULL\<close>.
  Addresses are never reused, so every use of a freed block is a fault.
\<close>

section \<open>Blocks, pointers, heap\<close>

datatype ptr = NULL | Ptr nat

record node =
  bsize :: nat                 \<comment> \<open>usable bytes of the block\<close>
  value_f :: "int option"      \<comment> \<open>\<open>None\<close>: indeterminate\<close>
  next_f :: "ptr option"

record heap =
  cells :: "nat \<rightharpoonup> node"
  brk :: nat                   \<comment> \<open>next fresh address\<close>
  quota :: nat
  slack :: nat

definition sizeof_ptr :: nat where "sizeof_ptr = 8"
definition end_of_value :: nat where "end_of_value = 4"
definition sizeof_node :: nat where "sizeof_node = 16"   \<comment> \<open>also the end of \<^verbatim>\<open>next\<close>\<close>

lemmas layout_defs = sizeof_ptr_def end_of_value_def sizeof_node_def

definition malloc :: "nat \<Rightarrow> heap \<Rightarrow> ptr \<times> heap" where
  "malloc n h =
     (if quota h = 0 then (NULL, h)
      else (Ptr (brk h),
            h\<lparr>cells := (cells h)(brk h \<mapsto>
                 \<lparr>bsize = n + slack h, value_f = None, next_f = None\<rparr>),
              brk := Suc (brk h), quota := quota h - 1\<rparr>))"

definition free :: "ptr \<Rightarrow> heap \<Rightarrow> heap cres" where
  "free p h =
     (case p of NULL \<Rightarrow> ret h
      | Ptr a \<Rightarrow> (case cells h a of None \<Rightarrow> fault BadPointer
                 | Some n \<Rightarrow> ret (h\<lparr>cells := (cells h)(a := None), quota := Suc (quota h)\<rparr>)))"

definition node_at :: "heap \<Rightarrow> ptr \<Rightarrow> nat \<Rightarrow> node cres" where
  "node_at h p last_byte =
     (case p of NULL \<Rightarrow> fault NullDeref
      | Ptr a \<Rightarrow> (case cells h a of None \<Rightarrow> fault BadPointer
                 | Some n \<Rightarrow> if last_byte \<le> bsize n then ret n else fault HeapOverflow))"

definition load_value :: "heap \<Rightarrow> ptr \<Rightarrow> int cres" where
  "load_value h p = bnd (node_at h p end_of_value) (\<lambda>n. need Uninit (value_f n))"

definition load_next :: "heap \<Rightarrow> ptr \<Rightarrow> ptr cres" where
  "load_next h p = bnd (node_at h p sizeof_node) (\<lambda>n. need Uninit (next_f n))"

definition upd_node :: "nat \<Rightarrow> (node \<Rightarrow> node) \<Rightarrow> heap \<Rightarrow> heap" where
  "upd_node a f h = h\<lparr>cells := (cells h)(a := map_option f (cells h a))\<rparr>"

definition store_value :: "heap \<Rightarrow> ptr \<Rightarrow> int \<Rightarrow> heap cres" where
  "store_value h p v =
     bnd (node_at h p end_of_value) (\<lambda>_.
       case p of NULL \<Rightarrow> fault NullDeref
       | Ptr a \<Rightarrow> ret (upd_node a (value_f_update (\<lambda>_. Some v)) h))"

definition store_next :: "heap \<Rightarrow> ptr \<Rightarrow> ptr \<Rightarrow> heap cres" where
  "store_next h p q =
     bnd (node_at h p sizeof_node) (\<lambda>_.
       case p of NULL \<Rightarrow> fault NullDeref
       | Ptr a \<Rightarrow> ret (upd_node a (next_f_update (\<lambda>_. Some q)) h))"

definition addr_of :: "ptr \<Rightarrow> nat" where
  "addr_of p = (case p of NULL \<Rightarrow> 0 | Ptr a \<Rightarrow> a)"

lemma null_access [simp]:
  "load_value h NULL = fault NullDeref" "load_next h NULL = fault NullDeref"
  "store_value h NULL v = fault NullDeref" "store_next h NULL q = fault NullDeref"
  by (simp_all add: load_value_def load_next_def store_value_def store_next_def node_at_def)

lemma free_null [simp]: "free NULL h = ret h"
  by (simp add: free_def)

section \<open>One node\<close>

text \<open>\<open>cell h a v q\<close>: the block at \<open>a\<close> is a full node with value \<open>v\<close> and successor \<open>q\<close>.\<close>

definition cell :: "heap \<Rightarrow> nat \<Rightarrow> int \<Rightarrow> ptr \<Rightarrow> bool" where
  "cell h a v q \<longleftrightarrow>
     (case cells h a of None \<Rightarrow> False
      | Some n \<Rightarrow> sizeof_node \<le> bsize n \<and> value_f n = Some v \<and> next_f n = Some q)"

abbreviation set_next :: "nat \<Rightarrow> ptr \<Rightarrow> heap \<Rightarrow> heap" where
  "set_next a q \<equiv> upd_node a (next_f_update (\<lambda>_. Some q))"

definition drop_cell :: "nat \<Rightarrow> heap \<Rightarrow> heap" where
  "drop_cell a h = h\<lparr>cells := (cells h)(a := None), quota := Suc (quota h)\<rparr>"

lemma cell_load [heap_simps]:
  assumes "cell h a v q"
  shows "load_value h (Ptr a) = ret v" and "load_next h (Ptr a) = ret q"
    and "store_next h (Ptr a) r = ret (set_next a r h)"
    and "free (Ptr a) h = ret (drop_cell a h)"
  using assms
  by (auto simp: cell_def load_value_def load_next_def store_next_def free_def node_at_def
      drop_cell_def layout_defs split: option.splits)

lemma cell_set_next [simp]: "cell h a v r \<Longrightarrow> cell (set_next a q h) a v q"
  by (auto simp: cell_def upd_node_def split: option.splits)

lemma cell_upd_other [simp]: "b \<noteq> a \<Longrightarrow> cell (upd_node a f h) b v r = cell h b v r"
  by (auto simp: cell_def upd_node_def)

lemma cell_drop [simp]: "cell (drop_cell a h) b v r \<longleftrightarrow> b \<noteq> a \<and> cell h b v r"
  by (auto simp: cell_def drop_cell_def)

lemma cell_unique: "cell h a v q \<Longrightarrow> cell h a w r \<Longrightarrow> v = w \<and> q = r"
  by (auto simp: cell_def split: option.splits)

text \<open>The parts of the heap that no list operation of a program with enough memory changes.\<close>

lemma upd_node_fields [simp]:
  "brk (upd_node a f h) = brk h" "quota (upd_node a f h) = quota h"
  "slack (upd_node a f h) = slack h"
  "cells (upd_node a f h) b = (if b = a then map_option f (cells h a) else cells h b)"
  by (simp_all add: upd_node_def)

lemma drop_cell_fields [simp]:
  "brk (drop_cell a h) = brk h" "quota (drop_cell a h) = Suc (quota h)"
  "slack (drop_cell a h) = slack h"
  "cells (drop_cell a h) b = (if b = a then None else cells h b)"
  by (simp_all add: drop_cell_def)

section \<open>Well-formed heaps\<close>

text \<open>
  \<open>hwf\<close>: every block lies below the next fresh address, and the allocator hands out the 8
  bytes beyond the request that the programs need.
\<close>

definition hwf :: "heap \<Rightarrow> bool" where
  "hwf h \<longleftrightarrow> (\<forall>a. cells h a \<noteq> None \<longrightarrow> a < brk h) \<and> sizeof_node \<le> sizeof_ptr + slack h"

lemma hwf_upd [simp]: "hwf (upd_node a f h) = hwf h"
  by (auto simp: hwf_def)

lemma hwf_drop [simp]: "hwf h \<Longrightarrow> hwf (drop_cell a h)"
  by (auto simp: hwf_def)

text \<open>What \<^verbatim>\<open>new_node\<close> is after its two fields are written.\<close>

definition with_new :: "heap \<Rightarrow> int \<Rightarrow> ptr \<Rightarrow> heap" where
  "with_new h v q =
     h\<lparr>cells := (cells h)(brk h \<mapsto>
          \<lparr>bsize = sizeof_ptr + slack h, value_f = Some v, next_f = Some q\<rparr>),
       brk := Suc (brk h), quota := quota h - 1\<rparr>"

lemma with_new_fields [simp]:
  "brk (with_new h v q) = Suc (brk h)" "quota (with_new h v q) = quota h - 1"
  "slack (with_new h v q) = slack h"
  by (simp_all add: with_new_def)

lemma hwf_with_new [simp]: "hwf h \<Longrightarrow> hwf (with_new h v q)"
  by (auto simp: hwf_def with_new_def)

lemma cells_with_new: "b \<noteq> brk h \<Longrightarrow> cells (with_new h v q) b = cells h b"
  by (simp add: with_new_def)

lemma cell_with_new [simp]:
  "hwf h \<Longrightarrow> cell (with_new h v q) b w r \<longleftrightarrow> (if b = brk h then w = v \<and> r = q else cell h b w r)"
  by (auto simp: cell_def with_new_def hwf_def layout_defs)

lemma set_next_with_new [simp]: "set_next (brk h) r (with_new h v q) = with_new h v r"
  by (simp add: upd_node_def with_new_def)

lemma cell_below_brk: "hwf h \<Longrightarrow> cell h a v q \<Longrightarrow> a < brk h"
  by (auto simp: hwf_def cell_def split: option.splits)

section \<open>Chains of nodes\<close>

text \<open>
  A chain is the list of its nodes' addresses and values. \<open>hdp xs q\<close> is the pointer to its
  first node (\<open>q\<close> when it is empty), \<open>seg h xs q\<close> says that the heap stores it and that its
  last node points to \<open>q\<close>. \<open>is_list h p xs\<close>: from \<open>p\<close>, the nodes \<open>xs\<close> up to \<open>NULL\<close>.
\<close>

type_synonym chain = "(nat \<times> int) list"

fun hdp :: "chain \<Rightarrow> ptr \<Rightarrow> ptr" where
  "hdp [] q = q"
| "hdp (x # xs) q = Ptr (fst x)"

fun seg :: "heap \<Rightarrow> chain \<Rightarrow> ptr \<Rightarrow> bool" where
  "seg h [] q = True"
| "seg h (x # xs) q = (cell h (fst x) (snd x) (hdp xs q) \<and> seg h xs q)"

definition is_list :: "heap \<Rightarrow> ptr \<Rightarrow> chain \<Rightarrow> bool" where
  "is_list h p xs \<longleftrightarrow> p = hdp xs NULL \<and> seg h xs NULL"

abbreviation addrs :: "chain \<Rightarrow> nat set" where
  "addrs xs \<equiv> fst ` set xs"

abbreviation vals :: "chain \<Rightarrow> int list" where
  "vals xs \<equiv> map snd xs"

text \<open>\<open>frame A h h'\<close>: only blocks of \<open>A\<close> differ between the two heaps.\<close>

definition frame :: "nat set \<Rightarrow> heap \<Rightarrow> heap \<Rightarrow> bool" where
  "frame A h h' \<longleftrightarrow> (\<forall>b. b \<notin> A \<longrightarrow> cells h' b = cells h b)"

lemma hdp_append [simp]: "hdp (xs @ ys) q = hdp xs (hdp ys q)"
  by (cases xs) auto

lemma hdp_Ptr_not_NULL [simp]: "hdp xs (Ptr a) \<noteq> NULL"
  by (cases xs) auto

lemma hdp_NULL [simp]: "hdp xs NULL = NULL \<longleftrightarrow> xs = []"
  by (cases xs) auto

lemma hdp_nonempty: "xs \<noteq> [] \<Longrightarrow> hdp xs q = Ptr (fst (hd xs))"
  by (cases xs) auto

lemma seg_append [simp]: "seg h (xs @ ys) q \<longleftrightarrow> seg h xs (hdp ys q) \<and> seg h ys q"
  by (induction xs) auto

lemma seg_upd_other [simp]: "a \<notin> addrs xs \<Longrightarrow> seg (upd_node a f h) xs q = seg h xs q"
  by (induction xs) (auto simp: cell_def)

lemma seg_drop_other [simp]: "a \<notin> addrs xs \<Longrightarrow> seg (drop_cell a h) xs q = seg h xs q"
  by (induction xs) auto

lemma seg_below_brk: "hwf h \<Longrightarrow> seg h xs q \<Longrightarrow> a \<in> addrs xs \<Longrightarrow> a < brk h"
  by (induction xs) (auto dest: cell_below_brk)

lemma brk_fresh: "hwf h \<Longrightarrow> seg h xs q \<Longrightarrow> brk h \<notin> addrs xs"
  using seg_below_brk by blast

lemma seg_with_new [simp]:
  "hwf h \<Longrightarrow> brk h \<notin> addrs xs \<Longrightarrow> seg (with_new h v r) xs q = seg h xs q"
  by (induction xs) auto

lemma seg_frame:
  "frame A h h' \<Longrightarrow> A \<inter> addrs xs = {} \<Longrightarrow> seg h' xs q = seg h xs q"
  by (induction xs) (auto simp: frame_def cell_def)

text \<open>
  \<open>evolves A h h'\<close>: the run from \<open>h\<close> to \<open>h'\<close> wrote or freed blocks of \<open>A\<close> only and allocated
  nothing, so that \<^verbatim>\<open>malloc\<close> can supply at least as many blocks as before.
\<close>

definition evolves :: "nat set \<Rightarrow> heap \<Rightarrow> heap \<Rightarrow> bool" where
  "evolves A h h' \<longleftrightarrow> frame A h h' \<and> brk h' = brk h \<and> slack h' = slack h
     \<and> quota h \<le> quota h' \<and> (\<forall>b. cells h b = None \<longrightarrow> cells h' b = None)"

lemma evolves_refl [simp]: "evolves A h h"
  by (simp add: evolves_def frame_def)

lemma evolves_trans: "evolves A h h1 \<Longrightarrow> evolves B h1 h2 \<Longrightarrow> A \<union> B \<subseteq> C \<Longrightarrow> evolves C h h2"
  unfolding evolves_def frame_def by (metis UnCI subsetD order_trans)

lemma evolves_mono: "evolves A h h1 \<Longrightarrow> A \<subseteq> C \<Longrightarrow> evolves C h h1"
  by (auto simp: evolves_def frame_def)

lemma evolves_upd [simp]: "a \<in> A \<Longrightarrow> evolves A h (upd_node a f h)"
  by (auto simp: evolves_def frame_def)

lemma evolves_drop [simp]: "a \<in> A \<Longrightarrow> evolves A h (drop_cell a h)"
  by (auto simp: evolves_def frame_def)

lemma evolves_hwf: "evolves A h h' \<Longrightarrow> hwf h \<Longrightarrow> hwf h'"
  unfolding evolves_def hwf_def by metis

lemma evolves_seg: "evolves A h h' \<Longrightarrow> A \<inter> addrs xs = {} \<Longrightarrow> seg h' xs q = seg h xs q"
  by (auto simp: evolves_def intro!: seg_frame)

lemma evolves_cell: "evolves A h h' \<Longrightarrow> a \<notin> A \<Longrightarrow> cell h' a v q = cell h a v q"
  by (auto simp: evolves_def frame_def cell_def)

text \<open>A chain that ends in \<open>NULL\<close> visits no node twice.\<close>

lemma seg_unique: "seg h xs NULL \<Longrightarrow> seg h ys NULL \<Longrightarrow> hdp xs NULL = hdp ys NULL \<Longrightarrow> xs = ys"
proof (induction xs arbitrary: ys)
  case Nil
  then show ?case by (metis hdp.simps(1) hdp_NULL)
next
  case (Cons x xs)
  then obtain y ys' where ys: "ys = y # ys'" by (cases ys) auto
  with Cons.prems have "fst x = fst y" by simp
  with Cons.prems ys have "snd x = snd y" and "hdp xs NULL = hdp ys' NULL"
    using cell_unique [of h "fst x" "snd x" _ "snd y"] by auto
  with Cons \<open>fst x = fst y\<close> ys show ?case by (auto simp: prod_eq_iff)
qed

lemma seg_distinct: "seg h xs NULL \<Longrightarrow> distinct (map fst xs)"
proof (induction xs)
  case (Cons x xs)
  have "fst x \<notin> addrs xs"
  proof
    assume "fst x \<in> addrs xs"
    then obtain us y vs where xs: "xs = us @ y # vs" and y: "fst y = fst x"
      by (metis imageE split_list)
    with Cons.prems have "seg h (y # vs) NULL" and "seg h (x # xs) NULL" by auto
    then have "y # vs = x # xs" using y by (intro seg_unique) auto
    then have "length (y # vs) = length (x # us @ y # vs)" using xs by simp
    then show False by simp
  qed
  with Cons show ?case by auto
qed simp

text \<open>The first node that holds a value.\<close>

lemma first_with:
  assumes "w \<in> set (vals xs)"
  obtains us x vs where "xs = us @ x # vs" and "snd x = w" and "w \<notin> snd ` set us"
proof -
  have "\<exists>x \<in> set xs. snd x = w" using assms by auto
  from split_list_first_prop [OF this] obtain us x vs where
    "xs = us @ x # vs" "snd x = w" "\<forall>y \<in> set us. snd y \<noteq> w" by blast
  then show ?thesis by (intro that [of us x vs]) auto
qed

text \<open>Two ways the programs splice a chain: unlink the node behind \<open>x\<close>, or drop the first.\<close>

definition unlink :: "heap \<Rightarrow> ptr \<Rightarrow> ptr \<Rightarrow> heap cres" where
  "unlink h prev current =
     bnd (load_next h current) (\<lambda>n. bnd (store_next h prev n) (\<lambda>h. free current h))"

lemma unlink_spec:
  assumes "seg h (us @ x # y # vs) NULL"
  shows "\<exists>h'. unlink h (Ptr (fst x)) (Ptr (fst y)) = ret h' \<and> seg h' (us @ x # vs) NULL
    \<and> cells h' (fst y) = None \<and> evolves {fst x, fst y} h h'"
proof -
  have d: "distinct (map fst (us @ x # y # vs))" using seg_distinct [OF assms] .
  let ?h1 = "set_next (fst x) (hdp vs NULL) h"
  let ?h2 = "drop_cell (fst y) ?h1"
  have cx: "cell h (fst x) (snd x) (Ptr (fst y))" and cy: "cell h (fst y) (snd y) (hdp vs NULL)"
    using assms by auto
  have "cell ?h1 (fst y) (snd y) (hdp vs NULL)" using cy d by auto
  then have run: "unlink h (Ptr (fst x)) (Ptr (fst y)) = ret ?h2"
    using cx cy by (simp add: unlink_def heap_simps)
  have "seg ?h2 (us @ x # vs) NULL" using assms cx d by auto
  moreover have "evolves {fst x, fst y} h ?h2"
    by (rule evolves_trans [of "{fst x}" _ ?h1 "{fst y}"]) auto
  ultimately show ?thesis using run by auto
qed

definition pop_head :: "heap \<Rightarrow> ptr \<Rightarrow> (heap \<times> ptr) cres" where
  "pop_head h current = bnd (load_next h current) (\<lambda>n. bnd (free current h) (\<lambda>h. ret (h, n)))"

lemma pop_head_spec:
  assumes "is_list h p (x # xs)"
  shows "\<exists>h'. pop_head h p = ret (h', hdp xs NULL) \<and> seg h' xs NULL
    \<and> cells h' (fst x) = None \<and> evolves {fst x} h h'"
proof -
  have "cell h (fst x) (snd x) (hdp xs NULL)" "p = Ptr (fst x)" "fst x \<notin> addrs xs" "seg h xs NULL"
    using assms seg_distinct [of h "x # xs"] by (auto simp: is_list_def)
  then show ?thesis by (auto simp: pop_head_def heap_simps)
qed

section \<open>Allocating a node\<close>

text \<open>
  The three statements every allocating function starts with:
  \<^verbatim>\<open>new_node = malloc(sizeof(struct node *)); new_node->value = v; new_node->next = NULL;\<close>
\<close>

definition new_node :: "heap \<Rightarrow> int \<Rightarrow> (heap \<times> ptr) cres" where
  "new_node h v =
     (let (p, h1) = malloc sizeof_ptr h in
      bnd (store_value h1 p v) (\<lambda>h2.
      bnd (store_next h2 p NULL) (\<lambda>h3. ret (h3, p))))"

lemma new_node_ret [simp]:
  "hwf h \<Longrightarrow> 0 < quota h \<Longrightarrow> new_node h v = ret (with_new h v NULL, Ptr (brk h))"
  by (simp add: new_node_def malloc_def store_value_def store_next_def node_at_def
      upd_node_def with_new_def hwf_def layout_defs)

text \<open>No memory left: the unchecked result of \<^verbatim>\<open>malloc\<close> is dereferenced.\<close>

lemma new_node_no_memory [simp]: "quota h = 0 \<Longrightarrow> new_node h v = fault NullDeref"
  by (simp add: new_node_def malloc_def)

text \<open>An allocator that hands out exactly what was asked for: \<^verbatim>\<open>next\<close> lies outside.\<close>

lemma new_node_strict [simp]:
  "0 < quota h \<Longrightarrow> sizeof_ptr + slack h < sizeof_node \<Longrightarrow> new_node h v = fault HeapOverflow"
  by (simp add: new_node_def malloc_def store_value_def store_next_def node_at_def
      upd_node_def layout_defs)

definition empty_heap :: "nat \<Rightarrow> nat \<Rightarrow> heap" where
  "empty_heap q s = \<lparr>cells = Map.empty, brk = 4096, quota = q, slack = s\<rparr>"

lemma hwf_empty [simp]: "hwf (empty_heap q s) \<longleftrightarrow> 8 \<le> s"
  by (auto simp: hwf_def empty_heap_def layout_defs)

lemma empty_heap_fields [simp]:
  "quota (empty_heap q s) = q" "brk (empty_heap q s) = 4096" "slack (empty_heap q s) = s"
  by (simp_all add: empty_heap_def)

section \<open>Concrete heaps\<close>

text \<open>The heap that stores one given chain at its addresses below 4096, with room for more nodes.\<close>

fun lay :: "chain \<Rightarrow> nat \<rightharpoonup> node" where
  "lay [] = Map.empty"
| "lay (x # xs) =
     (lay xs)(fst x \<mapsto> \<lparr>bsize = 16, value_f = Some (snd x), next_f = Some (hdp xs NULL)\<rparr>)"

definition heap_of :: "nat \<Rightarrow> chain \<Rightarrow> heap" where
  "heap_of q xs = \<lparr>cells = lay xs, brk = 4096, quota = q, slack = 8\<rparr>"

lemma seg_lay: "distinct (map fst xs) \<Longrightarrow> cells h = lay xs \<Longrightarrow> seg h xs NULL"
proof (induction xs arbitrary: h)
  case (Cons x xs)
  have "seg \<lparr>cells = lay xs, brk = 0, quota = 0, slack = 0\<rparr> xs NULL" using Cons by simp
  moreover have "frame {fst x} \<lparr>cells = lay xs, brk = 0, quota = 0, slack = 0\<rparr> h"
    using Cons.prems(2) by (simp add: frame_def)
  ultimately have "seg h xs NULL" using Cons.prems(1) seg_frame by fastforce
  with Cons.prems(2) show ?case by (simp add: cell_def layout_defs)
qed simp

lemma heap_of_list [simp]: "distinct (map fst xs) \<Longrightarrow> is_list (heap_of q xs) (hdp xs NULL) xs"
  by (simp add: is_list_def heap_of_def seg_lay)

lemma lay_dom: "lay xs a \<noteq> None \<Longrightarrow> a \<in> addrs xs"
  by (induction xs) (auto split: if_splits)

lemma heap_of_hwf [simp]: "addrs xs \<subseteq> {..<4096} \<Longrightarrow> hwf (heap_of q xs)"
  unfolding hwf_def heap_of_def using lay_dom by (fastforce simp: layout_defs)

lemma heap_of_fields [simp]:
  "brk (heap_of q xs) = 4096" "quota (heap_of q xs) = q" "slack (heap_of q xs) = 8"
  by (simp_all add: heap_of_def)

end
