(* ===== verification/List_Basic.thy ===== *)
theory List_Basic
  imports C_Heap
begin

text \<open>
  The functions that nearly every program under \<^verbatim>\<open>src/linked_list\<close> has: \<^verbatim>\<open>append\<close>,
  \<^verbatim>\<open>insert_to_head\<close>, the variants of \<^verbatim>\<open>print_list\<close>, and the length functions. \<^verbatim>\<open>*head_ref\<close>
  is a local variable of \<^verbatim>\<open>main\<close>, so a function that takes \<^verbatim>\<open>struct node **head_ref\<close> takes
  the pointer and returns the new one.

  The locale \<open>list_builder\<close> is what the programs rely on when they fill a list: an operation
  that puts one value into it. \<^verbatim>\<open>append\<close> and \<^verbatim>\<open>insert_to_head\<close> are its two instances.
\<close>

section \<open>append\<close>

text \<open>\<^verbatim>\<open>while (current->next != NULL) current = current->next;\<close>\<close>

partial_function (option) find_last :: "heap \<Rightarrow> ptr \<Rightarrow> ptr cres" where
  "find_last h current =
     bnd (load_next h current) (\<lambda>n. if n = NULL then ret current else find_last h n)"

definition append_c :: "heap \<Rightarrow> ptr \<Rightarrow> int \<Rightarrow> (heap \<times> ptr) cres" where
  "append_c h head new_value =
     bnd (new_node h new_value) (\<lambda>(h, new_p).
       if head = NULL then ret (h, new_p)
       else bnd (find_last h head) (\<lambda>current.
            bnd (store_next h current new_p) (\<lambda>h. ret (h, head))))"

definition insert_to_head :: "heap \<Rightarrow> ptr \<Rightarrow> int \<Rightarrow> (heap \<times> ptr) cres" where
  "insert_to_head h head new_value =
     bnd (new_node h new_value) (\<lambda>(h, new_p).
       if head = NULL then ret (h, new_p)
       else bnd (store_next h new_p head) (\<lambda>h. ret (h, new_p)))"

section \<open>print\_list\<close>

text \<open>
  The loop of the variants that print only the node, and of those that also count positions;
  \<open>fmt\<close> is what \<^verbatim>\<open>printf\<close> writes for one node.
\<close>

partial_function (option) print_loop ::
    "(int \<Rightarrow> out list) \<Rightarrow> heap \<Rightarrow> ptr \<Rightarrow> out list \<Rightarrow> out list cres" where
  "print_loop fmt h head acc =
     (if head = NULL then ret acc
      else bnd (load_value h head) (\<lambda>v.
           bnd (load_next h head) (\<lambda>n. print_loop fmt h n (acc @ fmt v))))"

partial_function (option) print_pos_loop ::
    "(int \<Rightarrow> ptr \<Rightarrow> int \<Rightarrow> out list) \<Rightarrow> heap \<Rightarrow> ptr \<Rightarrow> int \<Rightarrow> out list \<Rightarrow> out list cres" where
  "print_pos_loop fmt h head i acc =
     (if head = NULL then ret acc
      else bnd (load_value h head) (\<lambda>v.
           bnd (load_next h head) (\<lambda>n.
           bnd (ck (i + 1)) (\<lambda>i'. print_pos_loop fmt h n i' (acc @ fmt v head i)))))"

definition print_list :: "heap \<Rightarrow> ptr \<Rightarrow> out list cres" where
  "print_list h head =
     bnd (print_loop (\<lambda>v. [OInt v, OStr '' '']) h head []) (\<lambda>os. ret (os @ [newline]))"

definition print_list_char :: "heap \<Rightarrow> ptr \<Rightarrow> out list cres" where
  "print_list_char h head =
     bnd (print_loop (\<lambda>v. [OChar v, OStr ''->'']) h head [])
       (\<lambda>os. ret (os @ [OStr ''NULL'', newline]))"

definition print_list_arrow :: "heap \<Rightarrow> ptr \<Rightarrow> out list cres" where
  "print_list_arrow h head =
     bnd (print_loop (\<lambda>v. [OInt v, OStr ''->'']) h head [])
       (\<lambda>os. ret (os @ [OStr ''NULL'', newline]))"

definition print_list_pos :: "heap \<Rightarrow> ptr \<Rightarrow> out list cres" where
  "print_list_pos h head =
     bnd (print_pos_loop (\<lambda>v _ i. [OInt v, OStr ''('', OInt i, OStr '') '']) h head 0 [])
       (\<lambda>os. ret (os @ [newline]))"

definition print_list_addr :: "heap \<Rightarrow> ptr \<Rightarrow> out list cres" where
  "print_list_addr h head =
     print_pos_loop (\<lambda>v p _. [OInt v, OStr ''('', OPtr (addr_of p), OStr '')'', newline]) h head 0 []"

section \<open>Length\<close>

partial_function (option) length_loop :: "heap \<Rightarrow> ptr \<Rightarrow> int \<Rightarrow> int cres" where
  "length_loop h current count =
     bnd (load_next h current) (\<lambda>n.
       if n = NULL then ret count
       else bnd (ck (count + 1)) (\<lambda>c. length_loop h n c))"

definition get_length :: "heap \<Rightarrow> ptr \<Rightarrow> int cres" where
  "get_length h head = (if head = NULL then ret 0 else length_loop h head 1)"

definition check_len :: "heap \<Rightarrow> ptr \<Rightarrow> int cres" where
  "check_len h head =
     (if head = NULL then ret 0
      else bnd (load_next h head) (\<lambda>n. if n = NULL then ret 1 else length_loop h head 1))"

section \<open>Behaviour of the loops\<close>

lemma find_last_seg:
  "seg h (xs @ [x]) NULL \<Longrightarrow> find_last h (hdp (xs @ [x]) NULL) = ret (Ptr (fst x))"
proof (induction xs)
  case Nil
  then show ?case by (subst find_last.simps) (auto simp: heap_simps)
next
  case (Cons y xs)
  then show ?case by (subst find_last.simps) (auto simp: heap_simps)
qed

lemma length_loop_seg:
  "seg h (x # xs) NULL \<Longrightarrow> 1 \<le> c \<Longrightarrow>
     length_loop h (Ptr (fst x)) c =
       (if c + int (length xs) \<le> INT_MAX \<or> xs = [] then ret (c + int (length xs))
        else fault SignedOverflow)"
proof (induction xs arbitrary: x c)
  case Nil
  then show ?case by (subst length_loop.simps) (auto simp: heap_simps)
next
  case (Cons y xs)
  show ?case
  proof (cases "in_int (c + 1)")
    case True
    with Cons show ?thesis
      by (subst length_loop.simps) (auto simp: heap_simps int_range_defs)
  next
    case False
    with Cons.prems show ?thesis
      by (subst length_loop.simps) (auto simp: heap_simps ck_def int_range_defs)
  qed
qed

lemma get_length_spec [list_spec]:
  assumes "is_list h p xs"
  shows "get_length h p =
    (if int (length xs) \<le> INT_MAX then ret (int (length xs)) else fault SignedOverflow)"
proof (cases xs)
  case (Cons x ys)
  with assms show ?thesis
    using length_loop_seg [of h x ys 1]
    by (auto simp: is_list_def get_length_def INT_MAX_def)
qed (use assms in \<open>auto simp: is_list_def get_length_def INT_MAX_def\<close>)

lemma check_len_eq_get_length:
  assumes "is_list h p xs"
  shows "check_len h p = get_length h p"
  using assms
  by (cases xs; cases "tl xs")
    (auto simp: is_list_def check_len_def get_length_def heap_simps
      length_loop_seg [where xs = "[]", simplified])

lemma print_loop_seg:
  "seg h xs NULL \<Longrightarrow>
     print_loop fmt h (hdp xs NULL) acc = ret (acc @ concat (map (\<lambda>x. fmt (snd x)) xs))"
proof (induction xs arbitrary: acc)
  case Nil
  then show ?case by (subst print_loop.simps) simp
next
  case (Cons x xs)
  then show ?case by (subst print_loop.simps) (auto simp: heap_simps)
qed

lemma print_list_spec [list_spec]:
  assumes "is_list h p xs"
  shows "print_list h p = ret (concat (map (\<lambda>v. [OInt v, OStr '' '']) (vals xs)) @ [newline])"
    and "print_list_char h p =
      ret (concat (map (\<lambda>v. [OChar v, OStr ''->'']) (vals xs)) @ [OStr ''NULL'', newline])"
    and "print_list_arrow h p =
      ret (concat (map (\<lambda>v. [OInt v, OStr ''->'']) (vals xs)) @ [OStr ''NULL'', newline])"
  using assms
  by (auto simp: print_list_def print_list_char_def print_list_arrow_def is_list_def
      print_loop_seg comp_def)

lemma print_pos_loop_seg:
  "seg h xs NULL \<Longrightarrow> 0 \<le> i \<Longrightarrow> i + int (length xs) \<le> INT_MAX \<Longrightarrow>
     print_pos_loop fmt h (hdp xs NULL) i acc =
       ret (acc @ concat (map (\<lambda>(x, k). fmt (snd x) (Ptr (fst x)) (i + int k)) (zip xs [0..<length xs])))"
proof (induction xs arbitrary: i acc)
  case Nil
  then show ?case by (subst print_pos_loop.simps) simp
next
  case (Cons x xs)
  have "map (\<lambda>(x, k). fmt (snd x) (Ptr (fst x)) (i + int k)) (zip xs (map Suc [0..<length xs])) =
        map (\<lambda>(x, k). fmt (snd x) (Ptr (fst x)) (i + 1 + int k)) (zip xs [0..<length xs])"
    by (simp add: zip_map2 case_prod_beta comp_def algebra_simps)
  with Cons show ?case
    by (subst print_pos_loop.simps)
      (auto simp: heap_simps in_int_def INT_MIN_def upt_conv_Cons map_Suc_upt [symmetric]
        simp del: upt_Suc)
qed

lemma print_list_pos_spec [list_spec]:
  assumes "is_list h p xs" and "int (length xs) \<le> INT_MAX"
  shows "print_list_pos h p =
    ret (concat (map (\<lambda>(v, k). [OInt v, OStr ''('', OInt (int k), OStr '') ''])
           (zip (vals xs) [0..<length xs])) @ [newline])"
  using assms
  by (auto simp: print_list_pos_def is_list_def print_pos_loop_seg zip_map1 comp_def
      case_prod_unfold)

section \<open>append and insert\_to\_head\<close>

text \<open>\<open>room\<close>: a well-formed heap that can still supply \<open>n\<close> nodes.\<close>

definition room :: "nat \<Rightarrow> heap \<Rightarrow> bool" where
  "room n h \<longleftrightarrow> hwf h \<and> n \<le> quota h"

text \<open>Linking a new node behind the last one of a list that is not empty.\<close>

lemma link_last:
  assumes "is_list h p xs" and "room 1 h" and "xs \<noteq> []"
  shows "\<exists>cur h'. find_last (with_new h v NULL) p = ret cur
    \<and> store_next (with_new h v NULL) cur (Ptr (brk h)) = ret h'
    \<and> is_list h' p (xs @ [(brk h, v)])
    \<and> hwf h' \<and> brk h' = Suc (brk h) \<and> quota h' = quota h - 1
    \<and> frame (insert (brk h) (addrs xs)) h h'"
proof -
  obtain ys y where snoc: "xs = ys @ [y]" using assms(3) by (cases xs rule: rev_cases) auto
  let ?h = "with_new h v NULL"
  have fresh: "brk h \<notin> addrs xs" and seg: "seg h xs NULL" and p: "p = hdp xs NULL" and wf: "hwf h"
    using assms brk_fresh by (auto simp: is_list_def room_def)
  have ih: "find_last ?h p = ret (Ptr (fst y))"
    using find_last_seg [of ?h ys y] seg fresh wf p snoc by simp
  have nin: "fst y \<notin> addrs ys"
    using seg_distinct [OF seg] snoc by auto
  have "cell ?h (fst y) (snd y) NULL"
    using seg fresh wf snoc by auto
  then show ?thesis
    using ih seg fresh wf p snoc nin
    by (auto simp: heap_simps is_list_def frame_def cells_with_new)
qed

lemma append_spec:
  assumes "is_list h p xs" and "room 1 h"
  shows "\<exists>h' p'. append_c h p v = ret (h', p') \<and> is_list h' p' (xs @ [(brk h, v)])
    \<and> hwf h' \<and> brk h' = Suc (brk h) \<and> quota h' = quota h - 1
    \<and> frame (insert (brk h) (addrs xs)) h h'"
proof (cases "xs = []")
  case True
  with assms show ?thesis
    by (simp add: append_c_def is_list_def frame_def cells_with_new room_def)
next
  case False
  then have "p \<noteq> NULL" using assms(1) by (simp add: is_list_def)
  with link_last [OF assms False, of v] assms(2) show ?thesis
    by (auto simp: append_c_def room_def)
qed

lemma insert_to_head_spec:
  assumes "is_list h p xs" and "room 1 h"
  shows "\<exists>h' p'. insert_to_head h p v = ret (h', p') \<and> is_list h' p' ((brk h, v) # xs)
    \<and> hwf h' \<and> brk h' = Suc (brk h) \<and> quota h' = quota h - 1
    \<and> frame (insert (brk h) (addrs xs)) h h'"
proof -
  have new: "new_node h v = ret (with_new h v NULL, Ptr (brk h))"
    using assms(2) by (simp add: room_def)
  have fresh: "brk h \<notin> addrs xs" and seg: "seg h xs NULL" and p: "p = hdp xs NULL" and wf: "hwf h"
    using assms brk_fresh by (auto simp: is_list_def room_def)
  have "cell (with_new h v NULL) (brk h) v NULL" using wf by simp
  then show ?thesis
    using new fresh seg p wf
    by (cases xs) (auto simp: insert_to_head_def heap_simps is_list_def frame_def cells_with_new)
qed

section \<open>Filling a list\<close>

locale list_builder =
  fixes put :: "heap \<Rightarrow> ptr \<Rightarrow> int \<Rightarrow> (heap \<times> ptr) cres"
    and place :: "chain \<Rightarrow> nat \<times> int \<Rightarrow> chain"
  assumes put_spec: "is_list h p xs \<Longrightarrow> room 1 h \<Longrightarrow>
      \<exists>h' p'. put h p v = ret (h', p') \<and> is_list h' p' (place xs (brk h, v))
        \<and> hwf h' \<and> brk h' = Suc (brk h) \<and> quota h' = quota h - 1
        \<and> frame (insert (brk h) (addrs xs)) h h'"
begin

lemma put_all:
  assumes "is_list h p xs" and "room (length vs) h"
  shows "\<exists>h' p'. for_each (\<lambda>v (h, p). put h p v) vs (h, p) = ret (h', p')
    \<and> is_list h' p' (fold (\<lambda>x ys. place ys x) (zip [brk h..<brk h + length vs] vs) xs)
    \<and> hwf h' \<and> brk h' = brk h + length vs \<and> quota h' = quota h - length vs"
  using assms
proof (induction vs arbitrary: h p xs)
  case (Cons v vs)
  from Cons.prems have "room 1 h" by (simp add: room_def)
  with Cons.prems(1) obtain h1 p1 where step: "put h p v = ret (h1, p1)"
    "is_list h1 p1 (place xs (brk h, v))" "hwf h1" "brk h1 = Suc (brk h)" "quota h1 = quota h - 1"
    using put_spec by blast
  with Cons.prems(2) have "room (length vs) h1" by (auto simp: room_def)
  from Cons.IH [OF step(2) this] step show ?case
    by (auto simp: upt_conv_Cons simp del: upt_Suc)
qed (auto simp: room_def)

lemma fill_up:
  assumes "is_list h p xs" and "room (nat (b - a)) h"
  shows "\<exists>h' p'. for_up a b (\<lambda>i (h, p). put h p i) (h, p) = ret (h', p')
    \<and> is_list h' p' (fold (\<lambda>x ys. place ys x) (zip [brk h..<brk h + nat (b - a)] [a..b - 1]) xs)
    \<and> hwf h' \<and> brk h' = brk h + nat (b - a) \<and> quota h' = quota h - nat (b - a)"
  using put_all [of h p xs "[a..b - 1]"] assms by (simp add: for_up_each)

lemma fill_down:
  assumes "is_list h p xs" and "room (nat (a - b)) h"
  shows "\<exists>h' p'. for_down a b (\<lambda>i (h, p). put h p i) (h, p) = ret (h', p')
    \<and> is_list h' p' (fold (\<lambda>x ys. place ys x) (zip [brk h..<brk h + nat (a - b)] (rev [b + 1..a])) xs)
    \<and> hwf h' \<and> brk h' = brk h + nat (a - b) \<and> quota h' = quota h - nat (a - b)"
  using put_all [of h p xs "rev [b + 1..a]"] assms by (simp add: for_down_each)

end

interpretation app: list_builder append_c "\<lambda>xs x. xs @ [x]"
  by unfold_locales (rule append_spec)

interpretation ins: list_builder insert_to_head "\<lambda>xs x. x # xs"
  by unfold_locales (rule insert_to_head_spec)

lemma fold_snoc: "fold (\<lambda>x ys. ys @ [x]) xs acc = acc @ xs"
  by (induction xs arbitrary: acc) auto

lemma fold_cons: "fold (\<lambda>x ys. x # ys) xs acc = rev xs @ acc"
  by (induction xs arbitrary: acc) auto

lemma is_list_Nil [simp]: "is_list h NULL []"
  by (simp add: is_list_def)

text \<open>A list made by a run of \<^verbatim>\<open>append\<close>, with the addresses left out.\<close>

lemma append_all:
  assumes "room (length vs) h"
  shows "\<exists>h' p' xs. for_each (\<lambda>v (h, p). append_c h p v) vs (h, NULL) = ret (h', p')
    \<and> is_list h' p' xs \<and> vals xs = vs \<and> hwf h' \<and> quota h' = quota h - length vs"
proof -
  have "vals (zip [brk h..<brk h + length vs] vs) = vs" by simp
  then show ?thesis
    using app.put_all [OF is_list_Nil assms] unfolding fold_snoc append_Nil by blast
qed

lemma append_range:
  assumes "room (nat (b - a)) h"
  shows "\<exists>h' p' xs. for_up a b (\<lambda>i (h, p). append_c h p i) (h, NULL) = ret (h', p')
    \<and> is_list h' p' xs \<and> vals xs = [a..b - 1] \<and> hwf h' \<and> quota h' = quota h - nat (b - a)"
  using append_all [of "[a..b - 1]" h] assms by (simp add: for_up_each)

lemma insert_range:
  assumes "room (nat (a - b)) h"
  shows "\<exists>h' p' xs. for_down a b (\<lambda>i (h, p). insert_to_head h p i) (h, NULL) = ret (h', p')
    \<and> is_list h' p' xs \<and> vals xs = [b + 1..a] \<and> hwf h' \<and> quota h' = quota h - nat (a - b)"
proof -
  have "vals (rev (zip [brk h..<brk h + nat (a - b)] (rev [b + 1..a]))) = [b + 1..a]"
    by (simp add: rev_map [symmetric])
  then show ?thesis
    using ins.fill_down [OF is_list_Nil assms] unfolding fold_cons append_Nil2 by blast
qed

section \<open>The programs\<close>

definition append_to_tail_main :: "heap \<Rightarrow> out list cres" where
  "append_to_tail_main h =
     bnd (for_up 0 10 (\<lambda>i (h, head). append_c h head i) (h, NULL)) (\<lambda>(h, head). print_list h head)"

definition insert_to_head_main :: "heap \<Rightarrow> out list cres" where
  "insert_to_head_main h =
     bnd (for_down 10 0 (\<lambda>i (h, head). insert_to_head h head i) (h, NULL))
       (\<lambda>(h, head). print_list h head)"

definition get_length_main :: "heap \<Rightarrow> out list cres" where
  "get_length_main h =
     bnd (for_up 0 10 (\<lambda>i (h, head). append_c h head i) (h, NULL)) (\<lambda>(h, head).
     bnd (print_list h head) (\<lambda>os.
     bnd (get_length h head) (\<lambda>len.
       ret (os @ [OStr ''Length of list is '', OInt len, newline]))))"

definition check_len_is_even_or_odd_main :: "heap \<Rightarrow> out list cres" where
  "check_len_is_even_or_odd_main h =
     bnd (for_up 0 10 (\<lambda>i (h, head). append_c h head i) (h, NULL)) (\<lambda>(h, head).
     bnd (print_list h head) (\<lambda>os.
     bnd (get_length h head) (\<lambda>len.
     bnd (c_mod len 2) (\<lambda>r.
       ret (os @ [OStr (if r = 0 then ''Length of list is even'' else ''Length of list is odd''),
                  newline])))))"

section \<open>Properties\<close>

text \<open>
  On a list and a heap with room for a node, \<open>append\<close> returns a list with the new value behind
  all old nodes, allocates exactly one node, keeps the heap well-formed and changes no block
  outside the list and the new node.
\<close>

lemma append_correct:
  assumes "is_list h p xs" and "room 1 h"
  shows "\<exists>h' p'. append_c h p v = ret (h', p') \<and> is_list h' p' (xs @ [(brk h, v)])
    \<and> hwf h' \<and> quota h' = quota h - 1 \<and> frame (insert (brk h) (addrs xs)) h h'"
  using append_spec [OF assms] by blast

lemma append_correct_witness:
  "\<exists>h' p'. append_c (heap_of 1 [(8, 3), (40, 5)]) (Ptr 8) 7 = ret (h', p')
     \<and> is_list h' p' [(8, 3), (40, 5), (4096, 7)]"
  using append_correct [of "heap_of 1 [(8, 3), (40, 5)]" "Ptr 8" "[(8, 3), (40, 5)]" 7]
    heap_of_list [of "[(8, 3), (40, 5)]" 1]
  by (auto simp: room_def)

text \<open>
  \<open>append\<close> and \<open>insert_to_head\<close> allocate a node with the size of a pointer and do not test the
  result: an allocator that hands out no more than requested makes the write of \<open>next\<close> overflow the
  block, and an exhausted one makes the write of \<open>value\<close> go through the null pointer.
\<close>

lemma allocation_failures:
  "(0 < quota h \<and> slack h < 8 \<longrightarrow>
      append_c h p v = fault HeapOverflow \<and> insert_to_head h p v = fault HeapOverflow)
   \<and> (quota h = 0 \<longrightarrow>
      append_c h p v = fault NullDeref \<and> insert_to_head h p v = fault NullDeref)"
proof -
  have "sizeof_ptr + slack h < sizeof_node" if "slack h < 8" using that by (simp add: layout_defs)
  then show ?thesis by (auto simp: append_c_def insert_to_head_def)
qed

lemma allocation_failures_witness:
  "append_c (empty_heap 3 0) NULL 5 = fault HeapOverflow
   \<and> append_c (empty_heap 0 8) NULL 5 = fault NullDeref"
  using allocation_failures [of "empty_heap 3 0" NULL 5] allocation_failures [of "empty_heap 0 8" NULL 5]
  by simp

text \<open>
  C31: Appending any values to an empty list and printing it gives back exactly these values in order,
  and both length functions count them.
\<close>

theorem append_print_roundtrip:
  assumes "room (length vs) h" and "int (length vs) \<le> INT_MAX"
  shows "\<exists>h' p'. for_each (\<lambda>v (h, p). append_c h p v) vs (h, NULL) = ret (h', p')
    \<and> print_list h' p' = ret (concat (map (\<lambda>v. [OInt v, OStr '' '']) vs) @ [newline])
    \<and> get_length h' p' = ret (int (length vs)) \<and> check_len h' p' = ret (int (length vs))"
proof -
  obtain h' p' xs where run: "for_each (\<lambda>v (h, p). append_c h p v) vs (h, NULL) = ret (h', p')"
    and l: "is_list h' p' xs" and vs: "vals xs = vs" using append_all [OF assms(1)] by blast
  have "length xs = length vs" using vs by auto
  then show ?thesis
    using run print_list_spec(1) [OF l] get_length_spec [OF l] check_len_eq_get_length [OF l] vs assms(2)
    by simp
qed

theorem append_print_roundtrip_witness:
  "\<exists>h' p'. for_each (\<lambda>v (h, p). append_c h p v) [4, 2] (empty_heap 9 8, NULL) = ret (h', p')
     \<and> print_list h' p' = ret [OInt 4, OStr '' '', OInt 2, OStr '' '', newline]"
  using append_print_roundtrip [of "[4, 2]" "empty_heap 9 8"] by (auto simp: room_def INT_MAX_def)

text \<open>
  The two programs that only build a list: \<open>append_to_tail\<close> prints 0 to 9, and \<open>insert_to_head\<close>, which
  inserts 10 down to 1, prints 1 to 10.
\<close>

lemma build_programs_output:
  assumes "room 10 h"
  shows "append_to_tail_main h = ret (concat (map (\<lambda>v. [OInt v, OStr '' '']) [0..9]) @ [newline])
    \<and> insert_to_head_main h = ret (concat (map (\<lambda>v. [OInt v, OStr '' '']) [1..10]) @ [newline])"
proof
  obtain h' p' xs where run: "for_up 0 10 (\<lambda>i (h, p). append_c h p i) (h, NULL) = ret (h', p')"
    and l: "is_list h' p' xs" and vs: "vals xs = [0..9]"
    using append_range [of 10 0 h] assms by auto
  show "append_to_tail_main h = ret (concat (map (\<lambda>v. [OInt v, OStr '' '']) [0..9]) @ [newline])"
    using run print_list_spec(1) [OF l] unfolding vs append_to_tail_main_def by simp
  obtain h' p' xs where run: "for_down 10 0 (\<lambda>i (h, p). insert_to_head h p i) (h, NULL) = ret (h', p')"
    and l: "is_list h' p' xs" and vs: "vals xs = [1..10]"
    using insert_range [of 10 0 h] assms by auto
  show "insert_to_head_main h = ret (concat (map (\<lambda>v. [OInt v, OStr '' '']) [1..10]) @ [newline])"
    using run print_list_spec(1) [OF l] unfolding vs insert_to_head_main_def by simp
qed


end
