(* ===== verification/List_Search.thy ===== *)
theory List_Search
  imports List_Basic
begin

text \<open>
  The programs under \<^verbatim>\<open>src/linked_list/single_linked_list/search\<close> but for the two that look
  for a loop: position of a key, key at a position, number of occurrences, key counted from
  the end, and the two versions of the middle element. Each section has the functions of one
  program; the lemmas give the result on every list that ends in \<open>NULL\<close>.
\<close>

section \<open>give\_key\_search\_position\<close>

partial_function (option) search_position_loop :: "heap \<Rightarrow> ptr \<Rightarrow> int \<Rightarrow> int \<Rightarrow> int cres" where
  "search_position_loop h current value pos =
     (if current = NULL then ret (- 1)
      else bnd (load_value h current) (\<lambda>v.
        if v = value then ret pos
        else bnd (load_next h current) (\<lambda>n.
             bnd (ck (pos + 1)) (\<lambda>pos. search_position_loop h n value pos))))"

definition search_position :: "heap \<Rightarrow> ptr \<Rightarrow> int \<Rightarrow> int cres" where
  "search_position h head value =
     (if head = NULL then ret (- 1) else search_position_loop h head value 0)"

definition search_position_main :: "heap \<Rightarrow> int option \<Rightarrow> out list cres" where
  "search_position_main h inp =
     bnd (for_up 10 15 (\<lambda>i (h, head). append_c h head i) (h, NULL)) (\<lambda>(h, head).
     bnd (print_list h head) (\<lambda>os.
     let os = os @ [OStr ''Please give a key to search its position:'', newline];
         search_value = scan_int 0 inp in
     bnd (search_position h head search_value) (\<lambda>r.
       if 0 \<le> r then bnd (ck (r + 1)) (\<lambda>r1.
         ret (os @ [newline, OStr ''Given key is '', OInt r1, OStr ''th element'', newline]))
       else ret (os @ [newline, OStr ''Can not find this key'', newline]))))"

section \<open>give\_position\_search\_key\<close>

partial_function (option) search_key_loop :: "heap \<Rightarrow> ptr \<Rightarrow> int \<Rightarrow> int \<Rightarrow> int cres" where
  "search_key_loop h current position pos =
     (if current = NULL then ret (- 1)
      else if pos = position then load_value h current
      else bnd (load_next h current) (\<lambda>n.
           bnd (ck (pos + 1)) (\<lambda>pos. search_key_loop h n position pos)))"

definition search_key :: "heap \<Rightarrow> ptr \<Rightarrow> int \<Rightarrow> int cres" where
  "search_key h head position =
     (if head = NULL then ret (- 1)
      else if position = 0 then load_value h head
      else search_key_loop h head position 0)"

definition search_key_main :: "heap \<Rightarrow> int option \<Rightarrow> out list cres" where
  "search_key_main h inp =
     bnd (for_up 11 15 (\<lambda>i (h, head). append_c h head i) (h, NULL)) (\<lambda>(h, head).
     bnd (print_list_pos h head) (\<lambda>os.
     let os = os @ [OStr ''Please give a position to search:'', newline] in
     bnd (search_key h head (scan_int 0 inp)) (\<lambda>r.
       if 0 \<le> r
       then ret (os @ [newline, OStr ''Key at given position is '', OInt r, newline])
       else ret (os @ [newline, OStr ''Can not find this position'', newline]))))"

section \<open>search\_key\_and\_count\<close>

partial_function (option) count_key_loop :: "heap \<Rightarrow> ptr \<Rightarrow> int \<Rightarrow> int \<Rightarrow> int cres" where
  "count_key_loop h current value cnt =
     (if current = NULL then ret cnt
      else bnd (load_value h current) (\<lambda>v.
           bnd (if v = value then ck (cnt + 1) else ret cnt) (\<lambda>cnt.
           bnd (load_next h current) (\<lambda>n. count_key_loop h n value cnt))))"

definition search_count :: "heap \<Rightarrow> ptr \<Rightarrow> int \<Rightarrow> int cres" where
  "search_count h head value =
     (if head = NULL then ret (- 1)
      else bnd (count_key_loop h head value 0) (\<lambda>cnt. if cnt \<noteq> 0 then ret cnt else ret 0))"

definition search_key_and_count_main :: "heap \<Rightarrow> int option \<Rightarrow> out list cres" where
  "search_key_and_count_main h inp =
     bnd (for_up 15 25 (\<lambda>i (h, head). append_c h head i) (h, NULL)) (\<lambda>s.
     bnd (for_each (\<lambda>v (h, head). append_c h head v) [24, 24, 24, 21, 22, 21] s) (\<lambda>(h, head).
     bnd (print_list h head) (\<lambda>os.
     let os = os @ [OStr ''Please give a key to search counts:'', newline] in
     bnd (search_count h head (scan_int 0 inp)) (\<lambda>r.
       if 0 < r
       then ret (os @ [newline, OStr ''Given key occurs '', OInt r, OStr '' times'', newline])
       else ret (os @ [newline, OStr ''Can not find this key'', newline])))))"

section \<open>search\_posision\_from\_end\<close>

text \<open>\<^verbatim>\<open>while (current != NULL) { current = current->next; len++; }\<close>\<close>

partial_function (option) count_nodes :: "heap \<Rightarrow> ptr \<Rightarrow> int \<Rightarrow> int cres" where
  "count_nodes h current len =
     (if current = NULL then ret len
      else bnd (load_next h current) (\<lambda>n. bnd (ck (len + 1)) (\<lambda>len. count_nodes h n len)))"

text \<open>\<^verbatim>\<open>for (int i=0; i<n; i++) current = current->next;\<close>\<close>

definition advance :: "heap \<Rightarrow> ptr \<Rightarrow> int \<Rightarrow> ptr cres" where
  "advance h current n = for_up 0 n (\<lambda>_ cur. load_next h cur) current"

definition search_from_end :: "heap \<Rightarrow> ptr \<Rightarrow> int \<Rightarrow> int cres" where
  "search_from_end h head position =
     (if head = NULL then ret (- 1)
      else bnd (count_nodes h head 0) (\<lambda>len.
        if position = len then load_value h head
        else bnd (ck (len - position)) (\<lambda>pos.
          if pos < 0 \<or> len < pos then ret (- 1)
          else bnd (advance h head pos) (\<lambda>current. load_value h current))))"

definition search_from_end_main :: "heap \<Rightarrow> int option \<Rightarrow> out list cres" where
  "search_from_end_main h inp =
     bnd (for_up 11 15 (\<lambda>i (h, head). append_c h head i) (h, NULL)) (\<lambda>(h, head).
     bnd (print_list_pos h head) (\<lambda>os.
     let os = os @ [OStr ''Please give a position from end to search:'', newline] in
     bnd (search_from_end h head (scan_int 0 inp)) (\<lambda>r.
       if 0 \<le> r
       then ret (os @ [newline, OStr ''Key at given position start from end is '', OInt r, newline])
       else ret (os @ [newline, OStr ''Can not find this position'', newline]))))"

section \<open>search\_middle\<close>

definition search_middle_div :: "heap \<Rightarrow> ptr \<Rightarrow> int cres" where
  "search_middle_div h head =
     (if head = NULL then ret (- 1)
      else bnd (count_nodes h head 0) (\<lambda>len.
        if len = 1 then load_value h head
        else bnd (c_div len 2) (\<lambda>middle.
             bnd (advance h head middle) (\<lambda>current. load_value h current))))"

text \<open>
  \<^verbatim>\<open>while (fast_ptr != NULL && fast_ptr->next != NULL)\<close>
  \<^verbatim>\<open>{ fast_ptr = fast_ptr->next->next; slow_ptr = slow_ptr->next; }\<close>
\<close>

partial_function (option) middle_loop :: "heap \<Rightarrow> ptr \<Rightarrow> ptr \<Rightarrow> ptr cres" where
  "middle_loop h fast_ptr slow_ptr =
     (if fast_ptr = NULL then ret slow_ptr
      else bnd (load_next h fast_ptr) (\<lambda>fn.
        if fn = NULL then ret slow_ptr
        else bnd (load_next h fn) (\<lambda>fast.
             bnd (load_next h slow_ptr) (\<lambda>slow. middle_loop h fast slow))))"

definition search_middle :: "heap \<Rightarrow> ptr \<Rightarrow> int cres" where
  "search_middle h head =
     (if head = NULL then ret (- 1)
      else bnd (middle_loop h head head) (\<lambda>slow_ptr. load_value h slow_ptr))"

definition print_middle :: "int \<Rightarrow> out list" where
  "print_middle r =
     (if 0 \<le> r then [newline, OStr ''Key at middle is '', OInt r, newline]
      else [newline, OStr ''Can not find this position'', newline])"

definition search_middle_main :: "heap \<Rightarrow> out list cres" where
  "search_middle_main h =
     bnd (for_up 11 20 (\<lambda>i (h, head). append_c h head i) (h, NULL)) (\<lambda>(h, head).
     bnd (print_list_pos h head) (\<lambda>os.
     bnd (search_middle h head) (\<lambda>r. ret (os @ print_middle r))))"

definition search_middle_div_main :: "heap \<Rightarrow> out list cres" where
  "search_middle_div_main h =
     bnd (for_up 11 13 (\<lambda>i (h, head). append_c h head i) (h, NULL)) (\<lambda>(h, head).
     bnd (print_list_pos h head) (\<lambda>os.
     bnd (search_middle_div h head) (\<lambda>r. ret (os @ print_middle r))))"

section \<open>Results\<close>

lemma search_position_loop_seg:
  "seg h xs NULL \<Longrightarrow> 0 \<le> pos \<Longrightarrow> pos + int (length xs) \<le> INT_MAX \<Longrightarrow>
     search_position_loop h (hdp xs NULL) w pos =
       ret (if w \<in> set (vals xs) then pos + int (length (takeWhile (\<lambda>v. v \<noteq> w) (vals xs))) else - 1)"
proof (induction xs arbitrary: pos)
  case Nil
  then show ?case by (subst search_position_loop.simps) simp
next
  case (Cons x xs)
  then have "cell h (fst x) (snd x) (hdp xs NULL)" by simp
  with Cons show ?case
    by (subst search_position_loop.simps) (simp add: heap_simps in_int_def INT_MIN_def)
qed

lemma search_key_loop_seg:
  "seg h xs NULL \<Longrightarrow> 0 \<le> pos \<Longrightarrow> pos + int (length xs) \<le> INT_MAX \<Longrightarrow>
     search_key_loop h (hdp xs NULL) k pos =
       ret (if pos \<le> k \<and> k < pos + int (length xs) then vals xs ! nat (k - pos) else - 1)"
proof (induction xs arbitrary: pos)
  case Nil
  then show ?case by (subst search_key_loop.simps) simp
next
  case (Cons x xs)
  then show ?case
    by (subst search_key_loop.simps)
      (auto simp: heap_simps in_int_def INT_MIN_def nth_Cons' nat_diff_distrib' nat_add_distrib)
qed

lemma count_key_loop_seg:
  "seg h xs NULL \<Longrightarrow> 0 \<le> c \<Longrightarrow> c + int (length xs) \<le> INT_MAX \<Longrightarrow>
     count_key_loop h (hdp xs NULL) w c = ret (c + int (count_list (vals xs) w))"
proof (induction xs arbitrary: c)
  case Nil
  then show ?case by (subst count_key_loop.simps) simp
next
  case (Cons x xs)
  then show ?case
    by (subst count_key_loop.simps) (auto simp: heap_simps in_int_def INT_MIN_def)
qed

lemma count_nodes_seg:
  "seg h xs NULL \<Longrightarrow> 0 \<le> c \<Longrightarrow> c + int (length xs) \<le> INT_MAX \<Longrightarrow>
     count_nodes h (hdp xs NULL) c = ret (c + int (length xs))"
proof (induction xs arbitrary: c)
  case Nil
  then show ?case by (subst count_nodes.simps) simp
next
  case (Cons x xs)
  then show ?case
    by (subst count_nodes.simps) (auto simp: heap_simps in_int_def INT_MIN_def)
qed

lemma advance_Suc: "0 \<le> n \<Longrightarrow> advance h p (n + 1) = bnd (load_next h p) (\<lambda>q. advance h q n)"
proof -
  assume "0 \<le> n"
  then show ?thesis
    by (auto simp: advance_def for_up_each upto_rec1 [of 0 n] intro!: bnd_cong for_each_const)
qed

lemma advance_seg:
  "seg h xs NULL \<Longrightarrow> n \<le> length xs \<Longrightarrow> advance h (hdp xs NULL) (int n) = ret (hdp (drop n xs) NULL)"
proof (induction n arbitrary: xs)
  case 0
  then show ?case by (simp add: advance_def for_up.simps)
next
  case (Suc n)
  then obtain x ys where "xs = x # ys" by (cases xs) auto
  with Suc advance_Suc [of "int n" h] show ?case by (auto simp: heap_simps add.commute)
qed

lemma load_value_seg:
  "seg h xs NULL \<Longrightarrow>
     load_value h (hdp xs NULL) = (if xs = [] then fault NullDeref else ret (hd (vals xs)))"
  by (cases xs) (auto simp: heap_simps)

lemma seg_drop: "seg h xs NULL \<Longrightarrow> seg h (drop n xs) NULL"
  using seg_append [of h "take n xs" "drop n xs"] by simp

lemma load_value_drop:
  "seg h xs NULL \<Longrightarrow> n < length xs \<Longrightarrow> load_value h (hdp (drop n xs) NULL) = ret (vals xs ! n)"
  by (simp add: load_value_seg seg_drop hd_map hd_drop_conv_nth)

lemma search_position_spec [list_spec]:
  assumes "is_list h p xs" and "int (length xs) \<le> INT_MAX"
  shows "search_position h p w =
    ret (if w \<in> set (vals xs) then int (length (takeWhile (\<lambda>v. v \<noteq> w) (vals xs))) else - 1)"
  using assms search_position_loop_seg [of h xs 0 w]
  by (cases xs) (auto simp: is_list_def search_position_def)

lemma search_key_spec [list_spec]:
  assumes "is_list h p xs" and "int (length xs) \<le> INT_MAX"
  shows "search_key h p k =
    ret (if 0 \<le> k \<and> k < int (length xs) then vals xs ! nat k else - 1)"
  using assms search_key_loop_seg [of h xs 0 k]
  by (cases xs) (auto simp: is_list_def search_key_def heap_simps)

lemma search_count_spec [list_spec]:
  assumes "is_list h p xs" and "int (length xs) \<le> INT_MAX"
  shows "search_count h p w = ret (if xs = [] then - 1 else int (count_list (vals xs) w))"
  using assms count_key_loop_seg [of h xs 0 w]
  by (cases xs) (auto simp: is_list_def search_count_def)

lemma middle_loop_seg:
  "seg h ys NULL \<Longrightarrow> seg h zs NULL \<Longrightarrow> length ys \<le> length zs \<Longrightarrow>
     middle_loop h (hdp ys NULL) (hdp zs NULL) = ret (hdp (drop (length ys div 2) zs) NULL)"
proof (induction ys arbitrary: zs rule: induct_list012)
  case 1
  then show ?case by (subst middle_loop.simps) simp
next
  case (2 x)
  then show ?case by (subst middle_loop.simps) (auto simp: heap_simps)
next
  case (3 x y ys)
  then obtain z zs' where "zs = z # zs'" by (cases zs) auto
  with 3 show ?case by (subst middle_loop.simps) (auto simp: heap_simps)
qed

lemma search_middle_spec [list_spec]:
  assumes "is_list h p xs"
  shows "search_middle h p = ret (if xs = [] then - 1 else vals xs ! (length xs div 2))"
  using assms middle_loop_seg [of h xs xs]
  by (auto simp: is_list_def search_middle_def load_value_drop)

lemma search_middle_div_spec [list_spec]:
  assumes "is_list h p xs" and "int (length xs) \<le> INT_MAX"
  shows "search_middle_div h p = ret (if xs = [] then - 1 else vals xs ! (length xs div 2))"
proof (cases "length xs \<le> 1")
  case True
  with assms show ?thesis
    using count_nodes_seg [of h xs 0]
    by (cases xs) (auto simp: is_list_def search_middle_div_def heap_simps)
next
  case False
  have "int (length xs) div 2 = int (length xs div 2)" by (simp add: zdiv_int)
  with False assms show ?thesis
    using count_nodes_seg [of h xs 0]
    by (auto simp: is_list_def search_middle_div_def c_div_pos in_int_of_nat advance_seg
        load_value_drop)
qed

lemma search_from_end_spec [list_spec]:
  assumes "is_list h p xs" and "int (length xs) \<le> INT_MAX" and "in_int (int (length xs) - k)"
  shows "search_from_end h p k =
    (if xs = [] then ret (- 1)
     else if k = 0 then fault NullDeref
     else if 1 \<le> k \<and> k \<le> int (length xs) then ret (rev (vals xs) ! nat (k - 1))
     else ret (- 1))"
proof (cases "xs = []")
  case False
  let ?n = "length xs"
  have cnt: "count_nodes h p 0 = ret (int ?n)"
    using assms count_nodes_seg [of h xs 0] by (simp add: is_list_def)
  have seg: "seg h xs NULL" and p: "p = hdp xs NULL" using assms(1) by (auto simp: is_list_def)
  consider "k = 0" | "k < 0" | "int ?n < k" | "k = int ?n" | "1 \<le> k" "k < int ?n" by linarith
  then show ?thesis
  proof cases
    case 1
    with False cnt assms(3) seg p show ?thesis
      using advance_seg [of h xs ?n] by (auto simp: search_from_end_def)
  next
    case 4
    with False cnt seg p show ?thesis
      by (auto simp: search_from_end_def load_value_seg rev_nth hd_conv_nth nat_diff_distrib'
          Suc_le_eq)
  next
    case 5
    then have k: "int ?n - k = int (?n - nat k)" "?n - nat k < ?n" by auto
    have "rev (vals xs) ! nat (k - 1) = vals xs ! (?n - nat k)"
      using 5 by (simp add: rev_nth nat_diff_distrib')
    with 5 k False cnt seg p assms(3) show ?thesis
      using advance_seg [of h xs "?n - nat k"]
      by (auto simp: search_from_end_def load_value_drop)
  qed (use False cnt p assms(3) in \<open>auto simp: search_from_end_def\<close>)
qed (use assms in \<open>auto simp: is_list_def search_from_end_def\<close>)

section \<open>Properties\<close>

text \<open>
  C32: Searching by value and by position are inverse: a value of the list has a position, and the key
  found there is the value; a value that does not occur gives -1 and the count 0; for one that
  occurs the count is positive.
\<close>

theorem search_roundtrip:
  assumes "is_list h p xs" and "int (length xs) \<le> INT_MAX" and "xs \<noteq> []"
  shows "\<exists>pos n. search_position h p w = ret pos \<and> search_count h p w = ret n
    \<and> n = int (count_list (vals xs) w)
    \<and> (if w \<in> set (vals xs) then 0 \<le> pos \<and> search_key h p pos = ret w \<and> 0 < n
       else pos = - 1 \<and> n = 0)"
proof -
  let ?k = "length (takeWhile (\<lambda>v. v \<noteq> w) (vals xs))"
  have "?k < length (vals xs) \<and> vals xs ! ?k = w" if w: "w \<in> set (vals xs)"
  proof -
    obtain ys zs where "vals xs = ys @ w # zs" "w \<notin> set ys" using split_list_first [OF w] by blast
    moreover from this have "takeWhile (\<lambda>v. v \<noteq> w) (vals xs) = ys"
      by (auto simp: takeWhile_append)
    ultimately show ?thesis by (metis length_append length_Cons less_add_Suc1 add_Suc_right nth_append_length)
  qed
  then show ?thesis
    using search_position_spec [OF assms(1,2)] search_key_spec [OF assms(1,2)]
      search_count_spec [OF assms(1,2)] assms(3) count_list_0_iff [of "vals xs" w]
    by (cases "w \<in> set (vals xs)") auto
qed

theorem search_roundtrip_witness:
  "\<exists>pos n. search_position (heap_of 0 [(8, 3), (40, 5)]) (Ptr 8) 5 = ret pos
     \<and> search_count (heap_of 0 [(8, 3), (40, 5)]) (Ptr 8) 5 = ret n
     \<and> 0 \<le> pos \<and> search_key (heap_of 0 [(8, 3), (40, 5)]) (Ptr 8) pos = ret 5 \<and> 0 < n"
  using search_roundtrip [of "heap_of 0 [(8, 3), (40, 5)]" "Ptr 8" "[(8, 3), (40, 5)]" 5]
    heap_of_list [of "[(8, 3), (40, 5)]" 0]
  by (auto simp: INT_MAX_def)

text \<open>
  Searching from the end: positions 1 to the length give the element that far from the end,
  positions outside give -1, and position 0 passes the range test and dereferences the null pointer.
\<close>

lemma search_from_end_correct:
  assumes "is_list h p xs" and "xs \<noteq> []" and "int (length xs) \<le> INT_MAX"
    and "in_int (int (length xs) - k)"
  shows "search_from_end h p k =
    (if k = 0 then fault NullDeref
     else if 1 \<le> k \<and> k \<le> int (length xs) then ret (rev (vals xs) ! nat (k - 1))
     else ret (- 1))"
  using search_from_end_spec [OF assms(1,3,4)] assms(2) by simp


text \<open>
  The two ways to find the middle, by counting and dividing and by two pointers, agree on every
  list and give the element at half of the length.
\<close>

lemma search_middle_equivalent:
  assumes "is_list h p xs" and "int (length xs) \<le> INT_MAX"
  shows "search_middle h p = search_middle_div h p
    \<and> search_middle h p = ret (if xs = [] then - 1 else vals xs ! (length xs div 2))"
  using search_middle_spec [OF assms(1)] search_middle_div_spec [OF assms] by simp


end
