(* ===== verification/List_Loop.thy ===== *)
theory List_Loop
  imports List_Basic
begin

text \<open>
  The two programs that close a list into a loop and find the loop with Floyd's two pointers
  (\<^verbatim>\<open>search/search_loop\<close> and \<^verbatim>\<open>search/search_loop_and_count_length\<close>). The lemmas treat both
  shapes a finite chain of nodes can have: one that ends in \<open>NULL\<close>, and a lasso, a tail that
  runs into a cycle. On both the search ends, and it answers correctly.
\<close>

section \<open>The functions\<close>

text \<open>
  \<^verbatim>\<open>append(head_ref, new_value, make_loop)\<close>. The two programs differ in the node the new tail
  is linked to: \<^verbatim>\<open>(*head_ref)->next->next\<close> and \<^verbatim>\<open>(*head_ref)->next->next->next\<close>; the function
  that computes it is the first argument.
\<close>

definition next2 :: "heap \<Rightarrow> ptr \<Rightarrow> ptr cres" where
  "next2 h head = bnd (load_next h head) (\<lambda>a. load_next h a)"

definition next3 :: "heap \<Rightarrow> ptr \<Rightarrow> ptr cres" where
  "next3 h head = bnd (load_next h head) (\<lambda>a. bnd (load_next h a) (\<lambda>b. load_next h b))"

definition append_with :: "(heap \<Rightarrow> ptr \<Rightarrow> ptr cres) \<Rightarrow> heap \<Rightarrow> ptr \<Rightarrow> int \<Rightarrow> bool
    \<Rightarrow> (heap \<times> ptr \<times> out list) cres" where
  "append_with target h head new_value make_loop =
     bnd (new_node h new_value) (\<lambda>(h, new_p).
       if head = NULL then ret (h, new_p, [])
       else bnd (find_last h head) (\<lambda>current.
         if make_loop
         then bnd (store_next h current new_p) (\<lambda>h.
              bnd (target h head) (\<lambda>t.
              bnd (store_next h new_p t) (\<lambda>h.
              bnd (load_next h new_p) (\<lambda>t.
              bnd (load_value h t) (\<lambda>v.
                ret (h, head, [OInt v, OStr ''('', OPtr (addr_of t), OStr '')'', newline]))))))
         else bnd (store_next h current new_p) (\<lambda>h. ret (h, head, []))))"

definition append_loop :: "heap \<Rightarrow> ptr \<Rightarrow> int \<Rightarrow> bool \<Rightarrow> (heap \<times> ptr \<times> out list) cres" where
  "append_loop = append_with next2"

definition append_loop3 :: "heap \<Rightarrow> ptr \<Rightarrow> int \<Rightarrow> bool \<Rightarrow> (heap \<times> ptr \<times> out list) cres" where
  "append_loop3 = append_with next3"

text \<open>The search: the pointer at which the two meet, or \<open>None\<close> when the list ends.\<close>

partial_function (option) floyd :: "heap \<Rightarrow> ptr \<Rightarrow> ptr \<Rightarrow> out list \<Rightarrow> (out list \<times> ptr option) cres" where
  "floyd h fast_ptr slow_ptr os =
     (if fast_ptr = NULL then ret (os, None)
      else bnd (load_next h fast_ptr) (\<lambda>fn.
        if fn = NULL then ret (os, None)
        else let os = os @ [OStr ''slow_ptr='', OPtr (addr_of slow_ptr),
                            OStr '', fast_ptr='', OPtr (addr_of fast_ptr), newline] in
          bnd (load_next h fn) (\<lambda>fast.
          bnd (load_next h slow_ptr) (\<lambda>slow.
            if fast = slow
            then bnd (load_value h fast) (\<lambda>v.
              ret (os @ [OStr ''Found loop'', newline,
                         OStr ''slow_ptr='', OPtr (addr_of slow), OStr '', fast_ptr='',
                         OPtr (addr_of fast), OStr '', value is '', OInt v, newline], Some slow))
            else floyd h fast slow os))))"

definition search_loop :: "heap \<Rightarrow> ptr \<Rightarrow> (out list \<times> int) cres" where
  "search_loop h head =
     (if head = NULL then ret ([], - 1)
      else bnd (floyd h head head [newline, OStr ''Do search:'', newline]) (\<lambda>(os, m).
        case m of Some _ \<Rightarrow> ret (os, 1) | None \<Rightarrow> ret (os, 0)))"

text \<open>\<^verbatim>\<open>while (meet_ptr->next != slow_ptr) { meet_ptr = meet_ptr->next; loop_len++; }\<close>\<close>

partial_function (option) loop_length :: "heap \<Rightarrow> ptr \<Rightarrow> ptr \<Rightarrow> int \<Rightarrow> int cres" where
  "loop_length h slow_ptr meet_ptr loop_len =
     bnd (load_next h meet_ptr) (\<lambda>n.
       if n = slow_ptr then ret loop_len
       else bnd (ck (loop_len + 1)) (\<lambda>l. loop_length h slow_ptr n l))"

definition search_loop_len :: "heap \<Rightarrow> ptr \<Rightarrow> (out list \<times> int) cres" where
  "search_loop_len h head =
     (if head = NULL then ret ([], - 1)
      else bnd (floyd h head head [newline, OStr ''Do search:'', newline]) (\<lambda>(os, m).
        case m of None \<Rightarrow> ret (os, 0)
        | Some slow_ptr \<Rightarrow> bnd (loop_length h slow_ptr slow_ptr 1) (\<lambda>l. ret (os, l))))"

definition search_loop_main :: "heap \<Rightarrow> out list cres" where
  "search_loop_main h =
     bnd (for_up 11 20 (\<lambda>i (h, head). bnd (append_loop h head i False) (\<lambda>(h, p, _). ret (h, p)))
           (h, NULL)) (\<lambda>(h, head).
     bnd (print_list_addr h head) (\<lambda>os1.
     bnd (append_loop h head 15 True) (\<lambda>(h, head, os2).
     bnd (search_loop h head) (\<lambda>(os3, r).
       ret (os1 @ os2 @ os3 @
            [newline, OStr (if r \<noteq> 0 then ''Loop found!!!'' else ''There is no loop''), newline])))))"

definition search_loop_len_main :: "heap \<Rightarrow> out list cres" where
  "search_loop_len_main h =
     bnd (for_up 11 20 (\<lambda>i (h, head). bnd (append_loop3 h head i False) (\<lambda>(h, p, _). ret (h, p)))
           (h, NULL)) (\<lambda>(h, head).
     bnd (print_list_addr h head) (\<lambda>os1.
     bnd (append_loop3 h head 15 True) (\<lambda>(h, head, os2).
     bnd (search_loop_len h head) (\<lambda>(os3, r).
       ret (os1 @ os2 @ os3 @
            (if r \<noteq> 0
             then [newline, OStr ''Loop found!!! The length of this loop is '', OInt r, newline]
             else [newline, OStr ''There is no loop'', newline]))))))"

section \<open>A list that ends\<close>

text \<open>The slow pointer is strictly behind the fast one, so they never meet.\<close>

lemma floyd_list:
  "seg h zs NULL \<Longrightarrow> zs = us @ ys \<Longrightarrow> zs \<noteq> [] \<Longrightarrow> length ys \<le> length zs \<Longrightarrow>
     \<exists>os'. floyd h (hdp ys NULL) (hdp zs NULL) os = ret (os', None)"
proof (induction ys arbitrary: zs us os rule: induct_list012)
  case 1
  then show ?case by (subst floyd.simps) simp
next
  case (2 y)
  then show ?case by (subst floyd.simps) (auto simp: heap_simps)
next
  case (3 a b ys)
  have dis: "distinct (map fst zs)" using 3 seg_distinct by blast
  obtain z zs' us' where zs: "zs = z # zs'" "zs' = us' @ ys" "us' \<noteq> []"
  proof (cases us)
    case Nil
    with "3.prems"(2) show ?thesis by (intro that [of a "b # ys" "[b]"]) simp_all
  next
    case (Cons u us1)
    with "3.prems"(2) show ?thesis
      by (intro that [of u "us1 @ a # b # ys" "us1 @ [a, b]"]) simp_all
  qed
  have "hdp ys NULL \<noteq> hdp zs' NULL"
    using zs dis by (cases us'; cases ys) auto
  moreover have "cell h (fst a) (snd a) (Ptr (fst b))" "cell h (fst b) (snd b) (hdp ys NULL)"
    using "3.prems"(1,2) by auto
  moreover have "cell h (fst z) (snd z) (hdp zs' NULL)" "seg h zs' NULL"
    using "3.prems"(1) unfolding zs(1) by auto
  moreover have "\<exists>os'. floyd h (hdp ys NULL) (hdp zs' NULL) os = ret (os', None)" for os
    using 3(1) [of zs' us' os] zs \<open>seg h zs' NULL\<close> by auto
  ultimately show ?case
    using zs(1) by (subst floyd.simps) (simp add: heap_simps Let_def)
qed

section \<open>A lasso\<close>

text \<open>
  \<open>us\<close> is the tail, \<open>vs\<close> the cycle. \<open>lidx m l i\<close> is the index of the node reached after \<open>i\<close>
  steps from the head when the tail has \<open>m\<close> nodes and the cycle \<open>l\<close>.
\<close>

definition lasso :: "heap \<Rightarrow> ptr \<Rightarrow> chain \<Rightarrow> chain \<Rightarrow> bool" where
  "lasso h p us vs \<longleftrightarrow> vs \<noteq> [] \<and> p = hdp (us @ vs) NULL \<and> seg h (us @ vs) (hdp vs NULL)
     \<and> distinct (map fst (us @ vs))"

definition lidx :: "nat \<Rightarrow> nat \<Rightarrow> nat \<Rightarrow> nat" where
  "lidx m l i = (if i < m then i else m + (i - m) mod l)"

definition lnode :: "chain \<Rightarrow> chain \<Rightarrow> nat \<Rightarrow> nat" where
  "lnode us vs i = fst ((us @ vs) ! lidx (length us) (length vs) i)"

lemma lidx_less: "0 < l \<Longrightarrow> lidx m l i < m + l"
  by (auto simp: lidx_def)

lemma lidx_Suc: "0 < l \<Longrightarrow> lidx m l (Suc i) = (if Suc (lidx m l i) = m + l then m else Suc (lidx m l i))"
  by (auto simp: lidx_def Suc_diff_le mod_Suc not_less_eq)

lemma seg_nth:
  "seg h xs q \<Longrightarrow> i < length xs \<Longrightarrow>
     cell h (fst (xs ! i)) (snd (xs ! i)) (if Suc i < length xs then Ptr (fst (xs ! Suc i)) else q)"
proof (induction xs arbitrary: i)
  case (Cons x xs)
  show ?case
  proof (cases i)
    case 0
    with Cons.prems show ?thesis by (cases xs) auto
  next
    case (Suc j)
    with Cons.prems Cons.IH [of j] show ?thesis by auto
  qed
qed simp

lemma lasso_step:
  assumes "lasso h p us vs"
  shows "\<exists>v. cell h (lnode us vs i) v (Ptr (lnode us vs (Suc i)))"
proof -
  let ?m = "length us" and ?l = "length vs" and ?xs = "us @ vs"
  have l: "0 < ?l" and seg: "seg h ?xs (hdp vs NULL)" using assms by (auto simp: lasso_def)
  have "hdp vs NULL = Ptr (fst (?xs ! ?m))" using l by (cases vs) auto
  with seg_nth [OF seg, of "lidx ?m ?l i"] lidx_less [OF l, of ?m i] show ?thesis
    by (auto simp: lnode_def lidx_Suc [OF l] split: if_splits)
qed

lemma lasso_next [heap_simps]:
  assumes "lasso h p us vs"
  shows "load_next h (Ptr (lnode us vs i)) = ret (Ptr (lnode us vs (Suc i)))"
    and "\<exists>v. load_value h (Ptr (lnode us vs i)) = ret v"
  using lasso_step [OF assms, of i] by (auto dest: cell_load)

lemma lnode_inj:
  assumes "lasso h p us vs"
  shows "lnode us vs i = lnode us vs j \<longleftrightarrow>
    lidx (length us) (length vs) i = lidx (length us) (length vs) j"
proof -
  let ?m = "length us" and ?l = "length vs"
  have l: "0 < ?l" and d: "distinct (map fst (us @ vs))" using assms by (auto simp: lasso_def)
  have "lnode us vs k = map fst (us @ vs) ! lidx ?m ?l k" for k
    using lidx_less [OF l, of ?m k] unfolding lnode_def by (subst nth_map) auto
  moreover have "lidx ?m ?l k < length (map fst (us @ vs))" for k
    using lidx_less [OF l, of ?m k] by simp
  ultimately show ?thesis using nth_eq_iff_index_eq [OF d] by metis
qed

text \<open>After \<open>k\<close> rounds the pointers are \<open>k\<close> and \<open>2 * k\<close> steps from the head.\<close>

lemma lidx_double: "0 < l \<Longrightarrow> lidx m l (2 * k) = lidx m l k \<longleftrightarrow> k = 0 \<or> m \<le> k \<and> l dvd k"
proof -
  assume l: "0 < l"
  show ?thesis
  proof (cases "m \<le> k")
    case True
    then have "lidx m l (2 * k) = lidx m l k \<longleftrightarrow> (k - m + k) mod l = (k - m) mod l"
      by (simp add: lidx_def mult_2)
    also have "\<dots> \<longleftrightarrow> l dvd k"
      using mod_eq_dvd_iff_nat [of "k - m" "k - m + k" l] by simp
    finally show ?thesis using True by auto
  qed (auto simp: lidx_def)
qed

lemma lidx_cycle: "0 < l \<Longrightarrow> m \<le> k \<Longrightarrow> lidx m l (k + j) = lidx m l k \<longleftrightarrow> l dvd j"
  using mod_eq_dvd_iff_nat [of "k - m" "k - m + j" l] by (simp add: lidx_def)

lemma meeting_point_exists: "0 < l \<Longrightarrow> \<exists>k. 0 < k \<and> m \<le> k \<and> l dvd (k :: nat)"
  by (rule exI [of _ "l * Suc m"]) (auto simp: trans_le_add2)

lemma floyd_lasso:
  assumes "lasso h p us vs"
  shows "\<exists>os' k. floyd h p p os = ret (os', Some (Ptr (lnode us vs k))) \<and> length us \<le> k"
proof -
  let ?m = "length us" and ?l = "length vs" and ?n = "\<lambda>i. Ptr (lnode us vs i)"
  let ?Q = "\<lambda>k. 0 < k \<and> ?m \<le> k \<and> ?l dvd k"
  define K where "K = (LEAST k. ?Q k)"
  have l: "0 < ?l" using assms by (simp add: lasso_def)
  have K: "?Q K" unfolding K_def by (rule LeastI_ex) (rule meeting_point_exists [OF l])
  have least: "j < K \<Longrightarrow> \<not> ?Q j" for j unfolding K_def by (rule not_less_Least)
  have meet: "?n (2 * j) = ?n j \<longleftrightarrow> j = 0 \<or> ?Q j" for j
    using lnode_inj [OF assms] lidx_double [OF l] by auto
  have run: "\<exists>os'. floyd h (?n (2 * j)) (?n j) os = ret (os', Some (?n K))" if "j < K" for j os
    using that
  proof (induction "K - j" arbitrary: j os)
    case (Suc d)
    obtain v where v: "load_value h (?n (Suc j)) = ret v" using lasso_next(2) [OF assms] by blast
    show ?case
    proof (cases "Suc j = K")
      case True
      then have "?n (Suc (Suc (2 * j))) = ?n (Suc j)" using meet [of "Suc j"] K by auto
      with v True show ?thesis
        by (subst floyd.simps) (simp add: lasso_next(1) [OF assms] Let_def)
    next
      case False
      with Suc.prems have j: "Suc j < K" by simp
      then have "?n (Suc (Suc (2 * j))) \<noteq> ?n (Suc j)" using meet [of "Suc j"] least [of "Suc j"] by auto
      moreover have "\<exists>os'. floyd h (?n (Suc (Suc (2 * j)))) (?n (Suc j)) os = ret (os', Some (?n K))" for os
        using Suc.hyps(1) [of "Suc j" os] Suc.hyps(2) j by simp
      ultimately show ?thesis
        by (subst floyd.simps) (simp add: lasso_next(1) [OF assms] Let_def)
    qed
  qed simp
  have "p = ?n 0"
    using assms by (cases us; cases vs) (auto simp: lasso_def lnode_def lidx_def)
  then show ?thesis using run [of 0 os] K by auto
qed

lemma loop_length_lasso:
  assumes "lasso h p us vs" and "length us \<le> k" and "int (length vs) \<le> INT_MAX"
  shows "loop_length h (Ptr (lnode us vs k)) (Ptr (lnode us vs k)) 1 = ret (int (length vs))"
proof -
  let ?l = "length vs" and ?n = "\<lambda>i. Ptr (lnode us vs i)"
  have l: "0 < ?l" using assms(1) by (simp add: lasso_def)
  have round: "?n (k + j) = ?n k \<longleftrightarrow> ?l dvd j" for j
    using lnode_inj [OF assms(1)] lidx_cycle [OF l assms(2)] by auto
  have "loop_length h (?n k) (?n (k + j)) (int j + 1) = ret (int ?l)" if "j < ?l" for j
    using that
  proof (induction "?l - j" arbitrary: j)
    case (Suc d)
    show ?case
    proof (cases "Suc j = ?l")
      case True
      then have "?n (Suc (k + j)) = ?n k" and "int j + 1 = int ?l"
        using round [of ?l] by (metis add_Suc_right dvd_refl, simp)
      then show ?thesis
        by (subst loop_length.simps) (simp add: lasso_next(1) [OF assms(1)])
    next
      case False
      with Suc.prems have j: "Suc j < ?l" by simp
      then have "\<not> ?l dvd Suc j" by (auto dest: dvd_imp_le)
      moreover have "loop_length h (?n k) (?n (Suc (k + j))) (2 + int j) = ret (int ?l)"
        using Suc.hyps(1) [of "Suc j"] Suc.hyps(2) j by (simp add: add.commute)
      moreover have "in_int (2 + int j)" using j assms(3) by (simp add: in_int_def INT_MIN_def)
      ultimately show ?thesis
        using round [of "Suc j"] by (subst loop_length.simps) (simp add: lasso_next(1) [OF assms(1)])
    qed
  qed simp
  from this [of 0] l show ?thesis by simp
qed

section \<open>Closing the loop\<close>

lemma append_with_False: "bnd (append_with t h p v False) (\<lambda>(h, p, _). ret (h, p)) = append_c h p v"
  by (auto simp: append_with_def append_c_def bnd_assoc case_prod_beta intro!: bnd_cong)

lemma load_value_hdp: "seg h vs q \<Longrightarrow> vs \<noteq> [] \<Longrightarrow> load_value h (hdp vs r) = ret (snd (hd vs))"
  by (cases vs) (auto simp: heap_simps)

lemma append_with_lasso:
  assumes "is_list h p xs" and "room 1 h" and "xs \<noteq> []" and "k \<le> length xs"
    and target: "\<And>h ys. is_list h p ys \<Longrightarrow> k < length ys \<Longrightarrow> t h p = ret (hdp (drop k ys) NULL)"
  shows "\<exists>h' os. append_with t h p v True = ret (h', p, os)
    \<and> lasso h' p (take k (xs @ [(brk h, v)])) (drop k (xs @ [(brk h, v)]))"
proof -
  let ?ys = "xs @ [(brk h, v)]" and ?b = "brk h"
  have new: "new_node h v = ret (with_new h v NULL, Ptr ?b)" and p: "p \<noteq> NULL"
    using assms by (auto simp: room_def is_list_def)
  obtain cur h2 where l: "find_last (with_new h v NULL) p = ret cur"
    "store_next (with_new h v NULL) cur (Ptr ?b) = ret h2" "is_list h2 p ?ys"
    using link_last [OF assms(1-3)] by blast
  let ?t = "hdp (drop k ?ys) NULL"
  let ?h3 = "set_next ?b ?t h2"
  have dis: "distinct (map fst ?ys)" using l(3) seg_distinct [of h2 ?ys] by (simp only: is_list_def)
  have c: "cell h2 ?b v NULL" and seg: "seg h2 xs (Ptr ?b)" using l(3) by (auto simp: is_list_def)
  have c3: "cell ?h3 ?b v ?t" using c by simp
  have "seg ?h3 ?ys ?t" using seg c3 dis by simp
  then have seg3: "seg ?h3 (take k ?ys @ drop k ?ys) ?t" by (simp only: append_take_drop_id)
  have "hdp (take k ?ys @ drop k ?ys) NULL = p"
    using l(3) by (simp only: append_take_drop_id is_list_def)
  then have las: "lasso ?h3 p (take k ?ys) (drop k ?ys)"
    using seg3 dis assms(4) unfolding lasso_def append_take_drop_id by auto
  have "seg ?h3 (drop k ?ys) ?t" using seg3 unfolding seg_append by blast
  then obtain w where "load_value ?h3 ?t = ret w"
    using load_value_hdp [of ?h3 "drop k ?ys" ?t NULL] assms(4) by auto
  moreover have "t h2 p = ret ?t" using target [OF l(3)] assms(4) by simp
  ultimately have "\<exists>os. append_with t h p v True = ret (?h3, p, os)"
    using new p l cell_load(3) [OF c] cell_load(2) [OF c3] by (simp add: append_with_def)
  with las show ?thesis by blast
qed

lemma next2_list: "is_list h p ys \<Longrightarrow> 2 < length ys \<Longrightarrow> next2 h p = ret (hdp (drop 2 ys) NULL)"
  by (cases ys; cases "tl ys") (auto simp: is_list_def next2_def heap_simps)

lemma next3_list: "is_list h p ys \<Longrightarrow> 3 < length ys \<Longrightarrow> next3 h p = ret (hdp (drop 3 ys) NULL)"
  by (cases ys; cases "tl ys"; cases "tl (tl ys)") (auto simp: is_list_def next3_def heap_simps)

lemmas append_loop_lasso = append_with_lasso [of _ _ _ 2 next2, OF _ _ _ _ next2_list, folded append_loop_def]
lemmas append_loop3_lasso = append_with_lasso [of _ _ _ 3 next3, OF _ _ _ _ next3_list, folded append_loop3_def]

lemma lasso_not_NULL: "lasso h p us vs \<Longrightarrow> p \<noteq> NULL"
  by (cases vs) (auto simp: lasso_def)

lemma search_loop_lasso: "lasso h p us vs \<Longrightarrow> \<exists>os. search_loop h p = ret (os, 1)"
proof -
  assume las: "lasso h p us vs"
  then have "p \<noteq> NULL" by (rule lasso_not_NULL)
  moreover obtain os k where "floyd h p p [newline, OStr ''Do search:'', newline] =
      ret (os, Some (Ptr (lnode us vs k)))"
    using floyd_lasso [OF las] by blast
  ultimately show ?thesis by (simp add: search_loop_def)
qed

lemma search_loop_len_lasso:
  "lasso h p us vs \<Longrightarrow> int (length vs) \<le> INT_MAX \<Longrightarrow>
     \<exists>os. search_loop_len h p = ret (os, int (length vs))"
proof -
  assume las: "lasso h p us vs" and le: "int (length vs) \<le> INT_MAX"
  then have "p \<noteq> NULL" by (auto dest: lasso_not_NULL)
  moreover obtain os k where "floyd h p p [newline, OStr ''Do search:'', newline] =
      ret (os, Some (Ptr (lnode us vs k)))" "length us \<le> k"
    using floyd_lasso [OF las] by blast
  ultimately show ?thesis
    using loop_length_lasso [OF las _ le] by (auto simp: search_loop_len_def)
qed

lemma search_loop_list:
  "is_list h p xs \<Longrightarrow> \<exists>os. search_loop h p = ret (os, if xs = [] then - 1 else 0)
     \<and> search_loop_len h p = ret (os, if xs = [] then - 1 else 0)"
  using floyd_list [of h xs "[]" xs "[newline, OStr ''Do search:'', newline]"]
  by (cases "xs = []") (fastforce simp: is_list_def search_loop_def search_loop_len_def)+

section \<open>Properties\<close>

text \<open>
  C1: Floyd's search ends on every finite chain of nodes and is right: it reports a loop exactly when
  the chain runs into a cycle, and the counting version returns the number of nodes of the cycle.
\<close>

theorem search_loop_correct:
  "(is_list h p xs \<and> xs \<noteq> [] \<longrightarrow>
      (\<exists>os. search_loop h p = ret (os, 0)) \<and> (\<exists>os. search_loop_len h p = ret (os, 0)))
   \<and> (lasso h p us vs \<and> int (length vs) \<le> INT_MAX \<longrightarrow>
      (\<exists>os. search_loop h p = ret (os, 1)) \<and> (\<exists>os. search_loop_len h p = ret (os, int (length vs))))"
  using search_loop_list [of h p xs] search_loop_lasso [of h p us vs]
    search_loop_len_lasso [of h p us vs] by auto

theorem search_loop_correct_witness:
  "\<exists>os. search_loop (heap_of 0 [(8, 3), (40, 5)]) (Ptr 8) = ret (os, 0)"
  using search_loop_correct [of "heap_of 0 [(8, 3), (40, 5)]" "Ptr 8" "[(8, 3), (40, 5)]" "[]" "[]"]
    heap_of_list [of "[(8, 3), (40, 5)]" 0] by simp

text \<open>
  Appending to a list of at least three nodes with the flag set closes it behind the third node
  (the fourth in the counting program), and the search on the result reports a loop whose length
  is the number of nodes from there to the new one.
\<close>

lemma append_loop_detected:
  assumes "is_list h p xs" and "room 1 h" and "3 \<le> length xs" and "int (length xs) \<le> INT_MAX"
  shows "(\<exists>h' os1 os2. append_loop h p v True = ret (h', p, os1) \<and> search_loop h' p = ret (os2, 1))
    \<and> (\<exists>h' os1 os2. append_loop3 h p v True = ret (h', p, os1)
         \<and> search_loop_len h' p = ret (os2, int (length xs) - 2))"
proof -
  have ne: "xs \<noteq> []" and k: "2 \<le> length xs" using assms(3) by auto
  obtain h2 os2 where 2: "append_loop h p v True = ret (h2, p, os2)"
    "lasso h2 p (take 2 (xs @ [(brk h, v)])) (drop 2 (xs @ [(brk h, v)]))"
    using append_loop_lasso [OF assms(1,2) ne k] by blast
  obtain h3 os3 where 3: "append_loop3 h p v True = ret (h3, p, os3)"
    "lasso h3 p (take 3 (xs @ [(brk h, v)])) (drop 3 (xs @ [(brk h, v)]))"
    using append_loop3_lasso [OF assms(1,2) ne assms(3)] by blast
  have "int (length (drop 3 (xs @ [(brk h, v)]))) = int (length xs) - 2" using assms(3) by simp
  with 2 3 search_loop_lasso [OF 2(2)] search_loop_len_lasso [OF 3(2)] assms(4) show ?thesis by auto
qed

lemma append_loop_detected_witness:
  "\<exists>h' os1 os2. append_loop3 (heap_of 1 [(8, 3), (40, 5), (80, 6), (96, 1)]) (Ptr 8) 9 True =
      ret (h', Ptr 8, os1) \<and> search_loop_len h' (Ptr 8) = ret (os2, 2)"
  using append_loop_detected [of "heap_of 1 [(8, 3), (40, 5), (80, 6), (96, 1)]" "Ptr 8"
      "[(8, 3), (40, 5), (80, 6), (96, 1)]" 9] heap_of_list [of "[(8, 3), (40, 5), (80, 6), (96, 1)]" 1]
  by (auto simp: room_def INT_MAX_def)

end
