(* ===== verification/List_Reorder.thy ===== *)
theory List_Reorder
  imports List_Basic
begin

text \<open>
  In-place reordering: \<^verbatim>\<open>reverse/iterative\<close> and \<^verbatim>\<open>move/move_tail_to_head\<close>. The lemmas give the
  resulting chain with its addresses, so they say that the nodes themselves are relinked and
  that nothing else in the heap changes.
\<close>

section \<open>reverse\<close>

partial_function (option) reverse_loop :: "heap \<Rightarrow> ptr \<Rightarrow> ptr \<Rightarrow> (heap \<times> ptr) cres" where
  "reverse_loop h prev_one current =
     (if current = NULL then ret (h, prev_one)
      else bnd (load_next h current) (\<lambda>next_one.
           bnd (store_next h current prev_one) (\<lambda>h. reverse_loop h current next_one)))"

text \<open>The initialiser \<^verbatim>\<open>next_one = (*head_ref)->next\<close> runs before the test for \<open>NULL\<close>.\<close>

definition reverse_c :: "heap \<Rightarrow> ptr \<Rightarrow> (heap \<times> ptr) cres" where
  "reverse_c h head =
     bnd (load_next h head) (\<lambda>_.
       if head = NULL then ret (h, head) else reverse_loop h NULL head)"

definition reverse_main :: "heap \<Rightarrow> out list cres" where
  "reverse_main h =
     bnd (for_up 15 25 (\<lambda>i (h, head). append_c h head i) (h, NULL)) (\<lambda>(h, head).
     bnd (print_list h head) (\<lambda>os1.
     bnd (reverse_c h head) (\<lambda>(h, head).
     bnd (print_list h head) (\<lambda>os2. ret (os1 @ os2)))))"

section \<open>move\_tail\_to\_head\<close>

text \<open>\<^verbatim>\<open>while (current->next != NULL) { prev = current; current = current->next; }\<close>\<close>

partial_function (option) tail_loop :: "heap \<Rightarrow> ptr option \<Rightarrow> ptr \<Rightarrow> (ptr option \<times> ptr) cres" where
  "tail_loop h prev current =
     bnd (load_next h current) (\<lambda>n.
       if n = NULL then ret (prev, current) else tail_loop h (Some current) n)"

definition move_tail_to_head :: "heap \<Rightarrow> ptr \<Rightarrow> (heap \<times> ptr) cres" where
  "move_tail_to_head h head =
     (if head = NULL then ret (h, head)
      else bnd (load_next h head) (\<lambda>n.
        if n = NULL then ret (h, head)
        else bnd (tail_loop h None head) (\<lambda>(prev, current).
             bnd (store_next h current head) (\<lambda>h.
             bnd (need Uninit prev) (\<lambda>prev.
             bnd (store_next h prev NULL) (\<lambda>h. ret (h, current)))))))"

definition move_tail_to_head_main :: "heap \<Rightarrow> out list cres" where
  "move_tail_to_head_main h =
     bnd (for_down 15 0 (\<lambda>i (h, head). insert_to_head h head i) (h, NULL)) (\<lambda>(h, head).
     bnd (print_list h head) (\<lambda>os1.
     bnd (move_tail_to_head h head) (\<lambda>(h, head).
     bnd (print_list h head) (\<lambda>os2. ret (os1 @ os2)))))"

section \<open>Results\<close>

lemma reverse_loop_seg:
  "seg h xs NULL \<Longrightarrow> seg h ys NULL \<Longrightarrow> addrs xs \<inter> addrs ys = {} \<Longrightarrow>
     \<exists>h'. reverse_loop h (hdp ys NULL) (hdp xs NULL) = ret (h', hdp (rev xs @ ys) NULL)
       \<and> seg h' (rev xs @ ys) NULL \<and> evolves (addrs xs) h h'"
proof (induction xs arbitrary: h ys)
  case Nil
  then show ?case by (subst reverse_loop.simps) simp
next
  case (Cons x xs)
  let ?h1 = "set_next (fst x) (hdp ys NULL) h"
  have d: "fst x \<notin> addrs xs" "fst x \<notin> addrs ys" and c: "cell h (fst x) (snd x) (hdp xs NULL)"
    using Cons.prems seg_distinct [of h "x # xs"] by auto
  have "seg ?h1 xs NULL" "seg ?h1 (x # ys) NULL" "addrs xs \<inter> addrs (x # ys) = {}"
    using Cons.prems d c by auto
  from Cons.IH [OF this] obtain h' where
    IH: "reverse_loop ?h1 (Ptr (fst x)) (hdp xs NULL) = ret (h', hdp (rev xs @ x # ys) NULL)"
      "seg h' (rev xs @ x # ys) NULL" "evolves (addrs xs) ?h1 h'" by auto
  have "evolves (addrs (x # xs)) h h'"
    by (rule evolves_trans [OF _ IH(3), of "{fst x}"]) auto
  with IH c show ?case
    by (subst reverse_loop.simps) (auto simp: heap_simps)
qed

lemma reverse_spec:
  assumes "is_list h p xs" and "xs \<noteq> []"
  shows "\<exists>h' p'. reverse_c h p = ret (h', p') \<and> is_list h' p' (rev xs) \<and> evolves (addrs xs) h h'"
proof -
  obtain x ys where xs: "xs = x # ys" using assms(2) by (cases xs) auto
  with assms(1) have "load_next h p = ret (hdp ys NULL)" "p \<noteq> NULL" "p = hdp xs NULL" "seg h xs NULL"
    by (auto simp: is_list_def heap_simps)
  then show ?thesis
    using reverse_loop_seg [of h xs "[]"] by (auto simp: reverse_c_def is_list_def)
qed

lemma tail_loop_seg:
  "seg h (xs @ [y, z]) NULL \<Longrightarrow>
     tail_loop h pr (hdp (xs @ [y, z]) NULL) = ret (Some (Ptr (fst y)), Ptr (fst z))"
proof (induction xs arbitrary: pr)
  case Nil
  then show ?case
    by (subst tail_loop.simps, clarsimp simp: heap_simps, subst tail_loop.simps)
      (simp add: heap_simps)
next
  case (Cons x xs)
  then show ?case by (subst tail_loop.simps) (auto simp: heap_simps)
qed

lemma move_tail_spec:
  assumes "is_list h p xs"
  shows "\<exists>h' p'. move_tail_to_head h p = ret (h', p')
    \<and> is_list h' p' (if xs = [] then [] else last xs # butlast xs) \<and> evolves (addrs xs) h h'"
proof (cases "length xs \<le> 1")
  case True
  with assms show ?thesis
    by (cases xs) (auto simp: is_list_def move_tail_to_head_def heap_simps)
next
  case False
  then obtain ys y z where xs: "xs = ys @ [y, z]" using two_last [of xs] by auto
  have seg: "seg h xs NULL" and p: "p = hdp xs NULL" using assms by (auto simp: is_list_def)
  have d: "distinct (map fst xs)" using seg_distinct [OF seg] .
  let ?h1 = "set_next (fst z) p h"
  let ?h2 = "set_next (fst y) NULL ?h1"
  have cy: "cell h (fst y) (snd y) (Ptr (fst z))" and cz: "cell h (fst z) (snd z) NULL"
    using seg xs by auto
  have "cell ?h1 (fst y) (snd y) (Ptr (fst z))" using cy d xs by auto
  note st = cell_load(3) [OF cz, of p] cell_load(3) [OF this, of NULL]
  have "\<exists>n. load_next h p = ret n \<and> n \<noteq> NULL"
    using seg p xs by (cases ys) (auto simp: heap_simps)
  then have "move_tail_to_head h p = ret (?h2, Ptr (fst z))"
    using tail_loop_seg [of h ys y z None] seg p xs st by (auto simp: move_tail_to_head_def)
  moreover have "is_list ?h2 (Ptr (fst z)) (z # ys @ [y])"
    using seg d p xs cy cz by (auto simp: is_list_def)
  moreover have "evolves (addrs xs) h ?h2"
    by (rule evolves_trans [of "{fst z}" _ ?h1 "{fst y}"]) (auto simp: xs)
  ultimately show ?thesis using xs by (auto simp: butlast_append)
qed

section \<open>Properties\<close>

text \<open>
  C6: Reversing a list that is not empty relinks its own nodes in the opposite order, allocates and
  frees nothing and touches no other block; reversing twice gives back the list.
\<close>

theorem reverse_correct:
  assumes "is_list h p xs" and "xs \<noteq> []"
  shows "\<exists>h1 p1 h2. reverse_c h p = ret (h1, p1) \<and> is_list h1 p1 (rev xs)
    \<and> evolves (addrs xs) h h1 \<and> reverse_c h1 p1 = ret (h2, p) \<and> is_list h2 p xs"
proof -
  obtain h1 p1 where 1: "reverse_c h p = ret (h1, p1)" "is_list h1 p1 (rev xs)" "evolves (addrs xs) h h1"
    using reverse_spec [OF assms] by blast
  then obtain h2 p2 where "reverse_c h1 p1 = ret (h2, p2)" "is_list h2 p2 xs"
    using reverse_spec [of h1 p1 "rev xs"] assms(2) by auto
  moreover from this have "p2 = p" using assms(1) by (simp add: is_list_def)
  ultimately show ?thesis using 1 by blast
qed

theorem reverse_correct_witness:
  "\<exists>h1 p1. reverse_c (heap_of 0 [(8, 3), (40, 5)]) (Ptr 8) = ret (h1, p1)
     \<and> is_list h1 p1 [(40, 5), (8, 3)]"
  using reverse_correct [of "heap_of 0 [(8, 3), (40, 5)]" "Ptr 8" "[(8, 3), (40, 5)]"]
    heap_of_list [of "[(8, 3), (40, 5)]" 0] by auto

text \<open>
  Moving the tail to the head returns for every list, the empty one included, and rotates its
  nodes by one place.
\<close>

lemma move_tail_correct:
  assumes "is_list h p xs"
  shows "\<exists>h' p'. move_tail_to_head h p = ret (h', p')
    \<and> is_list h' p' (rotate (length xs - 1) xs) \<and> evolves (addrs xs) h h'"
proof -
  have "rotate (length xs - 1) xs = (if xs = [] then [] else last xs # butlast xs)"
  proof (cases xs rule: rev_cases)
    case (snoc ys y)
    then show ?thesis using rotate_append [of ys "[y]"] by simp
  qed simp
  then show ?thesis using move_tail_spec [OF assms] by simp
qed


end
