(* ===== verification/List_Insert.thy ===== *)
theory List_Insert
  imports List_Search
begin

text \<open>
  Insertion inside a list: behind the first node with a given value
  (\<^verbatim>\<open>insert/insert_after_position\<close>, whose \<^verbatim>\<open>position\<close> is compared with the values) and behind
  the middle node (\<^verbatim>\<open>insert/insert_at_middle\<close>).
\<close>

text \<open>\<^verbatim>\<open>new_node->next = current->next; current->next = new_node;\<close>\<close>

definition link_after :: "heap \<Rightarrow> ptr \<Rightarrow> ptr \<Rightarrow> heap cres" where
  "link_after h current new_p =
     bnd (load_next h current) (\<lambda>n.
     bnd (store_next h new_p n) (\<lambda>h. store_next h current new_p))"

section \<open>insert\_after\_position\<close>

partial_function (option) find_value :: "heap \<Rightarrow> ptr \<Rightarrow> int \<Rightarrow> ptr cres" where
  "find_value h current position =
     bnd (load_value h current) (\<lambda>v.
       if v = position then ret current
       else bnd (load_next h current) (\<lambda>n. find_value h n position))"

definition insert_c :: "heap \<Rightarrow> ptr \<Rightarrow> int \<Rightarrow> int \<Rightarrow> (heap \<times> ptr) cres" where
  "insert_c h head position new_value =
     bnd (new_node h new_value) (\<lambda>(h, new_p).
     bnd (find_value h head position) (\<lambda>current.
     bnd (link_after h current new_p) (\<lambda>h. ret (h, head))))"

definition insert_after_position_main :: "heap \<Rightarrow> out list cres" where
  "insert_after_position_main h =
     bnd (for_up 0 10 (\<lambda>i (h, head). append_c h head i) (h, NULL)) (\<lambda>(h, head).
     bnd (print_list h head) (\<lambda>os1.
     bnd (insert_c h head 5 100) (\<lambda>(h, head).
     bnd (print_list h head) (\<lambda>os2. ret (os1 @ os2)))))"

section \<open>insert\_at\_middle\<close>

definition search_middle_ptr :: "heap \<Rightarrow> ptr \<Rightarrow> ptr cres" where
  "search_middle_ptr h head = (if head = NULL then ret NULL else middle_loop h head head)"

text \<open>\<^verbatim>\<open>while (current != midd) current = current->next;\<close>\<close>

partial_function (option) walk_to :: "heap \<Rightarrow> ptr \<Rightarrow> ptr \<Rightarrow> unit cres" where
  "walk_to h current midd =
     (if current = midd then ret ()
      else bnd (load_next h current) (\<lambda>n. walk_to h n midd))"

definition insert_at_middle :: "heap \<Rightarrow> ptr \<Rightarrow> ptr \<Rightarrow> int \<Rightarrow> heap cres" where
  "insert_at_middle h head mid new_value =
     bnd (new_node h new_value) (\<lambda>(h, new_p).
     bnd (walk_to h head mid) (\<lambda>_. link_after h mid new_p))"

definition print_middle_node :: "heap \<Rightarrow> ptr \<Rightarrow> out list cres" where
  "print_middle_node h middle =
     (if middle = NULL then ret []
      else bnd (load_value h middle) (\<lambda>v.
        ret [OStr ''middle value is '', OInt v, OStr '' (at '', OPtr (addr_of middle), OStr '')'', newline]))"

definition insert_at_middle_main :: "heap \<Rightarrow> out list cres" where
  "insert_at_middle_main h =
     bnd (for_up 11 20 (\<lambda>i (h, head). append_c h head i) (h, NULL)) (\<lambda>(h, head).
     bnd (print_list_pos h head) (\<lambda>os1.
     bnd (search_middle_ptr h head) (\<lambda>middle.
     bnd (print_middle_node h middle) (\<lambda>os2.
     bnd (insert_at_middle h head middle 25) (\<lambda>h.
     bnd (print_list_pos h head) (\<lambda>os3. ret (os1 @ os2 @ os3)))))))"

section \<open>Results\<close>

lemma link_after_spec:
  assumes "seg h (us @ x # vs) NULL" and "room 1 h"
  shows "\<exists>h'. link_after (with_new h v NULL) (Ptr (fst x)) (Ptr (brk h)) = ret h'
    \<and> seg h' (us @ x # (brk h, v) # vs) NULL
    \<and> hwf h' \<and> brk h' = Suc (brk h) \<and> quota h' = quota h - 1
    \<and> frame {fst x, brk h} h h'"
proof -
  let ?h = "with_new h v NULL" and ?q = "hdp vs NULL" and ?b = "brk h"
  have wf: "hwf h" using assms(2) by (simp add: room_def)
  have fresh: "?b \<notin> addrs (us @ x # vs)" using brk_fresh [OF wf assms(1)] .
  have d: "distinct (map fst (us @ x # vs))" using seg_distinct [OF assms(1)] .
  have c: "cell ?h (fst x) (snd x) ?q" and cb: "cell ?h ?b v NULL"
    using assms wf fresh by auto
  have "cell (with_new h v ?q) (fst x) (snd x) ?q" using assms wf fresh by auto
  note st = cell_load(2) [OF c] cell_load(3) [OF cb, of ?q, unfolded set_next_with_new]
    cell_load(3) [OF this, of "Ptr ?b"]
  let ?h' = "set_next (fst x) (Ptr ?b) (with_new h v ?q)"
  have "link_after ?h (Ptr (fst x)) (Ptr ?b) = ret ?h'" by (simp add: link_after_def st)
  moreover have "seg ?h' (us @ x # (?b, v) # vs) NULL"
    using assms wf fresh d by (auto simp: image_Un)
  ultimately show ?thesis using wf by (auto simp: frame_def cells_with_new)
qed

lemma find_value_seg:
  "seg h (us @ x # vs) q \<Longrightarrow> snd x = w \<Longrightarrow> w \<notin> snd ` set us \<Longrightarrow>
     find_value h (hdp (us @ x # vs) q) w = ret (Ptr (fst x))"
proof (induction us)
  case Nil
  then show ?case by (subst find_value.simps) (auto simp: heap_simps)
next
  case (Cons u us)
  then show ?case by (subst find_value.simps) (auto simp: heap_simps)
qed

lemma find_value_absent:
  "seg h xs NULL \<Longrightarrow> w \<notin> snd ` set xs \<Longrightarrow> find_value h (hdp xs NULL) w = fault NullDeref"
proof (induction xs)
  case Nil
  then show ?case by (subst find_value.simps) simp
next
  case (Cons x xs)
  then show ?case by (subst find_value.simps) (auto simp: heap_simps)
qed

lemma insert_spec:
  assumes "is_list h p (us @ x # vs)" and "room 1 h" and "snd x = w" and "w \<notin> snd ` set us"
  shows "\<exists>h'. insert_c h p w v = ret (h', p) \<and> is_list h' p (us @ x # (brk h, v) # vs)
    \<and> hwf h' \<and> quota h' = quota h - 1 \<and> frame {fst x, brk h} h h'"
proof -
  have seg: "seg h (us @ x # vs) NULL" and p: "p = hdp (us @ x # vs) NULL" and wf: "hwf h"
    using assms by (auto simp: is_list_def room_def)
  have fresh: "brk h \<notin> addrs (us @ x # vs)" using brk_fresh [OF wf seg] .
  have "find_value (with_new h v NULL) p w = ret (Ptr (fst x))"
    using find_value_seg [of "with_new h v NULL" us x vs NULL w]
      seg_with_new [OF wf fresh, of v NULL NULL] seg assms(3,4) p by blast
  with link_after_spec [OF seg assms(2), of v] assms(2) p show ?thesis
    by (auto simp: insert_c_def is_list_def room_def)
qed

lemma insert_absent:
  assumes "is_list h p xs" and "room 1 h" and "w \<notin> snd ` set xs"
  shows "insert_c h p w v = fault NullDeref"
proof -
  have seg: "seg h xs NULL" and p: "p = hdp xs NULL" and wf: "hwf h"
    using assms by (auto simp: is_list_def room_def)
  have "find_value (with_new h v NULL) p w = fault NullDeref"
    using find_value_absent [of "with_new h v NULL" xs w] seg wf brk_fresh [OF wf seg] assms(3) p
    by simp
  then show ?thesis using assms(2) by (simp add: insert_c_def room_def)
qed

lemma search_middle_ptr_spec:
  "is_list h p xs \<Longrightarrow> search_middle_ptr h p = ret (hdp (drop (length xs div 2) xs) NULL)"
  using middle_loop_seg [of h xs xs] by (auto simp: is_list_def search_middle_ptr_def)

lemma walk_to_seg:
  "seg h (us @ vs) NULL \<Longrightarrow> distinct (map fst (us @ vs)) \<Longrightarrow>
     walk_to h (hdp (us @ vs) NULL) (hdp vs NULL) = ret ()"
proof (induction us)
  case Nil
  then show ?case by (subst walk_to.simps) simp
next
  case (Cons u us)
  then have "Ptr (fst u) \<noteq> hdp vs NULL" by (cases vs) auto
  with Cons show ?case by (subst walk_to.simps) (auto simp: heap_simps)
qed

lemma insert_at_middle_spec:
  assumes "is_list h p xs" and "room 1 h" and "xs \<noteq> []"
    and "us = take (length xs div 2) xs" and "x = xs ! (length xs div 2)"
    and "vs = drop (Suc (length xs div 2)) xs"
  shows "\<exists>m h'. search_middle_ptr h p = ret m \<and> insert_at_middle h p m v = ret h'
    \<and> is_list h' p (us @ x # (brk h, v) # vs) \<and> hwf h' \<and> quota h' = quota h - 1
    \<and> frame {fst x, brk h} h h'"
proof -
  let ?k = "length xs div 2"
  have k: "?k < length xs" using assms(3) by simp
  then have xs: "xs = us @ x # vs" and dr: "drop ?k xs = x # vs"
    using assms(4-6) id_take_nth_drop [OF k] by (simp_all add: Cons_nth_drop_Suc)
  have seg: "seg h (us @ x # vs) NULL" and p: "p = hdp xs NULL" and wf: "hwf h"
    using assms(1,2) xs by (auto simp: is_list_def room_def)
  have fresh: "brk h \<notin> addrs (us @ x # vs)" using brk_fresh [OF wf seg] .
  have "walk_to (with_new h v NULL) p (Ptr (fst x)) = ret ()"
    using walk_to_seg [of "with_new h v NULL" us "x # vs"] seg_distinct [OF seg]
      seg_with_new [OF wf fresh, of v NULL NULL] seg p xs by simp
  moreover have "search_middle_ptr h p = ret (Ptr (fst x))"
    using search_middle_ptr_spec [OF assms(1)] dr by simp
  ultimately show ?thesis
    using link_after_spec [OF seg assms(2), of v] assms(2) p xs
    by (auto simp: insert_at_middle_def is_list_def room_def)
qed

section \<open>Properties\<close>

text \<open>
  Inserting after a value puts the new node directly behind its first occurrence and changes
  only that node and the new block; when the value does not occur, the search runs off the list
  and dereferences the null pointer.
\<close>

lemma insert_correct:
  assumes "is_list h p xs" and "room 1 h"
  shows "if w \<in> set (vals xs)
    then \<exists>us x vs h'. xs = us @ x # vs \<and> snd x = w \<and> w \<notin> set (vals us)
      \<and> insert_c h p w v = ret (h', p) \<and> is_list h' p (us @ x # (brk h, v) # vs)
      \<and> frame {fst x, brk h} h h'
    else insert_c h p w v = fault NullDeref"
proof (cases "w \<in> set (vals xs)")
  case True
  then obtain us x vs where xs: "xs = us @ x # vs" "snd x = w" "w \<notin> snd ` set us"
    by (rule first_with)
  then obtain h' where "insert_c h p w v = ret (h', p)" "is_list h' p (us @ x # (brk h, v) # vs)"
    "frame {fst x, brk h} h h'"
    using insert_spec [of h p us x vs w v] assms by blast
  moreover have "w \<notin> set (vals us)" using xs(3) by simp
  ultimately show ?thesis unfolding if_P [OF True] using xs(1,2) by blast
next
  case False
  with insert_absent [OF assms] show ?thesis by simp
qed

lemma insert_correct_witness:
  "\<exists>h'. insert_c (heap_of 1 [(8, 3), (40, 5)]) (Ptr 8) 3 4 = ret (h', Ptr 8)"
  using insert_correct [of "heap_of 1 [(8, 3), (40, 5)]" "Ptr 8" "[(8, 3), (40, 5)]" 3 4]
    heap_of_list [of "[(8, 3), (40, 5)]" 1] by (auto simp: room_def)

text \<open>
  Inserting at the middle: the two-pointer search returns the node at half of the length, and the
  new node becomes its successor.
\<close>

lemma insert_at_middle_correct:
  assumes "is_list h p xs" and "room 1 h" and "xs \<noteq> []"
  shows "\<exists>m h' ys. search_middle_ptr h p = ret m \<and> insert_at_middle h p m v = ret h'
    \<and> is_list h' p ys
    \<and> vals ys = take (Suc (length xs div 2)) (vals xs) @ v # drop (Suc (length xs div 2)) (vals xs)"
proof -
  let ?k = "length xs div 2"
  have "?k < length xs" using assms(3) by simp
  then have "take (Suc ?k) xs = take ?k xs @ [xs ! ?k]" by (rule take_Suc_conv_app_nth)
  then have "vals (take ?k xs @ xs ! ?k # (brk h, v) # drop (Suc ?k) xs) =
      take (Suc ?k) (vals xs) @ v # drop (Suc ?k) (vals xs)"
    by (simp add: take_map drop_map)
  then show ?thesis using insert_at_middle_spec [OF assms refl refl refl, of v] by blast
qed


end
