(* ===== verification/List_Delete.thy ===== *)
theory List_Delete
  imports List_Insert
begin

text \<open>
  The deleting programs under \<^verbatim>\<open>src/linked_list/single_linked_list/delete\<close> that work on the list
  alone: by value, by position, every other node, the middle node, duplicates of a sorted list.
\<close>

section \<open>delete\_by\_value\<close>

text \<open>
  \<^verbatim>\<open>while (current!=NULL && current->value != delete_value)\<close>
  \<^verbatim>\<open>{ prev = current; current = current->next; }\<close>; \<^verbatim>\<open>prev\<close> starts uninitialised.
\<close>

partial_function (option) delete_value_loop ::
    "heap \<Rightarrow> ptr option \<Rightarrow> ptr \<Rightarrow> int \<Rightarrow> (ptr option \<times> ptr) cres" where
  "delete_value_loop h prev current delete_value =
     (if current = NULL then ret (prev, current)
      else bnd (load_value h current) (\<lambda>v.
        if v = delete_value then ret (prev, current)
        else bnd (load_next h current) (\<lambda>n. delete_value_loop h (Some current) n delete_value)))"

definition delete_by_value :: "heap \<Rightarrow> ptr \<Rightarrow> int \<Rightarrow> (heap \<times> ptr \<times> out list) cres" where
  "delete_by_value h head delete_value =
     bnd (load_value h head) (\<lambda>v.
       if v = delete_value
       then bnd (pop_head h head) (\<lambda>(h, head). ret (h, head, []))
       else bnd (delete_value_loop h None head delete_value) (\<lambda>(prev, current).
         if current = NULL
         then ret (h, head, [OStr ''Can not find key '', OInt delete_value, newline])
         else bnd (need Uninit prev) (\<lambda>prev.
              bnd (unlink h prev current) (\<lambda>h. ret (h, head, [])))))"

definition delete_by_value_main :: "heap \<Rightarrow> int option \<Rightarrow> out list cres" where
  "delete_by_value_main h inp =
     bnd (for_up 0 10 (\<lambda>i (h, head). append_c h head i) (h, NULL)) (\<lambda>(h, head).
     bnd (print_list h head) (\<lambda>os1.
     bnd (delete_by_value h head (scan_int 0 inp)) (\<lambda>(h, head, os2).
     bnd (print_list h head) (\<lambda>os3.
       ret ([OStr ''Current list is :'', newline] @ os1 @
            [OStr ''Please enter a key to delete:'', newline] @ os2 @
            [newline, OStr ''After delete:'', newline] @ os3)))))"

section \<open>delete\_by\_position\<close>

text \<open>
  \<^verbatim>\<open>while (current != NULL && delete_position--)\<close>: the counter is decremented each time it is
  tested, also when the test fails.
\<close>

partial_function (option) delete_position_loop ::
    "heap \<Rightarrow> ptr option \<Rightarrow> ptr \<Rightarrow> int \<Rightarrow> (ptr option \<times> ptr) cres" where
  "delete_position_loop h prev current delete_position =
     (if current = NULL then ret (prev, current)
      else bnd (ck (delete_position - 1)) (\<lambda>pos.
        if delete_position = 0 then ret (prev, current)
        else bnd (load_next h current) (\<lambda>n. delete_position_loop h (Some current) n pos)))"

definition delete_by_position :: "heap \<Rightarrow> ptr \<Rightarrow> int \<Rightarrow> (heap \<times> ptr \<times> out list) cres" where
  "delete_by_position h head delete_position =
     (if head = NULL then ret (h, head, [OStr ''There is no node...'', newline])
      else if delete_position = 0
      then bnd (pop_head h head) (\<lambda>(h, head). ret (h, head, []))
      else bnd (delete_position_loop h None head delete_position) (\<lambda>(prev, current).
        if current = NULL then ret (h, head, [OStr ''Can not find position'', newline])
        else bnd (need Uninit prev) (\<lambda>prev.
             bnd (unlink h prev current) (\<lambda>h. ret (h, head, [])))))"

text \<open>
  One round of the endless \<^verbatim>\<open>while (1)\<close> of \<^verbatim>\<open>main\<close>, and the rounds that a list of inputs
  drives; \<^verbatim>\<open>position\<close> keeps its last value when a line does not parse.
\<close>

definition delete_position_round :: "int option \<Rightarrow> heap \<times> ptr \<times> int \<times> out list
    \<Rightarrow> (heap \<times> ptr \<times> int \<times> out list) cres" where
  "delete_position_round inp = (\<lambda>(h, head, position, os).
     let position = scan_int position inp in
     bnd (delete_by_position h head position) (\<lambda>(h, head, os1).
     bnd (print_list_pos h head) (\<lambda>os2.
       ret (h, head, position,
            os @ [OStr ''Please enter a position to delete:'', newline] @ os1 @
            [newline, OStr ''After delete:'', newline] @ os2))))"

definition delete_by_position_main :: "heap \<Rightarrow> int option list \<Rightarrow> (heap \<times> ptr \<times> int \<times> out list) cres" where
  "delete_by_position_main h inputs =
     bnd (for_up 10 15 (\<lambda>i (h, head). append_c h head i) (h, NULL)) (\<lambda>(h, head).
     bnd (print_list_pos h head) (\<lambda>os.
       for_each delete_position_round inputs
         (h, head, 0, [OStr ''Current list is :'', newline] @ os)))"

section \<open>delete\_alternate\<close>

partial_function (option) alternate_loop :: "heap \<Rightarrow> ptr \<Rightarrow> ptr \<Rightarrow> heap cres" where
  "alternate_loop h prev current =
     (if prev = NULL then ret h
      else bnd (load_next h current) (\<lambda>n.
        if n = NULL then ret h
        else bnd (load_next h n) (\<lambda>nn.
             bnd (store_next h prev nn) (\<lambda>h.
             bnd (load_next h n) (\<lambda>current.
             bnd (free n h) (\<lambda>h. alternate_loop h current current))))))"

text \<open>The initialiser \<^verbatim>\<open>delete_node = (*head_ref)->next\<close> runs before the test for \<open>NULL\<close>.\<close>

definition delete_alternate :: "heap \<Rightarrow> ptr \<Rightarrow> (heap \<times> out list) cres" where
  "delete_alternate h head =
     bnd (load_next h head) (\<lambda>_.
       if head = NULL then ret (h, [OStr ''There is no node...'', newline])
       else bnd (load_next h head) (\<lambda>n.
         if n = NULL then ret (h, [OStr ''There is only one node...''])
         else bnd (alternate_loop h head head) (\<lambda>h. ret (h, []))))"

definition delete_alternate_main :: "heap \<Rightarrow> out list cres" where
  "delete_alternate_main h =
     bnd (for_up 1 16 (\<lambda>i (h, head). append_c h head i) (h, NULL)) (\<lambda>(h, head).
     bnd (print_list_pos h head) (\<lambda>os1.
     bnd (delete_alternate h head) (\<lambda>(h, os2).
     bnd (print_list_pos h head) (\<lambda>os3.
       ret ([OStr ''Current list is :'', newline] @ os1 @ os2 @
            [newline, OStr ''After delete alternate:'', newline] @ os3)))))"

section \<open>delete\_middle\<close>

text \<open>\<^verbatim>\<open>while (current->next != midd) current = current->next;\<close>\<close>

partial_function (option) find_before :: "heap \<Rightarrow> ptr \<Rightarrow> ptr \<Rightarrow> ptr cres" where
  "find_before h current midd =
     bnd (load_next h current) (\<lambda>n. if n = midd then ret current else find_before h n midd)"

definition delete_middle :: "heap \<Rightarrow> ptr \<Rightarrow> ptr \<Rightarrow> heap cres" where
  "delete_middle h head mid = bnd (find_before h head mid) (\<lambda>current. unlink h current mid)"

definition delete_middle_main :: "heap \<Rightarrow> out list cres" where
  "delete_middle_main h =
     bnd (for_up 1 7 (\<lambda>i (h, head). append_c h head i) (h, NULL)) (\<lambda>(h, head).
     bnd (print_list_pos h head) (\<lambda>os1.
     bnd (search_middle_ptr h head) (\<lambda>middle.
     bnd (print_middle_node h middle) (\<lambda>os2.
     bnd (delete_middle h head middle) (\<lambda>h.
     bnd (print_list_pos h head) (\<lambda>os3. ret (os1 @ os2 @ os3)))))))"

section \<open>delete\_duplicate in a sorted list\<close>

partial_function (option) dedup_loop :: "heap \<Rightarrow> ptr \<Rightarrow> heap cres" where
  "dedup_loop h current =
     bnd (load_next h current) (\<lambda>n.
       if n = NULL then ret h
       else bnd (load_value h current) (\<lambda>v.
            bnd (load_value h n) (\<lambda>w.
              if v = w then bnd (unlink h current n) (\<lambda>h. dedup_loop h current)
              else dedup_loop h n)))"

definition delete_duplicate :: "heap \<Rightarrow> ptr \<Rightarrow> heap cres" where
  "delete_duplicate h head = dedup_loop h head"

definition delete_duplicate_main :: "heap \<Rightarrow> out list cres" where
  "delete_duplicate_main h =
     bnd (for_each (\<lambda>v (h, head). append_c h head v) [5, 5, 5] (h, NULL)) (\<lambda>s.
     bnd (for_up 5 10 (\<lambda>i (h, head). append_c h head i) s) (\<lambda>s.
     bnd (for_each (\<lambda>v (h, head). append_c h head v) [10, 10, 10, 11, 12, 13, 13] s) (\<lambda>(h, head).
     bnd (print_list h head) (\<lambda>os1.
     bnd (delete_duplicate h head) (\<lambda>h.
     bnd (print_list h head) (\<lambda>os2.
       ret ([OStr ''Current sorted list is :'', newline] @ os1 @
            [newline, OStr ''After delete duplicate:'', newline] @ os2)))))))"

section \<open>Results: by value\<close>

lemma delete_value_loop_seg:
  "seg h (us @ x # vs) NULL \<Longrightarrow> snd x = w \<Longrightarrow> w \<notin> snd ` set us \<Longrightarrow>
     delete_value_loop h pr (hdp (us @ x # vs) NULL) w =
       ret (if us = [] then pr else Some (Ptr (fst (last us))), Ptr (fst x))"
proof (induction us arbitrary: pr)
  case Nil
  then show ?case by (subst delete_value_loop.simps) (auto simp: heap_simps)
next
  case (Cons u us)
  then show ?case by (subst delete_value_loop.simps) (auto simp: heap_simps)
qed

lemma delete_value_loop_absent:
  "seg h xs NULL \<Longrightarrow> w \<notin> snd ` set xs \<Longrightarrow>
     \<exists>pr'. delete_value_loop h pr (hdp xs NULL) w = ret (pr', NULL)"
proof (induction xs arbitrary: pr)
  case Nil
  then show ?case by (subst delete_value_loop.simps) simp
next
  case (Cons x xs)
  then show ?case by (subst delete_value_loop.simps) (auto simp: heap_simps)
qed

text \<open>Removing the first node with the value: the chain, the message, the freed block.\<close>

lemma delete_by_value_found:
  assumes "is_list h p (us @ x # vs)" and "snd x = w" and "w \<notin> snd ` set us"
  shows "\<exists>h' p'. delete_by_value h p w = ret (h', p', []) \<and> is_list h' p' (us @ vs)
    \<and> cells h' (fst x) = None \<and> evolves (addrs (us @ [x])) h h'"
proof (cases us rule: rev_cases)
  case Nil
  with assms pop_head_spec [of h p x vs] show ?thesis
    by (auto simp: delete_by_value_def is_list_def heap_simps)
next
  case (snoc ts t)
  have seg: "seg h (us @ x # vs) NULL" and p: "p = hdp (us @ x # vs) NULL"
    using assms(1) by (auto simp: is_list_def)
  have "\<exists>v. load_value h p = ret v \<and> v \<noteq> w"
    using seg p assms(3) snoc by (cases ts) (auto simp: heap_simps)
  moreover have "delete_value_loop h None p w = ret (Some (Ptr (fst t)), Ptr (fst x))"
    using delete_value_loop_seg [OF seg assms(2,3), of None] p snoc by simp
  moreover obtain h' where "unlink h (Ptr (fst t)) (Ptr (fst x)) = ret h'"
    "seg h' (ts @ t # vs) NULL" "cells h' (fst x) = None" "evolves {fst t, fst x} h h'"
    using unlink_spec [of h ts t x vs] seg snoc by auto
  moreover have "evolves (addrs (us @ [x])) h h'"
    by (rule evolves_mono [OF calculation(6)]) (simp add: snoc)
  ultimately show ?thesis
    using p snoc by (auto simp: delete_by_value_def is_list_def)
qed

lemma delete_by_value_absent:
  assumes "is_list h p xs" and "xs \<noteq> []" and "w \<notin> snd ` set xs"
  shows "delete_by_value h p w = ret (h, p, [OStr ''Can not find key '', OInt w, newline])"
proof -
  have seg: "seg h xs NULL" and p: "p = hdp xs NULL" using assms(1) by (auto simp: is_list_def)
  have "\<exists>v. load_value h p = ret v \<and> v \<noteq> w"
    using seg p assms(2,3) by (cases xs) (auto simp: heap_simps)
  with delete_value_loop_absent [OF seg assms(3), of None] p show ?thesis
    by (auto simp: delete_by_value_def)
qed

section \<open>Results: by position\<close>

lemma delete_position_loop_seg:
  "seg h (us @ x # vs) NULL \<Longrightarrow> int (length us) \<le> INT_MAX \<Longrightarrow>
     delete_position_loop h pr (hdp (us @ x # vs) NULL) (int (length us)) =
       ret (if us = [] then pr else Some (Ptr (fst (last us))), Ptr (fst x))"
proof (induction us arbitrary: pr)
  case Nil
  then show ?case
    by (subst delete_position_loop.simps) (auto simp: heap_simps in_int_def INT_MIN_def INT_MAX_def)
next
  case (Cons u us)
  then show ?case
    by (subst delete_position_loop.simps) (auto simp: heap_simps in_int_def INT_MIN_def)
qed

lemma delete_position_loop_off:
  "seg h xs NULL \<Longrightarrow> int (length xs) \<le> k \<or> k < 0 \<Longrightarrow> in_int k \<Longrightarrow> in_int (k - int (length xs)) \<Longrightarrow>
     \<exists>pr'. delete_position_loop h pr (hdp xs NULL) k = ret (pr', NULL)"
proof (induction xs arbitrary: pr k)
  case Nil
  then show ?case by (subst delete_position_loop.simps) simp
next
  case (Cons x xs)
  then have k: "in_int (k - 1)" "k \<noteq> 0" "k - 1 - int (length xs) = k - int (length (x # xs))"
    by (auto simp: in_int_def)
  have "\<exists>pr'. delete_position_loop h (Some (Ptr (fst x))) (hdp xs NULL) (k - 1) = ret (pr', NULL)"
    using Cons.IH [of "k - 1" "Some (Ptr (fst x))"] Cons.prems k by auto
  with Cons.prems k show ?case
    by (subst delete_position_loop.simps) (auto simp: heap_simps)
qed

lemma delete_by_position_found:
  assumes "is_list h p (us @ x # vs)" and "int (length us) \<le> INT_MAX"
  shows "\<exists>h' p'. delete_by_position h p (int (length us)) = ret (h', p', [])
    \<and> is_list h' p' (us @ vs) \<and> cells h' (fst x) = None \<and> evolves (addrs (us @ [x])) h h'"
proof (cases us rule: rev_cases)
  case Nil
  with assms pop_head_spec [of h p x vs] show ?thesis
    by (auto simp: delete_by_position_def is_list_def)
next
  case (snoc ts t)
  have seg: "seg h (us @ x # vs) NULL" and p: "p = hdp (us @ x # vs) NULL"
    using assms(1) by (auto simp: is_list_def)
  have "delete_position_loop h None p (int (length us)) = ret (Some (Ptr (fst t)), Ptr (fst x))"
    using delete_position_loop_seg [OF seg assms(2), of None] p snoc by simp
  moreover obtain h' where "unlink h (Ptr (fst t)) (Ptr (fst x)) = ret h'"
    "seg h' (ts @ t # vs) NULL" "cells h' (fst x) = None" "evolves {fst t, fst x} h h'"
    using unlink_spec [of h ts t x vs] seg snoc by auto
  moreover have "evolves (addrs (us @ [x])) h h'"
    by (rule evolves_mono [OF calculation(5)]) (simp add: snoc)
  ultimately show ?thesis
    using p snoc by (auto simp: delete_by_position_def is_list_def)
qed

lemma delete_by_position_off:
  assumes "is_list h p xs" and "xs \<noteq> []" and "int (length xs) \<le> k \<or> k < 0"
    and "in_int k" and "in_int (k - int (length xs))"
  shows "delete_by_position h p k = ret (h, p, [OStr ''Can not find position'', newline])"
proof -
  have seg: "seg h xs NULL" and p: "p = hdp xs NULL" using assms(1) by (auto simp: is_list_def)
  have "p \<noteq> NULL" "k \<noteq> 0" using p assms(2,3) by auto
  with delete_position_loop_off [OF seg assms(3-5), of None] p show ?thesis
    by (auto simp: delete_by_position_def)
qed

section \<open>Results: every other node\<close>

fun alternates :: "'a list \<Rightarrow> 'a list" where
  "alternates [] = []"
| "alternates [x] = [x]"
| "alternates (x # y # xs) = x # alternates xs"

lemma map_alternates: "map f (alternates xs) = alternates (map f xs)"
  by (induction xs rule: alternates.induct) auto

lemma nth_alternates: "2 * i < length xs \<Longrightarrow> alternates xs ! i = xs ! (2 * i)"
  by (induction xs arbitrary: i rule: alternates.induct) (auto simp: nth_Cons split: nat.splits)

lemma length_alternates: "length (alternates xs) = (length xs + 1) div 2"
  by (induction xs rule: alternates.induct) auto

lemma set_alternates: "set (alternates xs) \<subseteq> set xs"
  by (induction xs rule: alternates.induct) auto

lemma hdp_alternates [simp]: "hdp (alternates xs) q = hdp xs q"
  by (cases xs rule: alternates.cases) auto

lemma alternate_loop_seg:
  "seg h xs NULL \<Longrightarrow> \<exists>h'. alternate_loop h (hdp xs NULL) (hdp xs NULL) = ret h'
     \<and> seg h' (alternates xs) NULL \<and> evolves (addrs xs) h h'
     \<and> (\<forall>a \<in> addrs xs - addrs (alternates xs). cells h' a = None)"
proof (induction xs arbitrary: h rule: alternates.induct)
  case 1
  then show ?case by (subst alternate_loop.simps) simp
next
  case (2 x)
  then show ?case by (subst alternate_loop.simps) (auto simp: heap_simps)
next
  case (3 x y xs)
  let ?h1 = "set_next (fst x) (hdp xs NULL) h"
  let ?h2 = "drop_cell (fst y) ?h1"
  have d: "fst x \<noteq> fst y" "fst x \<notin> addrs xs" "fst y \<notin> addrs xs"
    using seg_distinct [OF "3.prems"] by auto
  have c: "cell h (fst x) (snd x) (Ptr (fst y))" "cell h (fst y) (snd y) (hdp xs NULL)"
    and seg: "seg h xs NULL" using "3.prems" by auto
  have cy: "cell ?h1 (fst y) (snd y) (hdp xs NULL)" using c d by auto
  have "seg ?h2 xs NULL" using seg d by simp
  from "3.IH" [OF this] obtain h' where IH:
    "alternate_loop ?h2 (hdp xs NULL) (hdp xs NULL) = ret h'" "seg h' (alternates xs) NULL"
    "evolves (addrs xs) ?h2 h'" "\<forall>a \<in> addrs xs - addrs (alternates xs). cells h' a = None" by blast
  have "cells h' (fst y) = None" using IH(3) d(3) by (auto simp: evolves_def frame_def)
  with IH(4) have "\<forall>a \<in> addrs (x # y # xs) - addrs (alternates (x # y # xs)). cells h' a = None"
    by (intro ballI) (simp; elim conjE disjE; simp)
  moreover have "cell h' (fst x) (snd x) (hdp xs NULL)"
    using evolves_cell [OF IH(3), of "fst x"] c d by auto
  moreover have "evolves {fst x, fst y} h ?h2"
    by (rule evolves_trans [of "{fst x}" _ ?h1 "{fst y}"]) auto
  then have "evolves (addrs (x # y # xs)) h h'"
    by (rule evolves_trans [OF _ IH(3)]) auto
  moreover have "alternate_loop h (Ptr (fst x)) (Ptr (fst x)) = ret h'"
    using cell_load [OF c(1)] cell_load [OF c(2)] cell_load [OF cy] IH(1)
    by (subst alternate_loop.simps) simp
  ultimately show ?case using IH(2) by auto
qed

lemma delete_alternate_spec:
  assumes "is_list h p xs" and "xs \<noteq> []"
  shows "\<exists>h' os. delete_alternate h p = ret (h', os) \<and> is_list h' p (alternates xs)
    \<and> evolves (addrs xs) h h' \<and> (\<forall>a \<in> addrs xs - addrs (alternates xs). cells h' a = None)"
proof -
  obtain x ys where xs: "xs = x # ys" using assms(2) by (cases xs) auto
  have seg: "seg h xs NULL" and p: "p = hdp xs NULL" using assms(1) by (auto simp: is_list_def)
  with xs have "load_next h p = ret (hdp ys NULL)" "p \<noteq> NULL" by (auto simp: heap_simps)
  then show ?thesis
    using alternate_loop_seg [OF seg] p xs seg
    by (cases "ys = []") (auto simp: delete_alternate_def is_list_def)
qed

section \<open>Results: the middle node\<close>

lemma find_before_seg:
  "seg h (us @ x # y # vs) NULL \<Longrightarrow> distinct (map fst (us @ x # y # vs)) \<Longrightarrow>
     find_before h (hdp (us @ x # y # vs) NULL) (Ptr (fst y)) = ret (Ptr (fst x))"
proof (induction us)
  case Nil
  then show ?case by (subst find_before.simps) (auto simp: heap_simps)
next
  case (Cons u us)
  then have "hdp (us @ x # y # vs) NULL \<noteq> Ptr (fst y)" by (cases us) auto
  with Cons show ?case by (subst find_before.simps) (auto simp: heap_simps)
qed

lemma find_before_off:
  "seg h xs NULL \<Longrightarrow> a \<notin> addrs (tl xs) \<Longrightarrow> find_before h (hdp xs NULL) (Ptr a) = fault NullDeref"
proof (induction xs)
  case Nil
  then show ?case by (subst find_before.simps) simp
next
  case (Cons x xs)
  then have "hdp xs NULL \<noteq> Ptr a" "a \<notin> addrs (tl xs)" by (cases xs; auto)+
  with Cons show ?case by (subst find_before.simps) (auto simp: heap_simps)
qed

lemma delete_middle_spec:
  assumes "is_list h p xs" and "2 \<le> length xs"
  shows "\<exists>m h'. search_middle_ptr h p = ret m \<and> delete_middle h p m = ret h'
    \<and> is_list h' p (take (length xs div 2) xs @ drop (Suc (length xs div 2)) xs)
    \<and> cells h' (fst (xs ! (length xs div 2))) = None \<and> evolves (addrs xs) h h'"
proof -
  let ?k = "length xs div 2"
  have k: "?k < length xs" "0 < ?k" using assms(2) by auto
  define y vs where "y = xs ! ?k" and "vs = drop (Suc ?k) xs"
  have xs: "xs = take ?k xs @ y # vs" unfolding y_def vs_def by (rule id_take_nth_drop [OF k(1)])
  obtain us x where us: "take ?k xs = us @ [x]" using k by (cases "take ?k xs" rule: rev_cases) auto
  have seg: "seg h (us @ x # y # vs) NULL" and p: "p = hdp (us @ x # y # vs) NULL"
    using assms(1) xs us by (metis append.assoc append_Cons append_Nil is_list_def)+
  have "search_middle_ptr h p = ret (Ptr (fst y))"
    using search_middle_ptr_spec [OF assms(1)] Cons_nth_drop_Suc [OF k(1)] unfolding y_def
    by (metis hdp.simps(2))
  moreover have "find_before h p (Ptr (fst y)) = ret (Ptr (fst x))"
    using find_before_seg [OF seg seg_distinct [OF seg]] p by simp
  moreover obtain h' where h': "unlink h (Ptr (fst x)) (Ptr (fst y)) = ret h'"
    "seg h' (us @ x # vs) NULL" "cells h' (fst y) = None" "evolves {fst x, fst y} h h'"
    using unlink_spec [OF seg] by blast
  moreover have "{fst x, fst y} \<subseteq> addrs xs" by (subst xs) (simp add: us)
  ultimately have "search_middle_ptr h p = ret (Ptr (fst y))"
    "delete_middle h p (Ptr (fst y)) = ret h'" "is_list h' p (take ?k xs @ vs)"
    "evolves (addrs xs) h h'"
    using p us by (auto simp: delete_middle_def is_list_def intro: evolves_mono)
  with h'(3) show ?thesis unfolding y_def vs_def by blast
qed

text \<open>A list of one node: the node before the head does not exist.\<close>

lemma delete_middle_single:
  assumes "is_list h p [x]"
  shows "\<exists>m. search_middle_ptr h p = ret m \<and> delete_middle h p m = fault NullDeref"
proof -
  have "search_middle_ptr h p = ret (Ptr (fst x))" using search_middle_ptr_spec [OF assms] by simp
  moreover have "find_before h p (Ptr (fst x)) = fault NullDeref"
    using find_before_off [of h "[x]" "fst x"] assms by (simp add: is_list_def)
  ultimately show ?thesis by (simp add: delete_middle_def)
qed

section \<open>Results: duplicates of a sorted list\<close>

fun dedup_adj :: "chain \<Rightarrow> chain" where
  "dedup_adj [] = []"
| "dedup_adj [x] = [x]"
| "dedup_adj (x # y # xs) =
     (if snd x = snd y then dedup_adj (x # xs) else x # dedup_adj (y # xs))"

lemma vals_dedup_adj: "vals (dedup_adj xs) = remdups_adj (vals xs)"
  by (induction xs rule: dedup_adj.induct) auto

lemma hdp_dedup_adj [simp]: "hdp (dedup_adj (x # xs)) q = Ptr (fst x)"
  by (induction "x # xs" arbitrary: xs rule: dedup_adj.induct) auto

lemma set_dedup_adj: "set (dedup_adj xs) \<subseteq> set xs"
  by (induction xs rule: dedup_adj.induct) auto

lemma remdups_adj_sorted_distinct: "sorted (xs :: int list) \<Longrightarrow> distinct (remdups_adj xs)"
  by (induction xs rule: remdups_adj.induct) auto

lemma dedup_loop_seg:
  "seg h (x # xs) NULL \<Longrightarrow> \<exists>h'. dedup_loop h (Ptr (fst x)) = ret h'
     \<and> seg h' (dedup_adj (x # xs)) NULL \<and> evolves (addrs (x # xs)) h h'
     \<and> (\<forall>a \<in> addrs (x # xs) - addrs (dedup_adj (x # xs)). cells h' a = None)"
proof (induction xs arbitrary: x h)
  case Nil
  then show ?case by (subst dedup_loop.simps) (auto simp: heap_simps)
next
  case (Cons y xs)
  have c: "cell h (fst x) (snd x) (Ptr (fst y))" "cell h (fst y) (snd y) (hdp xs NULL)"
    and d: "fst x \<notin> addrs (y # xs)"
    using Cons.prems seg_distinct [OF Cons.prems] by auto
  show ?case
  proof (cases "snd x = snd y")
    case True
    obtain h1 where h1: "unlink h (Ptr (fst x)) (Ptr (fst y)) = ret h1" "seg h1 (x # xs) NULL"
      "evolves {fst x, fst y} h h1" "cells h1 (fst y) = None" using unlink_spec [of h "[]" x y xs] Cons.prems by auto
    from Cons.IH [OF h1(2)] obtain h' where h': "dedup_loop h1 (Ptr (fst x)) = ret h'"
      "seg h' (dedup_adj (x # xs)) NULL" "evolves (addrs (x # xs)) h1 h'"
      "\<forall>a \<in> addrs (x # xs) - addrs (dedup_adj (x # xs)). cells h' a = None" by blast
    have "cells h' (fst y) = None" using h'(3) h1(4) by (auto simp: evolves_def)
    with h'(4) True have
      "\<forall>a \<in> addrs (x # y # xs) - addrs (dedup_adj (x # y # xs)). cells h' a = None"
      by (intro ballI) (simp; elim conjE disjE; simp)
    moreover
    have "evolves (addrs (x # y # xs)) h h'" by (rule evolves_trans [OF h1(3) h'(3)]) auto
    moreover have "dedup_loop h (Ptr (fst x)) = ret h'"
      using cell_load [OF c(1)] cell_load [OF c(2)] h1(1) h'(1) True
      by (subst dedup_loop.simps) simp
    ultimately show ?thesis using h'(2) True by auto
  next
    case False
    have "seg h (y # xs) NULL" using Cons.prems by simp
    from Cons.IH [OF this] obtain h' where h': "dedup_loop h (Ptr (fst y)) = ret h'"
      "seg h' (dedup_adj (y # xs)) NULL" "evolves (addrs (y # xs)) h h'"
      "\<forall>a \<in> addrs (y # xs) - addrs (dedup_adj (y # xs)). cells h' a = None" by blast
    have "\<forall>a \<in> addrs (x # y # xs) - addrs (dedup_adj (x # y # xs)). cells h' a = None"
      using h'(4) False by (intro ballI) (simp; elim conjE disjE; simp)
    moreover have "cell h' (fst x) (snd x) (Ptr (fst y))" using evolves_cell [OF h'(3) d] c(1) by simp
    moreover have "evolves (addrs (x # y # xs)) h h'" by (rule evolves_mono [OF h'(3)]) auto
    moreover have "dedup_loop h (Ptr (fst x)) = ret h'"
      using cell_load [OF c(1)] cell_load [OF c(2)] h'(1) False
      by (subst dedup_loop.simps) simp
    ultimately show ?thesis using h'(2) False by auto
  qed
qed

lemma delete_duplicate_spec:
  assumes "is_list h p xs" and "xs \<noteq> []"
  shows "\<exists>h'. delete_duplicate h p = ret h' \<and> is_list h' p (dedup_adj xs) \<and> evolves (addrs xs) h h'
    \<and> (\<forall>a \<in> addrs xs - addrs (dedup_adj xs). cells h' a = None)"
proof -
  obtain x ys where xs: "xs = x # ys" using assms(2) by (cases xs) auto
  with assms(1) dedup_loop_seg [of h x ys] show ?thesis
    by (auto simp: delete_duplicate_def is_list_def)
qed

section \<open>Properties\<close>

text \<open>
  Deleting a value removes its first occurrence, frees exactly that node and keeps the others in
  order; a value that does not occur leaves heap and list as they are and prints a message; on the
  empty list the function dereferences the null pointer.
\<close>

lemma delete_by_value_correct:
  assumes "is_list h p xs" and "xs \<noteq> []"
  shows "if w \<in> set (vals xs)
    then \<exists>h' p' ys. delete_by_value h p w = ret (h', p', []) \<and> is_list h' p' ys
      \<and> vals ys = remove1 w (vals xs) \<and> addrs ys \<subseteq> addrs xs
      \<and> (\<forall>a \<in> addrs xs - addrs ys. cells h' a = None) \<and> evolves (addrs xs) h h'
    else delete_by_value h p w = ret (h, p, [OStr ''Can not find key '', OInt w, newline])"
proof (cases "w \<in> set (vals xs)")
  case True
  then obtain us x vs where xs: "xs = us @ x # vs" "snd x = w" and nin: "w \<notin> snd ` set us"
    by (rule first_with)
  obtain h' p' where h': "delete_by_value h p w = ret (h', p', [])" "is_list h' p' (us @ vs)"
    "cells h' (fst x) = None" "evolves (addrs (us @ [x])) h h'"
    using delete_by_value_found [of h p us x vs w] assms(1) xs(1,2) nin by blast
  have "vals (us @ vs) = remove1 w (vals xs)" using xs nin by (simp add: remove1_append)
  moreover have "evolves (addrs xs) h h'" by (rule evolves_mono [OF h'(4)]) (auto simp: xs(1))
  moreover have "\<forall>a \<in> addrs xs - addrs (us @ vs). cells h' a = None" using xs(1) h'(3) by auto
  moreover have "addrs (us @ vs) \<subseteq> addrs xs" using xs(1) by auto
  ultimately show ?thesis unfolding if_P [OF True] using h'(1,2) by blast
next
  case False
  then show ?thesis using delete_by_value_absent [OF assms] by simp
qed

lemma delete_by_value_correct_witness:
  "\<exists>h' p' ys. delete_by_value (heap_of 0 [(8, 3), (40, 5), (48, 3)]) (Ptr 8) 3 = ret (h', p', [])
     \<and> is_list h' p' ys \<and> vals ys = [5, 3]"
proof -
  let ?xs = "[(8, 3), (40, 5), (48, 3)] :: chain"
  have "is_list (heap_of 0 ?xs) (Ptr 8) ?xs" "?xs \<noteq> []" using heap_of_list [of ?xs 0] by simp_all
  moreover have "(3 :: int) \<in> set (vals ?xs)" by simp
  ultimately obtain h' p' ys where "delete_by_value (heap_of 0 ?xs) (Ptr 8) 3 = ret (h', p', [])"
    "is_list h' p' ys" "vals ys = remove1 3 (vals ?xs)"
    using delete_by_value_correct [of "heap_of 0 ?xs" "Ptr 8" ?xs 3] by (metis (no_types))
  moreover have "remove1 3 (vals ?xs) = [5, 3]" by simp
  ultimately show ?thesis by metis
qed

text \<open>
  Deleting by position removes and frees the node at that position; a position outside the list
  is answered with a message and nothing changes.
\<close>

lemma delete_by_position_correct:
  assumes "is_list h p xs" and "xs \<noteq> []" and "int (length xs) \<le> INT_MAX" and "in_int k"
    and "in_int (k - int (length xs))"
  shows "if 0 \<le> k \<and> k < int (length xs)
    then \<exists>h' p'. delete_by_position h p k = ret (h', p', [])
      \<and> is_list h' p' (take (nat k) xs @ drop (Suc (nat k)) xs)
      \<and> cells h' (fst (xs ! nat k)) = None \<and> evolves (addrs xs) h h'
    else delete_by_position h p k = ret (h, p, [OStr ''Can not find position'', newline])"
proof (cases "0 \<le> k \<and> k < int (length xs)")
  case True
  define us x vs where "us = take (nat k) xs" and "x = xs ! nat k" and "vs = drop (Suc (nat k)) xs"
  have k: "nat k < length xs" using True by auto
  then have xs: "xs = us @ x # vs" unfolding us_def x_def vs_def by (rule id_take_nth_drop)
  have len: "int (length us) = k" using True k by (simp add: us_def)
  then obtain h' p' where h': "delete_by_position h p k = ret (h', p', [])" "is_list h' p' (us @ vs)"
    "cells h' (fst x) = None" "evolves (addrs (us @ [x])) h h'"
    using delete_by_position_found [of h p us x vs] assms(1,3) xs True by auto
  have "evolves (addrs xs) h h'" by (rule evolves_mono [OF h'(4)]) (subst xs, auto)
  with h' True show ?thesis unfolding us_def x_def vs_def by auto
next
  case False
  then show ?thesis using delete_by_position_off [OF assms(1,2) _ assms(4,5)] by auto
qed

lemma delete_by_position_correct_witness:
  "\<exists>h' p'. delete_by_position (heap_of 0 [(8, 3), (40, 5)]) (Ptr 8) 1 = ret (h', p', [])
     \<and> is_list h' p' [(8, 3)]"
  using delete_by_position_correct [of "heap_of 0 [(8, 3), (40, 5)]" "Ptr 8" "[(8, 3), (40, 5)]" 1]
    heap_of_list [of "[(8, 3), (40, 5)]" 0] by (auto simp: int_range_defs)

text \<open>
  Deleting alternate nodes keeps the nodes at even positions, in order, and returns for every
  list that is not empty.
\<close>

lemma delete_alternate_correct:
  assumes "is_list h p xs" and "xs \<noteq> []"
  shows "\<exists>h' os ys. delete_alternate h p = ret (h', os) \<and> is_list h' p ys \<and> evolves (addrs xs) h h'
    \<and> length ys = (length xs + 1) div 2 \<and> (\<forall>i < length ys. ys ! i = xs ! (2 * i))"
proof -
  obtain h' os where "delete_alternate h p = ret (h', os)" "is_list h' p (alternates xs)"
    "evolves (addrs xs) h h'" using delete_alternate_spec [OF assms] by blast
  moreover have "alternates xs ! i = xs ! (2 * i)" if "i < length (alternates xs)" for i
    using that by (intro nth_alternates) (simp add: length_alternates)
  ultimately show ?thesis using length_alternates [of xs] by blast
qed

lemma delete_alternate_correct_witness:
  "\<exists>h' os ys. delete_alternate (heap_of 0 [(8, 3), (40, 5), (48, 6)]) (Ptr 8) = ret (h', os)
     \<and> is_list h' (Ptr 8) ys \<and> length ys = 2 \<and> ys ! 1 = (48, 6)"
proof -
  obtain h' os ys where "delete_alternate (heap_of 0 [(8, 3), (40, 5), (48, 6)]) (Ptr 8) = ret (h', os)"
    "is_list h' (Ptr 8) ys" "length ys = (3 + 1) div 2"
    "\<forall>i < length ys. ys ! i = [(8, 3), (40, 5), (48, 6)] ! (2 * i)"
    using delete_alternate_correct [of "heap_of 0 [(8, 3), (40, 5), (48, 6)]" "Ptr 8"
      "[(8, 3), (40, 5), (48, 6)]"] heap_of_list [of "[(8, 3), (40, 5), (48, 6)]" 0] by auto
  moreover from this have "length ys = 2" "ys ! 1 = (48, 6)" by auto
  ultimately show ?thesis by blast
qed

text \<open>
  Deleting the middle node works for every list of at least two nodes; a list of one node makes the
  search for its predecessor run off the list.
\<close>

lemma delete_middle_correct:
  assumes "is_list h p xs" and "xs \<noteq> []"
  shows "\<exists>m. search_middle_ptr h p = ret m
    \<and> (if length xs = 1 then delete_middle h p m = fault NullDeref
       else \<exists>h'. delete_middle h p m = ret h'
         \<and> is_list h' p (take (length xs div 2) xs @ drop (Suc (length xs div 2)) xs)
         \<and> cells h' (fst (xs ! (length xs div 2))) = None \<and> evolves (addrs xs) h h')"
proof (cases "length xs = 1")
  case True
  then obtain x where "xs = [x]" by (cases xs) auto
  then show ?thesis using delete_middle_single [of h p x] assms(1) by auto
next
  case False
  with assms(2) have "2 \<le> length xs" by (cases xs) (auto simp: Suc_le_eq)
  then show ?thesis using delete_middle_spec [OF assms(1)] False by simp
qed

lemma delete_middle_correct_witness:
  "\<exists>m h'. search_middle_ptr (heap_of 0 [(8, 3), (40, 5), (48, 6)]) (Ptr 8) = ret m
     \<and> delete_middle (heap_of 0 [(8, 3), (40, 5), (48, 6)]) (Ptr 8) m = ret h'
     \<and> is_list h' (Ptr 8) [(8, 3), (48, 6)]"
  using delete_middle_correct [of "heap_of 0 [(8, 3), (40, 5), (48, 6)]" "Ptr 8"
      "[(8, 3), (40, 5), (48, 6)]"] heap_of_list [of "[(8, 3), (40, 5), (48, 6)]" 0] by auto

text \<open>
  On a sorted list that is not empty, deleting duplicates leaves a strictly ascending list with
  the same set of values.
\<close>

lemma delete_duplicate_correct:
  assumes "is_list h p xs" and "xs \<noteq> []" and "sorted (vals xs)"
  shows "\<exists>h' ys. delete_duplicate h p = ret h' \<and> is_list h' p ys \<and> evolves (addrs xs) h h'
    \<and> sorted (vals ys) \<and> distinct (vals ys) \<and> set (vals ys) = set (vals xs)"
proof -
  obtain h' where h': "delete_duplicate h p = ret h'" "is_list h' p (dedup_adj xs)"
    "evolves (addrs xs) h h'" using delete_duplicate_spec [OF assms(1,2)] by blast
  have "sorted (remdups_adj (vals xs))" "distinct (remdups_adj (vals xs))"
    "set (remdups_adj (vals xs)) = set (vals xs)"
    using assms(3) by (simp_all add: remdups_adj_sorted_distinct)
  then have "sorted (vals (dedup_adj xs))" "distinct (vals (dedup_adj xs))"
    "set (vals (dedup_adj xs)) = set (vals xs)" unfolding vals_dedup_adj by blast+
  with h' show ?thesis by blast
qed

lemma delete_duplicate_correct_witness:
  "\<exists>h' ys. delete_duplicate (heap_of 0 [(8, 3), (40, 3), (48, 6)]) (Ptr 8) = ret h'
     \<and> is_list h' (Ptr 8) ys \<and> distinct (vals ys) \<and> set (vals ys) = {3, 6}"
  using delete_duplicate_correct [of "heap_of 0 [(8, 3), (40, 3), (48, 6)]" "Ptr 8"
      "[(8, 3), (40, 3), (48, 6)]"] heap_of_list [of "[(8, 3), (40, 3), (48, 6)]" 0] by auto

end
