(* ===== verification/List_Calc.thy ===== *)
theory List_Calc
  imports List_Basic
begin

text \<open>
  The programs under \<^verbatim>\<open>src/linked_list/single_linked_list/calculate\<close>: comparing two lists,
  multiplying and subtracting the numbers whose decimal digits two lists hold, and the sum of the
  last N nodes. All arithmetic is on 32-bit ints and faults when it overflows.
\<close>

section \<open>compare\_two\_list\<close>

partial_function (option) compare_loop :: "heap \<Rightarrow> ptr \<Rightarrow> ptr \<Rightarrow> (ptr \<times> ptr \<times> out list \<times> int) cres" where
  "compare_loop h p1 p2 =
     (if p1 = NULL \<or> p2 = NULL then ret (p1, p2, [OStr ''Two list are the same'', newline], 0)
      else bnd (load_value h p1) (\<lambda>v1. bnd (load_value h p2) (\<lambda>v2.
        if v1 = v2
        then bnd (load_next h p1) (\<lambda>n1. bnd (load_next h p2) (\<lambda>n2. compare_loop h n1 n2))
        else if v1 > v2 then ret (p1, p2, [], 1)
        else ret (p1, p2, [], - 1))))"

text \<open>The heads are passed by reference and advanced: the new heads are part of the result.\<close>

definition compare :: "heap \<Rightarrow> ptr \<Rightarrow> ptr \<Rightarrow> (ptr \<times> ptr \<times> out list \<times> int) cres" where
  "compare h head1 head2 =
     bnd (check_len h head1) (\<lambda>len_1.
     bnd (check_len h head2) (\<lambda>len_2.
       if len_1 > len_2 then ret (head1, head2, [], 1)
       else if len_1 < len_2 then ret (head1, head2, [], - 1)
       else compare_loop h head1 head2))"

definition compare_main :: "heap \<Rightarrow> out list cres" where
  "compare_main h =
     bnd (for_each (\<lambda>c (h, p). append_c h p (of_char c)) ''appd'' (h, NULL)) (\<lambda>(h, head_1).
     bnd (print_list_char h head_1) (\<lambda>os1.
     bnd (for_each (\<lambda>c (h, p). append_c h p (of_char c)) ''app'' (h, NULL)) (\<lambda>(h, head_2).
     bnd (print_list_char h head_2) (\<lambda>os2.
     bnd (compare h head_1 head_2) (\<lambda>(_, _, os3, r).
       ret ([OStr ''First list:''] @ os1 @ [OStr ''Second list:''] @ os2 @ os3 @
            [OStr ''return value is '', OInt r, newline]))))))"

section \<open>multiply\_two\_lists and minus\_two\_lists\<close>

text \<open>\<^verbatim>\<open>if (*head_ref) { num = num*10 + (*head_ref)->value; (*head_ref) = (*head_ref)->next; }\<close>\<close>

definition digit_step :: "heap \<Rightarrow> ptr \<Rightarrow> int \<Rightarrow> (ptr \<times> int) cres" where
  "digit_step h head num =
     (if head = NULL then ret (head, num)
      else bnd (ck (num * 10)) (\<lambda>t. bnd (load_value h head) (\<lambda>v. bnd (ck (t + v)) (\<lambda>num.
           bnd (load_next h head) (\<lambda>n. ret (n, num))))))"

partial_function (option) digits_loop ::
    "heap \<Rightarrow> ptr \<Rightarrow> ptr \<Rightarrow> int \<Rightarrow> int \<Rightarrow> (int \<times> int) cres" where
  "digits_loop h head1 head2 num1 num2 =
     (if head1 = NULL \<and> head2 = NULL then ret (num1, num2)
      else bnd (digit_step h head1 num1) (\<lambda>(head1, num1).
           bnd (digit_step h head2 num2) (\<lambda>(head2, num2).
             digits_loop h head1 head2 num1 num2)))"

definition multiply :: "heap \<Rightarrow> ptr \<Rightarrow> ptr \<Rightarrow> out list cres" where
  "multiply h head1 head2 =
     bnd (digits_loop h head1 head2 0 0) (\<lambda>(num1, num2).
     bnd (ck (num1 * num2)) (\<lambda>r.
       ret [OStr ''num1='', OInt num1, OStr '', num2='', OInt num2, OStr '', num1*num2='',
            OInt r, newline]))"

definition subtract :: "heap \<Rightarrow> ptr \<Rightarrow> ptr \<Rightarrow> out list cres" where
  "subtract h head1 head2 =
     bnd (digits_loop h head1 head2 0 0) (\<lambda>(num1, num2).
       if num1 > num2
       then bnd (ck (num1 - num2)) (\<lambda>r.
         ret [OStr ''num1='', OInt num1, OStr '', num2='', OInt num2, OStr '', num1-num2='',
              OInt r, newline])
       else bnd (ck (num2 - num1)) (\<lambda>r.
         ret [OStr ''num1='', OInt num1, OStr '', num2='', OInt num2, OStr '', num2-num1='',
              OInt r, newline]))"

text \<open>
  \<^verbatim>\<open>calc_number\<close>, the first method of both programs: \<^verbatim>\<open>num += value * pow(10.0, i)\<close> in double
  arithmetic, truncated to int. A result that fits into an int is exact; \<^verbatim>\<open>pow(10.0, i)\<close> is
  infinite from \<open>i = 309\<close> on, and neither that nor a larger result can be converted.
\<close>

definition calc_number :: "heap \<Rightarrow> ptr \<Rightarrow> int \<Rightarrow> int cres" where
  "calc_number h head len =
     bnd (for_down (len - 1) (- 1) (\<lambda>i (current, num).
       bnd (load_value h current) (\<lambda>v.
         if i \<le> 308 \<and> in_int (num + v * 10 ^ nat i)
         then bnd (load_next h current) (\<lambda>n. ret (n, num + v * 10 ^ nat i))
         else fault BadConversion)) (head, 0)) (\<lambda>(_, num). ret num)"

definition multiply_main :: "heap \<Rightarrow> out list cres" where
  "multiply_main h =
     bnd (for_each (\<lambda>v (h, p). append_c h p v) [9, 4, 6] (h, NULL)) (\<lambda>(h, head_1).
     bnd (print_list_arrow h head_1) (\<lambda>os1.
     bnd (for_each (\<lambda>v (h, p). append_c h p v) [8, 4] (h, NULL)) (\<lambda>(h, head_2).
     bnd (print_list_arrow h head_2) (\<lambda>os2.
     bnd (multiply h head_1 head_2) (\<lambda>os3.
       ret ([OStr ''First list:''] @ os1 @ [OStr ''Second list:''] @ os2 @ os3))))))"

definition subtract_main :: "heap \<Rightarrow> out list cres" where
  "subtract_main h =
     bnd (for_each (\<lambda>v (h, p). append_c h p v) [1, 0] (h, NULL)) (\<lambda>(h, head_1).
     bnd (print_list_arrow h head_1) (\<lambda>os1.
     bnd (for_each (\<lambda>v (h, p). append_c h p v) [1, 0, 0] (h, NULL)) (\<lambda>(h, head_2).
     bnd (print_list_arrow h head_2) (\<lambda>os2.
     bnd (subtract h head_1 head_2) (\<lambda>os3.
       ret ([OStr ''First list:''] @ os1 @ [OStr ''Second list:''] @ os2 @ os3))))))"

section \<open>sum\_of\_last\_N\_nodes\<close>

partial_function (option) sum_loop ::
    "heap \<Rightarrow> ptr \<Rightarrow> int \<Rightarrow> int \<Rightarrow> int \<Rightarrow> (ptr \<times> int) cres" where
  "sum_loop h current start_sum_idx current_idx acc =
     bnd (load_next h current) (\<lambda>n.
       if n = NULL then ret (current, acc)
       else if current_idx \<noteq> start_sum_idx
       then bnd (ck (current_idx + 1)) (\<lambda>idx. sum_loop h n start_sum_idx idx acc)
       else bnd (load_value h current) (\<lambda>v.
            bnd (ck (acc + v)) (\<lambda>acc. sum_loop h n start_sum_idx current_idx acc)))"

definition sum_of_last_N_nodes :: "heap \<Rightarrow> ptr \<Rightarrow> int \<Rightarrow> int \<Rightarrow> int cres" where
  "sum_of_last_N_nodes h head len num =
     bnd (ck (len - num)) (\<lambda>start_sum_idx.
       if head = NULL then ret 0
       else if len \<le> 0 then ret 0
       else if len = 1 then load_value h head
       else bnd (sum_loop h head start_sum_idx 0 0) (\<lambda>(current, acc).
            bnd (load_value h current) (\<lambda>v. ck (acc + v))))"

definition sum_of_last_N_main :: "heap \<Rightarrow> int option \<Rightarrow> out list cres" where
  "sum_of_last_N_main h inp =
     bnd (for_up 0 10 (\<lambda>i (h, head). append_c h head i) (h, NULL)) (\<lambda>(h, head).
     bnd (print_list h head) (\<lambda>os.
     bnd (get_length h head) (\<lambda>len.
     let n = scan_int 0 inp in
     bnd (sum_of_last_N_nodes h head len n) (\<lambda>res.
       ret (os @ [OStr ''Please specify how many nodes want to sum from last:'', newline,
                  OStr ''Sum of last '', OInt n, OStr '' nodes is '', OInt res, newline])))))"

section \<open>Results: comparison\<close>

text \<open>The order the function decides: by length first, then by the first differing value.\<close>

fun cmp_vals :: "int list \<Rightarrow> int list \<Rightarrow> int" where
  "cmp_vals (x # xs) (y # ys) = (if x = y then cmp_vals xs ys else if x > y then 1 else - 1)"
| "cmp_vals _ _ = 0"

definition cmp_spec :: "int list \<Rightarrow> int list \<Rightarrow> int" where
  "cmp_spec xs ys =
     (if length xs > length ys then 1 else if length xs < length ys then - 1 else cmp_vals xs ys)"

lemma compare_loop_seg:
  "seg h xs NULL \<Longrightarrow> seg h ys NULL \<Longrightarrow>
     \<exists>p q os. compare_loop h (hdp xs NULL) (hdp ys NULL) = ret (p, q, os, cmp_vals (vals xs) (vals ys))"
proof (induction xs arbitrary: ys)
  case Nil
  then show ?case by (subst compare_loop.simps) simp
next
  case (Cons x xs)
  show ?case
  proof (cases ys)
    case Nil
    then show ?thesis by (subst compare_loop.simps) simp
  next
    case (Cons y ys')
    with Cons.prems Cons.IH [of ys'] show ?thesis
      by (subst compare_loop.simps) (auto simp: heap_simps)
  qed
qed

lemma compare_spec:
  assumes "is_list h p xs" and "is_list h q ys"
    and "int (length xs) \<le> INT_MAX" and "int (length ys) \<le> INT_MAX"
  shows "\<exists>p' q' os. compare h p q = ret (p', q', os, cmp_spec (vals xs) (vals ys))"
proof -
  have "check_len h p = ret (int (length xs))" "check_len h q = ret (int (length ys))"
    using assms by (auto simp: check_len_eq_get_length get_length_spec)
  moreover have "seg h xs NULL" "seg h ys NULL" "p = hdp xs NULL" "q = hdp ys NULL"
    using assms(1,2) by (auto simp: is_list_def)
  ultimately show ?thesis
    using compare_loop_seg [of h xs ys] by (auto simp: compare_def cmp_spec_def)
qed

lemma cmp_vals_eq_0: "length xs = length ys \<Longrightarrow> cmp_vals xs ys = 0 \<longleftrightarrow> xs = ys"
  by (induction xs ys rule: cmp_vals.induct) auto

lemma cmp_vals_antisym: "cmp_vals ys xs = - cmp_vals xs ys"
  by (induction xs ys rule: cmp_vals.induct) auto

lemma cmp_spec_eq_0: "cmp_spec xs ys = 0 \<longleftrightarrow> xs = ys"
  by (auto simp: cmp_spec_def cmp_vals_eq_0)

lemma cmp_spec_antisym: "cmp_spec ys xs = - cmp_spec xs ys"
  by (simp add: cmp_spec_def cmp_vals_antisym [of ys xs])

section \<open>Results: numbers\<close>

definition horner :: "int \<Rightarrow> int list \<Rightarrow> int" where
  "horner n ds = fold (\<lambda>d n. n * 10 + d) ds n"

lemma horner_simps [simp]: "horner n [] = n" "horner n (d # ds) = horner (n * 10 + d) ds"
  by (simp_all add: horner_def)

lemma horner_ge: "0 \<le> n \<Longrightarrow> \<forall>d \<in> set ds. 0 \<le> d \<Longrightarrow> n \<le> horner n ds"
proof (induction ds arbitrary: n)
  case (Cons d ds)
  then have "n \<le> n * 10 + d" "n * 10 + d \<le> horner (n * 10 + d) ds" by auto
  then show ?case by simp
qed simp

lemma horner_power: "horner n ds = n * 10 ^ length ds + horner 0 ds"
proof (induction ds arbitrary: n)
  case (Cons d ds)
  from Cons [of "n * 10 + d"] Cons [of d] show ?case by (simp add: algebra_simps)
qed simp

lemma digit_step_Nil [simp]: "digit_step h NULL n = ret (NULL, n)"
  by (simp add: digit_step_def)

lemma digit_step_seg:
  assumes "seg h (x # xs) NULL" and "0 \<le> n" and "\<forall>d \<in> set (vals (x # xs)). 0 \<le> d"
    and "horner n (vals (x # xs)) \<le> INT_MAX"
  shows "digit_step h (Ptr (fst x)) n = ret (hdp xs NULL, n * 10 + snd x)"
proof -
  have "n * 10 + snd x \<le> INT_MAX"
    using horner_ge [of "n * 10 + snd x" "vals xs"] assms(2-4) by auto
  with assms(2,3) have "in_int (n * 10)" "in_int (n * 10 + snd x)"
    by (auto simp: in_int_def INT_MIN_def)
  with assms(1) show ?thesis by (auto simp: digit_step_def heap_simps)
qed

lemma digits_loop_seg:
  "seg h xs NULL \<Longrightarrow> seg h ys NULL \<Longrightarrow> 0 \<le> n \<Longrightarrow> 0 \<le> m \<Longrightarrow>
     \<forall>d \<in> set (vals xs). 0 \<le> d \<Longrightarrow> \<forall>d \<in> set (vals ys). 0 \<le> d \<Longrightarrow>
     horner n (vals xs) \<le> INT_MAX \<Longrightarrow> horner m (vals ys) \<le> INT_MAX \<Longrightarrow>
     digits_loop h (hdp xs NULL) (hdp ys NULL) n m = ret (horner n (vals xs), horner m (vals ys))"
proof (induction "length xs + length ys" arbitrary: xs ys n m rule: less_induct)
  case less
  note IH = less.hyps
  show ?case
  proof (cases "xs = [] \<and> ys = []")
    case True
    then show ?thesis by (subst digits_loop.simps) simp
  next
    case False
    have 1: "digit_step h (hdp xs NULL) n =
      ret (hdp (tl xs) NULL, if xs = [] then n else n * 10 + snd (hd xs))"
      using digit_step_seg [of h "hd xs" "tl xs" n] less.prems by (cases xs) auto
    have 2: "digit_step h (hdp ys NULL) m =
      ret (hdp (tl ys) NULL, if ys = [] then m else m * 10 + snd (hd ys))"
      using digit_step_seg [of h "hd ys" "tl ys" m] less.prems by (cases ys) auto
    have "digits_loop h (hdp (tl xs) NULL) (hdp (tl ys) NULL)
        (if xs = [] then n else n * 10 + snd (hd xs)) (if ys = [] then m else m * 10 + snd (hd ys)) =
      ret (horner n (vals xs), horner m (vals ys))"
      by (subst IH) (use False less.prems in \<open>(cases xs; cases ys; simp)+\<close>)
    with 1 2 False show ?thesis by (subst digits_loop.simps) simp
  qed
qed

text \<open>The numbers both functions print.\<close>

definition digits_ok :: "chain \<Rightarrow> bool" where
  "digits_ok xs \<longleftrightarrow> (\<forall>d \<in> set (vals xs). 0 \<le> d) \<and> horner 0 (vals xs) \<le> INT_MAX"

lemma digits_loop_spec:
  assumes "is_list h p xs" and "is_list h q ys" and "digits_ok xs" and "digits_ok ys"
  shows "digits_loop h p q 0 0 = ret (horner 0 (vals xs), horner 0 (vals ys))"
  using assms digits_loop_seg [of h xs ys 0 0] by (auto simp: is_list_def digits_ok_def)

lemma calc_number_loop:
  "seg h xs NULL \<Longrightarrow> length xs \<le> 309 \<Longrightarrow> 0 \<le> n \<Longrightarrow> \<forall>d \<in> set (vals xs). 0 \<le> d \<Longrightarrow>
     n + horner 0 (vals xs) \<le> INT_MAX \<Longrightarrow>
     for_down (int (length xs) - 1) (- 1) (\<lambda>i (current, num).
       bnd (load_value h current) (\<lambda>v.
         if i \<le> 308 \<and> in_int (num + v * 10 ^ nat i)
         then bnd (load_next h current) (\<lambda>n. ret (n, num + v * 10 ^ nat i))
         else fault BadConversion)) (hdp xs NULL, n) = ret (NULL, n + horner 0 (vals xs))"
proof (induction xs arbitrary: n)
  case Nil
  then show ?case by (simp add: for_down.simps)
next
  case (Cons x xs)
  let ?t = "snd x * 10 ^ length xs"
  have h: "horner 0 (vals (x # xs)) = ?t + horner 0 (vals xs)"
    using horner_power [of "snd x" "vals xs"] by simp
  have "0 \<le> horner 0 (vals xs)" using horner_ge [of 0 "vals xs"] Cons.prems(4) by simp
  moreover have t: "0 \<le> ?t" using Cons.prems(4) by simp
  ultimately have "in_int (n + ?t)" "n + ?t + horner 0 (vals xs) \<le> INT_MAX"
    using Cons.prems(3,5) h by (simp_all add: in_int_def INT_MIN_def)
  with Cons h t show ?case
    by (subst for_down.simps) (auto simp: heap_simps add.assoc)
qed

lemma calc_number_spec:
  assumes "is_list h p xs" and "digits_ok xs" and "length xs \<le> 309"
  shows "calc_number h p (int (length xs)) = ret (horner 0 (vals xs))"
  using assms calc_number_loop [of h xs 0]
  by (auto simp: calc_number_def is_list_def digits_ok_def)

section \<open>Results: sums\<close>

text \<open>From the index on at which summing starts, the loop adds every node but the last.\<close>

lemma sum_loop_adding:
  "seg h (xs @ [x]) NULL \<Longrightarrow> (\<And>k. k \<le> length xs \<Longrightarrow> in_int (s + sum_list (take k (vals xs)))) \<Longrightarrow>
     sum_loop h (hdp (xs @ [x]) NULL) i i s = ret (Ptr (fst x), s + sum_list (vals xs))"
proof (induction xs arbitrary: s)
  case Nil
  then show ?case by (subst sum_loop.simps) (auto simp: heap_simps)
next
  case (Cons y xs)
  have "in_int (s + snd y)" using Cons.prems(2) [of 1] by simp
  moreover have "in_int (s + snd y + sum_list (take k (vals xs)))" if "k \<le> length xs" for k
    using Cons.prems(2) [of "Suc k"] that by (simp add: add.assoc)
  ultimately show ?case
    using Cons.prems(1) Cons.IH [of "s + snd y"]
    by (subst sum_loop.simps) (auto simp: heap_simps add.assoc)
qed

lemma sum_loop_skip:
  "seg h (us @ vs) NULL \<Longrightarrow> vs \<noteq> [] \<Longrightarrow> 0 \<le> i \<Longrightarrow> i + int (length us) \<le> INT_MAX \<Longrightarrow>
     i + int (length us) \<le> t \<or> t < i \<Longrightarrow>
     sum_loop h (hdp (us @ vs) NULL) t i s =
       sum_loop h (hdp vs NULL) t (i + int (length us)) s"
proof (induction us arbitrary: i)
  case (Cons u us)
  have "in_int (i + 1)" "i \<noteq> t" using Cons.prems by (auto simp: in_int_def INT_MIN_def)
  moreover have "hdp (us @ vs) NULL \<noteq> NULL" using Cons.prems(2) by (simp del: hdp_append)
  ultimately show ?case
    using Cons.prems Cons.IH [of "i + 1"]
    by (subst sum_loop.simps) (auto simp: heap_simps add.assoc)
qed simp

lemma sum_of_last_N_spec:
  assumes "is_list h p xs" and "1 \<le> n" and "n \<le> length xs" and "int (length xs) \<le> INT_MAX"
    and "\<And>k. k \<le> n \<Longrightarrow> in_int (sum_list (take k (drop (length xs - n) (vals xs))))"
  shows "sum_of_last_N_nodes h p (int (length xs)) (int n) =
    ret (sum_list (drop (length xs - n) (vals xs)))"
proof (cases "length xs = 1")
  case True
  then obtain x where "xs = [x]" by (cases xs) auto
  with assms show ?thesis
    by (auto simp: sum_of_last_N_nodes_def is_list_def heap_simps int_range_defs)
next
  case False
  let ?m = "length xs - n"
  have seg: "seg h (take ?m xs @ drop ?m xs) NULL" and p: "p = hdp (take ?m xs @ drop ?m xs) NULL"
    using assms(1) by (simp_all only: append_take_drop_id is_list_def)
  obtain ys x where dr: "drop ?m xs = ys @ [x]"
    using assms(2,3) by (cases "drop ?m xs" rule: rev_cases) auto
  have len: "length ys < n" using dr assms(2,3) by (metis diff_diff_cancel length_append_singleton
        length_drop lessI)
  have pre: "in_int (0 + sum_list (take k (vals ys)))" if "k \<le> length ys" for k
    using assms(5) [of k] that len dr by (simp flip: drop_map) (simp add: drop_map dr)
  have "sum_loop h p (int ?m) 0 0 = ret (Ptr (fst x), sum_list (vals ys))"
    using sum_loop_skip [OF seg, of 0 "int ?m" 0] sum_loop_adding [of h ys x 0 "int ?m"]
      pre seg p dr assms(2-4) by auto
  moreover have "load_value h (Ptr (fst x)) = ret (snd x)" using seg dr by (auto simp: heap_simps)
  moreover have "in_int (sum_list (vals ys) + snd x)"
    using assms(5) [of n] len dr by (simp add: drop_map)
  moreover have "ck (int (length xs) - int n) = ret (int ?m)" "p \<noteq> NULL"
    "\<not> int (length xs) \<le> 0" "int (length xs) \<noteq> 1"
    using assms(2-4) p False by (auto simp: int_range_defs)
  moreover have "drop ?m (vals xs) = vals ys @ [snd x]" by (simp add: drop_map dr)
  ultimately show ?thesis
    by (simp only: sum_of_last_N_nodes_def bnd_ret if_False split_conv sum_list_append ck_ret
        sum_list.Cons sum_list.Nil add_0_right)
qed

text \<open>
  A count of zero or less, or above the length: the index at which summing starts is never
  reached, and only the last value is returned.
\<close>

lemma sum_of_last_N_outside:
  assumes "is_list h p xs" and "2 \<le> length xs" and "int (length xs) \<le> INT_MAX"
    and "num \<le> 0 \<or> int (length xs) < num" and "in_int (int (length xs) - num)"
    and "in_int (last (vals xs))"
  shows "sum_of_last_N_nodes h p (int (length xs)) num = ret (last (vals xs))"
proof -
  obtain ys x where xs: "xs = ys @ [x]" using assms(2) by (cases xs rule: rev_cases) auto
  let ?t = "int (length xs) - num"
  have seg: "seg h (ys @ [x]) NULL" and p: "p = hdp (ys @ [x]) NULL"
    using assms(1) xs by (auto simp: is_list_def)
  have "sum_loop h p ?t 0 0 = sum_loop h (Ptr (fst x)) ?t (int (length ys)) 0"
    using sum_loop_skip [OF seg, of 0 ?t 0] p xs assms(3,4) by auto
  also have "\<dots> = ret (Ptr (fst x), 0)"
    using seg by (subst sum_loop.simps) (auto simp: heap_simps)
  finally show ?thesis
    using seg xs p assms(2,5,6) by (auto simp: sum_of_last_N_nodes_def heap_simps)
qed

section \<open>Properties\<close>

text \<open>
  C34: Comparing two lists returns 1, -1 or 0 as the order by length and then by the first different
  value says; 0 means that the lists hold the same values, and exchanging the arguments negates
  the result.
\<close>

theorem compare_correct:
  assumes "is_list h p xs" and "is_list h q ys"
    and "int (length xs) \<le> INT_MAX" and "int (length ys) \<le> INT_MAX"
  shows "\<exists>p1 q1 os1 p2 q2 os2 r. compare h p q = ret (p1, q1, os1, r) \<and> compare h q p = ret (q2, p2, os2, - r)
    \<and> r = cmp_spec (vals xs) (vals ys) \<and> (r = 0 \<longleftrightarrow> vals xs = vals ys)"
proof -
  obtain p1 q1 os1 where "compare h p q = ret (p1, q1, os1, cmp_spec (vals xs) (vals ys))"
    using compare_spec [OF assms] by blast
  moreover obtain p2 q2 os2 where "compare h q p = ret (q2, p2, os2, cmp_spec (vals ys) (vals xs))"
    using compare_spec [OF assms(2,1,4,3)] by blast
  ultimately show ?thesis
    using cmp_spec_antisym [of "vals ys" "vals xs"] cmp_spec_eq_0 [of "vals xs" "vals ys"] by auto
qed

theorem compare_correct_witness:
  "\<exists>p1 q1 os. compare (heap_of 0 [(8, 3), (40, 5)]) (Ptr 8) (Ptr 40) = ret (p1, q1, os, 1)"
proof -
  let ?h = "heap_of 0 [(8, 3), (40, 5)]"
  have "is_list ?h (Ptr 8) [(8, 3), (40, 5)]" using heap_of_list [of "[(8, 3), (40, 5)]" 0] by simp
  moreover from this have "is_list ?h (Ptr 40) [(40, 5)]" by (simp add: is_list_def)
  ultimately obtain p1 q1 os r where "compare ?h (Ptr 8) (Ptr 40) = ret (p1, q1, os, r)"
    "r = cmp_spec (vals [(8, 3), (40, 5)]) (vals [(40 :: nat, 5)])"
    using compare_correct [of ?h "Ptr 8" "[(8, 3), (40, 5)]" "Ptr 40" "[(40, 5)]"]
    by (auto simp: INT_MAX_def)
  moreover have "cmp_spec [3, 5] [5] = 1" by (simp add: cmp_spec_def)
  ultimately show ?thesis by auto
qed

text \<open>
  The two ways to read a number from its list of digits agree: the loop over both lists of
  \<open>multiply\<close> and \<open>subtract\<close> computes for each list what \<open>calc_number\<close> computes from the powers of ten,
  whenever the numbers fit into an int.
\<close>

lemma digits_calc_number:
  assumes "is_list h p xs" and "is_list h q ys" and "digits_ok xs" and "digits_ok ys"
    and "length xs \<le> 309" and "length ys \<le> 309"
  shows "\<exists>m n. digits_loop h p q 0 0 = ret (m, n) \<and> calc_number h p (int (length xs)) = ret m
    \<and> calc_number h q (int (length ys)) = ret n"
  using digits_loop_spec [OF assms(1-4)] calc_number_spec [OF assms(1,3,5)]
    calc_number_spec [OF assms(2,4,6)] by blast




text \<open>
  The sum of the last N nodes is right for every N from 1 to the length, as long as the partial
  sums fit into an int.
\<close>

lemma sum_of_last_N_correct:
  assumes "is_list h p xs" and "1 \<le> n" and "n \<le> length xs" and "int (length xs) \<le> INT_MAX"
    and "\<And>k. k \<le> n \<Longrightarrow> in_int (sum_list (take k (drop (length xs - n) (vals xs))))"
  shows "sum_of_last_N_nodes h p (int (length xs)) (int n) =
    ret (sum_list (drop (length xs - n) (vals xs)))"
  using sum_of_last_N_spec [OF assms] .


text \<open>
  For a count that is not positive or larger than the length, the starting index is never reached
  and only the value of the last node is returned.
\<close>

lemma sum_of_last_N_out_of_range:
  assumes "is_list h p xs" and "2 \<le> length xs" and "int (length xs) \<le> INT_MAX"
    and "num \<le> 0 \<or> int (length xs) < num" and "in_int (int (length xs) - num)"
    and "in_int (last (vals xs))"
  shows "sum_of_last_N_nodes h p (int (length xs)) num = ret (last (vals xs))"
  using sum_of_last_N_outside [OF assms] .


end
