(* ===== verification/List_Refine.thy ===== *)
theory List_Refine
  imports List_Reorder List_Delete
begin

text \<open>
  The list programs as one abstract data type. Every program under
  \<^verbatim>\<open>src/linked_list/single_linked_list\<close> works on the same \<^verbatim>\<open>struct node\<close>; here their operations
  are steps of one machine on a heap and a head pointer, a list of integers is the abstract state,
  and every sequence of operations on the heap is shown to follow the abstract one: the same values,
  the same faults, and no block lost or damaged.
\<close>

section \<open>The operations\<close>

datatype list_op =
    Append int | InsertHead int | InsertAfter int int | InsertMiddle int
  | Reverse | MoveTail
  | DeleteValue int | DeletePosition int | DeleteAlternate | DeleteMiddle | DeleteDuplicate

text \<open>Each operation as its program calls it; what it prints is left out.\<close>

fun exec_op :: "list_op \<Rightarrow> heap \<times> ptr \<Rightarrow> (heap \<times> ptr) cres" where
  "exec_op (Append v) (h, head) = append_c h head v"
| "exec_op (InsertHead v) (h, head) = insert_to_head h head v"
| "exec_op (InsertAfter w v) (h, head) = insert_c h head w v"
| "exec_op (InsertMiddle v) (h, head) =
     bnd (search_middle_ptr h head) (\<lambda>m. bnd (insert_at_middle h head m v) (\<lambda>h. ret (h, head)))"
| "exec_op Reverse (h, head) = reverse_c h head"
| "exec_op MoveTail (h, head) = move_tail_to_head h head"
| "exec_op (DeleteValue w) (h, head) = bnd (delete_by_value h head w) (\<lambda>(h, head, os). ret (h, head))"
| "exec_op (DeletePosition k) (h, head) =
     bnd (delete_by_position h head k) (\<lambda>(h, head, os). ret (h, head))"
| "exec_op DeleteAlternate (h, head) = bnd (delete_alternate h head) (\<lambda>(h, os). ret (h, head))"
| "exec_op DeleteMiddle (h, head) =
     bnd (search_middle_ptr h head) (\<lambda>m. bnd (delete_middle h head m) (\<lambda>h. ret (h, head)))"
| "exec_op DeleteDuplicate (h, head) = bnd (delete_duplicate h head) (\<lambda>h. ret (h, head))"

text \<open>The same operations on the values alone; \<open>None\<close> where the operation is not defined.\<close>

fun insert_behind :: "int \<Rightarrow> int \<Rightarrow> int list \<Rightarrow> int list" where
  "insert_behind w v [] = []"
| "insert_behind w v (x # xs) = (if x = w then x # v # xs else x # insert_behind w v xs)"

definition drop_at :: "nat \<Rightarrow> 'a list \<Rightarrow> 'a list" where
  "drop_at k xs = take k xs @ drop (Suc k) xs"

definition unless_empty :: "'a list \<Rightarrow> 'b \<Rightarrow> 'b option" where
  "unless_empty vs ws = (if vs = [] then None else Some ws)"

fun spec_op :: "list_op \<Rightarrow> int list \<Rightarrow> int list option" where
  "spec_op (Append v) vs = Some (vs @ [v])"
| "spec_op (InsertHead v) vs = Some (v # vs)"
| "spec_op (InsertAfter w v) vs = (if w \<in> set vs then Some (insert_behind w v vs) else None)"
| "spec_op (InsertMiddle v) vs =
     unless_empty vs (take (Suc (length vs div 2)) vs @ v # drop (Suc (length vs div 2)) vs)"
| "spec_op Reverse vs = unless_empty vs (rev vs)"
| "spec_op MoveTail vs = Some (if vs = [] then [] else last vs # butlast vs)"
| "spec_op (DeleteValue w) vs = unless_empty vs (remove1 w vs)"
| "spec_op (DeletePosition k) vs = Some (drop_at (nat k) vs)"
| "spec_op DeleteAlternate vs = unless_empty vs (alternates vs)"
| "spec_op DeleteMiddle vs = (if length vs < 2 then None else Some (drop_at (length vs div 2) vs))"
| "spec_op DeleteDuplicate vs = unless_empty vs (remdups_adj vs)"

text \<open>Nodes an operation allocates, and the positions that are not negative.\<close>

fun op_cost :: "list_op \<Rightarrow> nat" where
  "op_cost (Append v) = 1"
| "op_cost (InsertHead v) = 1"
| "op_cost (InsertAfter w v) = 1"
| "op_cost (InsertMiddle v) = 1"
| "op_cost _ = 0"

fun op_ok :: "list_op \<Rightarrow> bool" where
  "op_ok (DeletePosition k) = (0 \<le> k \<and> k \<le> INT_MAX)"
| "op_ok _ = True"

fun spec_run :: "('op \<Rightarrow> int list \<Rightarrow> int list option) \<Rightarrow> 'op list \<Rightarrow> int list \<Rightarrow> int list option" where
  "spec_run spec [] vs = Some vs"
| "spec_run spec (c # cs) vs = Option.bind (spec c vs) (spec_run spec cs)"

section \<open>The abstraction\<close>

text \<open>
  \<open>owns h xs h' ys\<close>: the list went from \<open>xs\<close> to \<open>ys\<close>, blocks that were in neither are as they were,
  every block that left the list is freed, every block that joined it was free before.
\<close>

definition owns :: "heap \<Rightarrow> chain \<Rightarrow> heap \<Rightarrow> chain \<Rightarrow> bool" where
  "owns h xs h' ys \<longleftrightarrow>
     (\<forall>a. a \<notin> addrs xs \<longrightarrow> a \<notin> addrs ys \<longrightarrow> cells h' a = cells h a)
     \<and> (\<forall>a \<in> addrs xs - addrs ys. cells h' a = None)
     \<and> (\<forall>a \<in> addrs ys - addrs xs. cells h a = None)"

lemma owns_refl [simp]: "owns h xs h xs"
  by (simp add: owns_def)

lemma owns_trans:
  assumes "owns h xs h1 ys" and "owns h1 ys h2 zs"
  shows "owns h xs h2 zs"
  unfolding owns_def
proof (intro conjI allI impI ballI)
  fix a
  show "cells h2 a = cells h a" if "a \<notin> addrs xs" "a \<notin> addrs zs"
    using that assms unfolding owns_def by (cases "a \<in> addrs ys") (metis Diff_iff)+
  show "cells h2 a = None" if "a \<in> addrs xs - addrs zs"
    using that assms unfolding owns_def by (cases "a \<in> addrs ys") (metis Diff_iff)+
  show "cells h a = None" if "a \<in> addrs zs - addrs xs"
    using that assms unfolding owns_def by (cases "a \<in> addrs ys") (metis Diff_iff)+
qed

definition implements :: "nat \<Rightarrow> heap \<Rightarrow> chain \<Rightarrow> (heap \<times> ptr) cres \<Rightarrow> int list option \<Rightarrow> bool" where
  "implements n h xs r s \<longleftrightarrow>
     (case s of None \<Rightarrow> r = fault NullDeref
      | Some vs \<Rightarrow> \<exists>h' p' ys. r = ret (h', p') \<and> is_list h' p' ys \<and> vals ys = vs \<and> hwf h'
          \<and> quota h \<le> quota h' + n \<and> owns h xs h' ys)"

lemma implements_fault [simp]: "implements n h xs r None \<longleftrightarrow> r = fault NullDeref"
  by (simp add: implements_def)

text \<open>An operation that relinks and frees nodes of the list, and one that adds a node.\<close>

lemma implements_relink:
  assumes "r = ret (h', p')" and "is_list h' p' ys" and "vals ys = vs" and "hwf h"
    and "evolves (addrs xs) h h'" and "addrs ys \<subseteq> addrs xs"
    and "\<forall>a \<in> addrs xs - addrs ys. cells h' a = None"
  shows "implements n h xs r (Some vs)"
proof -
  have "owns h xs h' ys" using assms(5-7) by (auto simp: owns_def evolves_def frame_def)
  moreover have "quota h \<le> quota h' + n" using assms(5) by (simp add: evolves_def)
  ultimately show ?thesis
    using assms(1-4) evolves_hwf [OF assms(5)] unfolding implements_def by auto
qed

lemma implements_alloc:
  assumes "r = ret (h', p')" and "is_list h' p' ys" and "vals ys = vs" and "hwf h'"
    and "quota h' = quota h - 1" and "room 1 h" and "addrs ys = insert (brk h) (addrs xs)"
    and "frame A h h'" and "A \<subseteq> insert (brk h) (addrs xs)"
  shows "implements 1 h xs r (Some vs)"
proof -
  have "cells h (brk h) = None" using assms(6) unfolding room_def hwf_def by blast
  then have "owns h xs h' ys" using assms(7-9) by (auto simp: owns_def frame_def)
  moreover have "quota h \<le> quota h' + 1" using assms(5) by simp
  ultimately show ?thesis using assms(1-4) unfolding implements_def by auto
qed

section \<open>Every operation implements its specification\<close>

lemma insert_behind_split:
  "w \<notin> set us \<Longrightarrow> insert_behind w v (us @ w # vs) = us @ w # v # vs"
  by (induction us) auto

lemma append_implements:
  assumes "is_list h p xs" and "room 1 h"
  shows "implements 1 h xs (exec_op (Append v) (h, p)) (spec_op (Append v) (vals xs))"
proof -
  obtain h' p' where "append_c h p v = ret (h', p')" "is_list h' p' (xs @ [(brk h, v)])" "hwf h'"
    "quota h' = quota h - 1" "frame (insert (brk h) (addrs xs)) h h'"
    using append_spec [OF assms] by blast
  then show ?thesis
    using implements_alloc [of "append_c h p v" h' p' "xs @ [(brk h, v)]"] assms(2) by simp
qed

lemma insert_head_implements:
  assumes "is_list h p xs" and "room 1 h"
  shows "implements 1 h xs (exec_op (InsertHead v) (h, p)) (spec_op (InsertHead v) (vals xs))"
proof -
  obtain h' p' where "insert_to_head h p v = ret (h', p')" "is_list h' p' ((brk h, v) # xs)" "hwf h'"
    "quota h' = quota h - 1" "frame (insert (brk h) (addrs xs)) h h'"
    using insert_to_head_spec [OF assms] by blast
  then show ?thesis
    using implements_alloc [of "insert_to_head h p v" h' p' "(brk h, v) # xs"] assms(2) by simp
qed

lemma insert_after_implements:
  assumes "is_list h p xs" and "room 1 h"
  shows "implements 1 h xs (exec_op (InsertAfter w v) (h, p)) (spec_op (InsertAfter w v) (vals xs))"
proof (cases "w \<in> set (vals xs)")
  case True
  then obtain us x vs where xs: "xs = us @ x # vs" "snd x = w" "w \<notin> snd ` set us"
    by (rule first_with)
  then obtain h' where h': "insert_c h p w v = ret (h', p)" "is_list h' p (us @ x # (brk h, v) # vs)"
    "hwf h'" "quota h' = quota h - 1" "frame {fst x, brk h} h h'"
    using insert_spec [of h p us x vs w v] assms by blast
  have "vals (us @ x # (brk h, v) # vs) = insert_behind w v (vals xs)"
    using xs insert_behind_split [of w "vals us" v "vals vs"] by simp
  moreover have "implements 1 h xs (insert_c h p w v)
      (Some (vals (us @ x # (brk h, v) # vs)))"
    by (rule implements_alloc [OF h'(1,2) refl h'(3,4) assms(2) _ h'(5)]) (auto simp: xs(1))
  ultimately show ?thesis using True by simp
next
  case False
  with insert_absent [OF assms] show ?thesis by simp
qed

lemma insert_middle_implements:
  assumes "is_list h p xs" and "room 1 h"
  shows "implements 1 h xs (exec_op (InsertMiddle v) (h, p)) (spec_op (InsertMiddle v) (vals xs))"
proof (cases "xs = []")
  case True
  then have "p = NULL" using assms(1) by (simp add: is_list_def)
  then show ?thesis using True assms(2)
    by (simp add: unless_empty_def search_middle_ptr_def insert_at_middle_def room_def
        link_after_def walk_to.simps)
next
  case False
  let ?k = "length xs div 2"
  let ?ys = "take ?k xs @ xs ! ?k # (brk h, v) # drop (Suc ?k) xs"
  have k: "?k < length xs" using False by simp
  obtain m h' where h': "search_middle_ptr h p = ret m" "insert_at_middle h p m v = ret h'"
    "is_list h' p ?ys" "hwf h'" "quota h' = quota h - 1" "frame {fst (xs ! ?k), brk h} h h'"
    using insert_at_middle_spec [OF assms False refl refl refl, of v] by blast
  have "take (Suc ?k) xs = take ?k xs @ [xs ! ?k]" by (rule take_Suc_conv_app_nth [OF k])
  then have "vals ?ys = take (Suc ?k) (vals xs) @ v # drop (Suc ?k) (vals xs)"
    by (simp add: take_map drop_map)
  moreover have "addrs xs = addrs (take ?k xs @ xs ! ?k # drop (Suc ?k) xs)"
    using id_take_nth_drop [OF k] by simp
  then have "addrs ?ys = insert (brk h) (addrs xs)" by auto
  moreover have "{fst (xs ! ?k), brk h} \<subseteq> insert (brk h) (addrs xs)" using k by auto
  moreover have "exec_op (InsertMiddle v) (h, p) = ret (h', p)" using h'(1,2) by simp
  ultimately show ?thesis
    using implements_alloc [of "exec_op (InsertMiddle v) (h, p)" h' p ?ys] h' assms(2) False
    by (simp add: unless_empty_def)
qed

lemma drop_at_map: "map f (drop_at k xs) = drop_at k (map f xs)"
  by (simp add: drop_at_def take_map drop_map)

lemma drop_at_subset: "set (drop_at k xs) \<subseteq> set xs"
  by (auto simp: drop_at_def dest: in_set_takeD in_set_dropD)

lemma set_drop_at: "k < length xs \<Longrightarrow> set xs = insert (xs ! k) (set (drop_at k xs))"
  by (subst id_take_nth_drop [of k xs]) (auto simp: drop_at_def)

text \<open>Freeing the node at one position frees every node that is not in the list any more.\<close>

lemma drop_at_freed:
  assumes "k < length xs" and "cells h' (fst (xs ! k)) = None"
  shows "\<forall>a \<in> addrs xs - addrs (drop_at k xs). cells h' a = None"
  using set_drop_at [OF assms(1)] assms(2) by auto

lemma reverse_implements:
  assumes "is_list h p xs" and "hwf h"
  shows "implements 0 h xs (exec_op Reverse (h, p)) (spec_op Reverse (vals xs))"
proof (cases "xs = []")
  case True
  then show ?thesis using assms(1) by (simp add: unless_empty_def reverse_c_def is_list_def)
next
  case False
  obtain h' p' where "reverse_c h p = ret (h', p')" "is_list h' p' (rev xs)" "evolves (addrs xs) h h'"
    using reverse_spec [OF assms(1) False] by blast
  then show ?thesis
    using implements_relink [of "reverse_c h p" h' p' "rev xs"] assms(2) False
    by (simp add: unless_empty_def rev_map)
qed

lemma move_tail_implements:
  assumes "is_list h p xs" and "hwf h"
  shows "implements 0 h xs (exec_op MoveTail (h, p)) (spec_op MoveTail (vals xs))"
proof -
  let ?ys = "if xs = [] then [] else last xs # butlast xs"
  obtain h' p' where h': "move_tail_to_head h p = ret (h', p')" "is_list h' p' ?ys"
    "evolves (addrs xs) h h'" using move_tail_spec [OF assms(1)] by blast
  have "addrs ?ys = addrs xs"
    by (cases xs rule: rev_cases) auto
  moreover have "vals ?ys = (if vals xs = [] then [] else last (vals xs) # butlast (vals xs))"
    by (simp add: last_map map_butlast)
  ultimately show ?thesis
    using implements_relink [OF h'(1,2) refl assms(2) h'(3)] by simp
qed

lemma delete_value_implements:
  assumes "is_list h p xs" and "hwf h"
  shows "implements 0 h xs (exec_op (DeleteValue w) (h, p)) (spec_op (DeleteValue w) (vals xs))"
proof -
  consider "xs = []" | "xs \<noteq> []" "w \<notin> snd ` set xs" | "w \<in> set (vals xs)" by auto
  then show ?thesis
  proof cases
    case 1
    then show ?thesis using assms(1) by (simp add: unless_empty_def delete_by_value_def is_list_def)
  next
    case 2
    then have "remove1 w (vals xs) = vals xs" by (simp add: remove1_idem)
    then show ?thesis
      using delete_by_value_absent [OF assms(1) 2] implements_relink [of "ret (h, p)" h p xs] assms 2
      by (simp add: unless_empty_def)
  next
    case 3
    then obtain us x vs where xs: "xs = us @ x # vs" "snd x = w" "w \<notin> snd ` set us"
      by (rule first_with)
    then obtain h' p' where h': "delete_by_value h p w = ret (h', p', [])" "is_list h' p' (us @ vs)"
      "cells h' (fst x) = None" "evolves (addrs (us @ [x])) h h'"
      using delete_by_value_found [of h p us x vs w] assms(1) by blast
    have "vals (us @ vs) = remove1 w (vals xs)" using xs by (simp add: remove1_append)
    moreover have "evolves (addrs xs) h h'" by (rule evolves_mono [OF h'(4)]) (auto simp: xs(1))
    moreover have "addrs (us @ vs) \<subseteq> addrs xs" "\<forall>a \<in> addrs xs - addrs (us @ vs). cells h' a = None"
      using xs(1) h'(3) by auto
    ultimately show ?thesis
      using implements_relink [of "ret (h', p')" h' p' "us @ vs"] h'(1,2) assms(2) xs(1)
      by (simp add: unless_empty_def)
  qed
qed

lemma delete_position_implements:
  assumes "is_list h p xs" and "hwf h" and "int (length xs) \<le> INT_MAX" and "0 \<le> k" and "k \<le> INT_MAX"
  shows "implements 0 h xs (exec_op (DeletePosition k) (h, p)) (spec_op (DeletePosition k) (vals xs))"
proof (cases "nat k < length xs")
  case True
  let ?us = "take (nat k) xs" and ?x = "xs ! nat k" and ?vs = "drop (Suc (nat k)) xs"
  have xs: "xs = ?us @ ?x # ?vs" by (rule id_take_nth_drop [OF True])
  have k: "int (length ?us) = k" using True assms(4) by simp
  then obtain h' p' where h': "delete_by_position h p k = ret (h', p', [])"
    "is_list h' p' (drop_at (nat k) xs)" "cells h' (fst ?x) = None"
    "evolves (addrs (?us @ [?x])) h h'"
    using delete_by_position_found [of h p ?us ?x ?vs] assms(1,5) xs unfolding drop_at_def by auto
  have "evolves (addrs xs) h h'" by (rule evolves_mono [OF h'(4)]) (subst (3) xs, auto)
  then show ?thesis
    using implements_relink [of "ret (h', p')" h' p' "drop_at (nat k) xs"] h'(1,2) assms(2)
      drop_at_freed [of "nat k" xs h'] h'(3) True drop_at_subset [of "nat k" xs]
    by (simp add: drop_at_map image_mono)
next
  case False
  have "drop_at (nat k) xs = xs" using False by (simp add: drop_at_def)
  moreover have "exec_op (DeletePosition k) (h, p) = ret (h, p)"
  proof (cases "xs = []")
    case True
    then show ?thesis using assms(1) by (simp add: delete_by_position_def is_list_def)
  next
    case False
    have "int (length xs) \<le> k \<or> k < 0" "in_int k" "in_int (k - int (length xs))"
      using \<open>\<not> nat k < length xs\<close> assms(3-5) by (auto simp: in_int_def INT_MIN_def INT_MAX_def)
    then show ?thesis using delete_by_position_off [OF assms(1) False] by simp
  qed
  ultimately show ?thesis
    using implements_relink [of "ret (h, p)" h p xs] assms(1,2) by (simp add: drop_at_map [symmetric])
qed

lemma delete_alternate_implements:
  assumes "is_list h p xs" and "hwf h"
  shows "implements 0 h xs (exec_op DeleteAlternate (h, p)) (spec_op DeleteAlternate (vals xs))"
proof (cases "xs = []")
  case True
  then show ?thesis using assms(1) by (simp add: unless_empty_def delete_alternate_def is_list_def)
next
  case False
  obtain h' os where "delete_alternate h p = ret (h', os)" "is_list h' p (alternates xs)"
    "evolves (addrs xs) h h'" "\<forall>a \<in> addrs xs - addrs (alternates xs). cells h' a = None"
    using delete_alternate_spec [OF assms(1) False] by blast
  then show ?thesis
    using implements_relink [of "ret (h', p)" h' p "alternates xs"] assms(2) False
      set_alternates [of xs]
    by (simp add: unless_empty_def map_alternates image_mono)
qed

lemma delete_middle_implements:
  assumes "is_list h p xs" and "hwf h"
  shows "implements 0 h xs (exec_op DeleteMiddle (h, p)) (spec_op DeleteMiddle (vals xs))"
proof -
  consider "xs = []" | x where "xs = [x]" | "2 \<le> length xs" by (cases xs; cases "tl xs") auto
  then show ?thesis
  proof cases
    case 1
    then show ?thesis using assms(1)
      by (simp add: delete_middle_def search_middle_ptr_def is_list_def find_before.simps)
  next
    case 2
    then show ?thesis using delete_middle_single [of h p x] assms(1) by auto
  next
    case 3
    let ?k = "length xs div 2"
    have k: "?k < length xs" using 3 by auto
    obtain m h' where "search_middle_ptr h p = ret m" "delete_middle h p m = ret h'"
      "is_list h' p (drop_at ?k xs)" "cells h' (fst (xs ! ?k)) = None" "evolves (addrs xs) h h'"
      using delete_middle_spec [OF assms(1) 3] unfolding drop_at_def by blast
    then show ?thesis
      using implements_relink [of "ret (h', p)" h' p "drop_at ?k xs"] assms(2) 3
        drop_at_freed [OF k, of h'] drop_at_subset [of ?k xs]
      by (simp add: drop_at_map image_mono)
  qed
qed

lemma delete_duplicate_implements:
  assumes "is_list h p xs" and "hwf h"
  shows "implements 0 h xs (exec_op DeleteDuplicate (h, p)) (spec_op DeleteDuplicate (vals xs))"
proof (cases "xs = []")
  case True
  then show ?thesis using assms(1)
    by (simp add: unless_empty_def delete_duplicate_def is_list_def dedup_loop.simps)
next
  case False
  obtain h' where "delete_duplicate h p = ret h'" "is_list h' p (dedup_adj xs)"
    "evolves (addrs xs) h h'" "\<forall>a \<in> addrs xs - addrs (dedup_adj xs). cells h' a = None"
    using delete_duplicate_spec [OF assms(1) False] by blast
  then show ?thesis
    using implements_relink [of "ret (h', p)" h' p "dedup_adj xs"] assms(2) False
      set_dedup_adj [of xs]
    by (simp add: unless_empty_def vals_dedup_adj image_mono)
qed

section \<open>Sequences of operations\<close>

text \<open>
  What the sequencing argument needs of the operations: one step on the heap implements one step
  on the values, and no step makes the list longer than the nodes it allocates.
\<close>

locale list_machine =
  fixes exec :: "'op \<Rightarrow> heap \<times> ptr \<Rightarrow> (heap \<times> ptr) cres"
    and spec :: "'op \<Rightarrow> int list \<Rightarrow> int list option"
    and cost :: "'op \<Rightarrow> nat"
    and ok :: "'op \<Rightarrow> bool"
  assumes step_implements: "is_list h p xs \<Longrightarrow> room (cost c) h \<Longrightarrow> int (length xs) \<le> INT_MAX \<Longrightarrow> ok c \<Longrightarrow>
      implements (cost c) h xs (exec c (h, p)) (spec c (vals xs))"
    and spec_length: "spec c vs = Some ws \<Longrightarrow> length ws \<le> length vs + cost c"
begin

abbreviation budget :: "'op list \<Rightarrow> nat" where
  "budget cs \<equiv> sum_list (map cost cs)"

lemma run_implements:
  assumes "is_list h p xs" and "room (budget cs) h" and "int (length xs + budget cs) \<le> INT_MAX"
    and "list_all ok cs"
  shows "implements (budget cs) h xs (for_each exec cs (h, p)) (spec_run spec cs (vals xs))"
  using assms
proof (induction cs arbitrary: h p xs)
  case Nil
  then show ?case by (auto simp: implements_def room_def)
next
  case (Cons c cs)
  have step: "implements (cost c) h xs (exec c (h, p)) (spec c (vals xs))"
    using Cons.prems by (intro step_implements) (auto simp: room_def)
  show ?case
  proof (cases "spec c (vals xs)")
    case None
    with step show ?thesis by simp
  next
    case (Some vs)
    with step obtain h1 p1 ys where h1: "exec c (h, p) = ret (h1, p1)" "is_list h1 p1 ys" "vals ys = vs"
      "hwf h1" "quota h \<le> quota h1 + cost c" "owns h xs h1 ys" by (auto simp: implements_def)
    have "length ys \<le> length xs + cost c" using spec_length [OF Some] h1(3) by auto
    with Cons.prems h1(4,5) have "room (budget cs) h1" "int (length ys + budget cs) \<le> INT_MAX"
      by (auto simp: room_def)
    from Cons.IH [OF h1(2) this] Cons.prems(4) h1(3) have
      rest: "implements (budget cs) h1 ys (for_each exec cs (h1, p1)) (spec_run spec cs vs)" by simp
    have "implements (budget (c # cs)) h xs (for_each exec cs (h1, p1)) (spec_run spec cs vs)"
      using rest h1(5) owns_trans [OF h1(6)] by (fastforce simp: implements_def split: option.splits)
    then show ?thesis using h1(1) Some by simp
  qed
qed

end

lemma length_insert_behind: "length (insert_behind w v vs) \<le> Suc (length vs)"
  by (induction vs) auto

lemma spec_op_length: "spec_op c vs = Some ws \<Longrightarrow> length ws \<le> length vs + op_cost c"
  using length_insert_behind
  by (cases c) (auto simp: unless_empty_def drop_at_def length_alternates length_remove1
      remdups_adj_length split: if_splits)

lemmas op_implements = append_implements insert_head_implements insert_after_implements
  insert_middle_implements reverse_implements move_tail_implements delete_value_implements
  delete_position_implements delete_alternate_implements delete_middle_implements
  delete_duplicate_implements

interpretation lm: list_machine exec_op spec_op op_cost op_ok
proof
  fix h p xs c
  assume "is_list h p xs" "room (op_cost c) h" "int (length xs) \<le> INT_MAX" "op_ok c"
  then show "implements (op_cost c) h xs (exec_op c (h, p)) (spec_op c (vals xs))"
    by (cases c) (simp_all only: op_cost.simps op_ok.simps op_implements room_def)
qed (rule spec_op_length)

section \<open>Properties\<close>

text \<open>
  C4: The list operations implement lists of integers. For every sequence of operations, on a
  list and a heap with room for the nodes the sequence allocates: when the specification is defined
  all along, the programs' code returns, the list it leaves holds the specified values, every node
  that left the list is freed, and no block outside the list changes; where the specification is
  not defined (an operation that needs a node the list does not have), the code dereferences the
  null pointer.
\<close>

theorem list_operations_refine:
  assumes "is_list h p xs" and "room (sum_list (map op_cost cs)) h"
    and "int (length xs + sum_list (map op_cost cs)) \<le> INT_MAX" and "list_all op_ok cs"
  shows "case spec_run spec_op cs (vals xs) of
      None \<Rightarrow> for_each exec_op cs (h, p) = fault NullDeref
    | Some vs \<Rightarrow> \<exists>h' p' ys. for_each exec_op cs (h, p) = ret (h', p') \<and> is_list h' p' ys
        \<and> vals ys = vs \<and> hwf h' \<and> owns h xs h' ys"
  using lm.run_implements [OF assms] unfolding implements_def
  by (auto split: option.splits)

theorem list_operations_refine_witness:
  "(\<exists>h' p' ys. for_each exec_op [Reverse, Append 7, DeleteValue 3, MoveTail]
       (heap_of 1 [(8, 3), (40, 5)], Ptr 8) = ret (h', p') \<and> is_list h' p' ys \<and> vals ys = [7, 5])
   \<and> for_each exec_op [DeleteValue 3, DeleteMiddle] (heap_of 1 [(8, 3), (40, 5)], Ptr 8)
       = fault NullDeref"
proof
  have l: "is_list (heap_of 1 [(8, 3), (40, 5)]) (Ptr 8) [(8, 3), (40, 5)]"
    and r: "hwf (heap_of 1 [(8, 3), (40, 5)])" "quota (heap_of 1 [(8, 3), (40, 5)]) = 1"
    using heap_of_list [of "[(8, 3), (40, 5)]" 1] by simp_all
  have "spec_run spec_op [Reverse, Append 7, DeleteValue 3, MoveTail] (vals [(8 :: nat, 3), (40, 5)])
      = Some [7, 5]" by (simp add: unless_empty_def)
  with list_operations_refine [OF l, of "[Reverse, Append 7, DeleteValue 3, MoveTail]"] r
  show "\<exists>h' p' ys. for_each exec_op [Reverse, Append 7, DeleteValue 3, MoveTail]
       (heap_of 1 [(8, 3), (40, 5)], Ptr 8) = ret (h', p') \<and> is_list h' p' ys \<and> vals ys = [7, 5]"
    by (simp add: room_def INT_MAX_def del: for_each.simps) metis
  have "spec_run spec_op [DeleteValue 3, DeleteMiddle] (vals [(8 :: nat, 3), (40, 5)]) = None"
    by (simp add: unless_empty_def)
  with list_operations_refine [OF l, of "[DeleteValue 3, DeleteMiddle]"] r
  show "for_each exec_op [DeleteValue 3, DeleteMiddle] (heap_of 1 [(8, 3), (40, 5)], Ptr 8)
       = fault NullDeref"
    by (simp add: room_def INT_MAX_def del: for_each.simps)
qed

end
