(* ===== verification/Hash_Dedup.thy ===== *)
theory Hash_Dedup
  imports List_Basic
begin

text \<open>
  \<^verbatim>\<open>delete_duplicate_in_unsorted_using_hash.c\<close>: a table of 20 slots indexed by the value modulo
  20, without collision handling, and the deletion of duplicates that uses it as a set.

  A table whose \<^verbatim>\<open>value\<close> and \<^verbatim>\<open>mark\<close> fields are two ints per slot is the list of its slots; the
  global \<^verbatim>\<open>size_used\<close> is kept beside it. Values that the table cannot index fault.
\<close>

section \<open>The table\<close>

definition CAPACITY :: int where "CAPACITY = 20"

record hash_item =
  value_h :: int
  mark :: int

record table =
  items :: "hash_item list"
  size_used :: int

definition hash_func :: "int \<Rightarrow> int cres" where
  "hash_func key = c_mod key CAPACITY"

text \<open>The table is one more heap block; an allocation that fails is written through.\<close>

definition init_table :: "heap \<Rightarrow> (heap \<times> table) cres" where
  "init_table h =
     (let (p, h) = malloc (8 * nat CAPACITY) h in
      if p = NULL then fault NullDeref
      else ret (h, \<lparr>items = replicate (nat CAPACITY) \<lparr>value_h = 0, mark = 0\<rparr>, size_used = 0\<rparr>))"

definition display_table :: "table \<Rightarrow> out list cres" where
  "display_table tb =
     for_up 0 CAPACITY (\<lambda>i os. bnd (rd (items tb) i) (\<lambda>s.
       ret (os @ [OStr ''['', OInt i, OStr ''] value='', OInt (value_h s), OStr '', mark='',
                  OInt (mark s), newline])))
       [newline, OStr ''Current hash table:'', newline]"

definition insert_item :: "table \<Rightarrow> int \<Rightarrow> (table \<times> out list) cres" where
  "insert_item tb v =
     bnd (hash_func v) (\<lambda>key.
       if size_used tb > CAPACITY then ret (tb, [OStr ''No space...'', newline])
       else bnd (rd (items tb) key) (\<lambda>s.
         if mark s = 0
         then bnd (wr (items tb) key \<lparr>value_h = v, mark = 1\<rparr>) (\<lambda>its.
              bnd (ck (size_used tb + 1)) (\<lambda>n. ret (\<lparr>items = its, size_used = n\<rparr>, [])))
         else ret (tb, [])))"

definition remove_item :: "table \<Rightarrow> int \<Rightarrow> (table \<times> out list) cres" where
  "remove_item tb v =
     bnd (hash_func v) (\<lambda>key.
     bnd (rd (items tb) key) (\<lambda>s.
       if mark s = 0
       then ret (tb, [OStr ''Fail to remove item: value='', OInt v, OStr '' does not exist'', newline])
       else if value_h s = v
       then bnd (wr (items tb) key \<lparr>value_h = 0, mark = 0\<rparr>) (\<lambda>its.
            bnd (ck (size_used tb - 1)) (\<lambda>n.
              ret (\<lparr>items = its, size_used = n\<rparr>,
                   [OStr ''Success to remove item: value='', OInt v, OStr '' at key:'', OInt key,
                    newline])))
       else ret (tb, [])))"

definition find_item :: "table \<Rightarrow> int \<Rightarrow> int cres" where
  "find_item tb v =
     bnd (hash_func v) (\<lambda>key. bnd (rd (items tb) key) (\<lambda>s. ret (if mark s = 0 then 0 else 1)))"

section \<open>Deleting duplicates\<close>

partial_function (option) hash_loop ::
    "heap \<Rightarrow> table \<Rightarrow> ptr \<Rightarrow> out list \<Rightarrow> (heap \<times> table \<times> out list) cres" where
  "hash_loop h tb current os =
     bnd (load_next h current) (\<lambda>n.
       if n = NULL then ret (h, tb, os)
       else bnd (load_value h n) (\<lambda>v.
         bnd (find_item tb v) (\<lambda>r.
           if r \<noteq> 0 then bnd (unlink h current n) (\<lambda>h. hash_loop h tb current os)
           else bnd (insert_item tb v) (\<lambda>(tb, o1). hash_loop h tb n (os @ o1)))))"

definition delete_duplicate_using_hash ::
    "heap \<Rightarrow> ptr \<Rightarrow> table \<Rightarrow> (heap \<times> table \<times> out list) cres" where
  "delete_duplicate_using_hash h head tb =
     (if head = NULL then ret (h, tb, [])
      else bnd (load_value h head) (\<lambda>v.
           bnd (insert_item tb v) (\<lambda>(tb, os). hash_loop h tb head os)))"

definition delete_duplicate_hash_main :: "heap \<Rightarrow> out list cres" where
  "delete_duplicate_hash_main h =
     bnd (init_table h) (\<lambda>(h, tb).
     bnd (for_each (\<lambda>v (h, head). append_c h head v) [5, 5, 6] (h, NULL)) (\<lambda>s.
     bnd (for_up 5 10 (\<lambda>i (h, head). append_c h head i) s) (\<lambda>s.
     bnd (for_each (\<lambda>v (h, head). append_c h head v) [10, 10, 6, 11, 12, 13, 13] s) (\<lambda>(h, head).
     bnd (print_list h head) (\<lambda>os1.
     bnd (delete_duplicate_using_hash h head tb) (\<lambda>(h, tb, os2).
     bnd (display_table tb) (\<lambda>os3.
     bnd (print_list h head) (\<lambda>os4.
       ret ([newline, OStr ''Current unsorted list is :'', newline] @ os1 @ os2 @ os3 @
            [newline, OStr ''After delete duplicate:'', newline] @ os4)))))))))"

section \<open>Invariant of the table\<close>

text \<open>The occupied slots, and the number of values the table can be asked to hold.\<close>

definition occupied :: "table \<Rightarrow> nat set" where
  "occupied tb = {k. k < length (items tb) \<and> mark (items tb ! k) \<noteq> 0}"

text \<open>The set a table stands for.\<close>

definition stored :: "table \<Rightarrow> int set" where
  "stored tb = (\<lambda>k. value_h (items tb ! k)) ` occupied tb"

definition table_inv :: "table \<Rightarrow> bool" where
  "table_inv tb \<longleftrightarrow>
     length (items tb) = nat CAPACITY \<and> size_used tb = int (card (occupied tb))
     \<and> (\<forall>k \<in> occupied tb. 0 \<le> value_h (items tb ! k) \<and> nat (value_h (items tb ! k) mod CAPACITY) = k)"

definition slot :: "int \<Rightarrow> nat" where
  "slot v = nat (v mod CAPACITY)"

lemma slot_less [simp]: "slot v < 20"
  by (simp add: slot_def CAPACITY_def nat_less_iff)

lemma int_slot: "int (slot v) = v mod CAPACITY"
  by (simp add: slot_def CAPACITY_def)

lemma hash_func_pos: "0 \<le> v \<Longrightarrow> in_int v \<Longrightarrow> hash_func v = ret (int (slot v))"
proof -
  assume v: "0 \<le> v" "in_int v"
  then have "in_int (v div CAPACITY)"
    by (rule_tac in_int_mono [of v]) (auto simp: CAPACITY_def)
  with v show ?thesis
    by (simp add: hash_func_def c_mod_def smod_pos sdiv_pos CAPACITY_def int_slot)
qed

lemma occupied_finite [simp]: "finite (occupied tb)"
  by (simp add: occupied_def)

lemma table_inv_slots: "table_inv tb \<Longrightarrow> occupied tb \<subseteq> {..<20}"
  by (auto simp: table_inv_def occupied_def CAPACITY_def)

lemma table_inv_size:
  assumes "table_inv tb"
  shows "0 \<le> size_used tb" and "size_used tb \<le> CAPACITY"
proof -
  have "card (occupied tb) \<le> card {..<20 :: nat}"
    by (rule card_mono [OF _ table_inv_slots [OF assms]]) simp
  then show "0 \<le> size_used tb" "size_used tb \<le> CAPACITY"
    using assms by (auto simp: table_inv_def CAPACITY_def)
qed

lemma init_table_ret:
  "0 < quota h \<Longrightarrow> \<exists>h' tb. init_table h = ret (h', tb) \<and> table_inv tb \<and> occupied tb = {}"
  by (auto simp: init_table_def malloc_def table_inv_def occupied_def)

lemma find_item_ret:
  assumes "table_inv tb" and "0 \<le> v" and "in_int v"
  shows "find_item tb v = ret (if slot v \<in> occupied tb then 1 else 0)"
proof -
  have "slot v < length (items tb)" using assms(1) by (simp add: table_inv_def CAPACITY_def)
  then show ?thesis
    using hash_func_pos [OF assms(2,3)] by (simp add: find_item_def occupied_def rd_def)
qed

lemma occupied_upd:
  "k < length its \<Longrightarrow> m \<noteq> 0 \<Longrightarrow>
     occupied \<lparr>items = its[k := \<lparr>value_h = v, mark = m\<rparr>], size_used = n\<rparr> =
       insert k (occupied \<lparr>items = its, size_used = n'\<rparr>)"
  by (auto simp: occupied_def nth_list_update)

lemma occupied_clear:
  "k < length its \<Longrightarrow>
     occupied \<lparr>items = its[k := \<lparr>value_h = v, mark = 0\<rparr>], size_used = n\<rparr> =
       occupied \<lparr>items = its, size_used = n'\<rparr> - {k}"
  by (auto simp: occupied_def nth_list_update)

lemma stored_upd:
  assumes "k < length its" and "k \<notin> occupied \<lparr>items = its, size_used = n'\<rparr>" and "m \<noteq> 0"
  shows "stored \<lparr>items = its[k := \<lparr>value_h = v, mark = m\<rparr>], size_used = n\<rparr> =
    insert v (stored \<lparr>items = its, size_used = n'\<rparr>)"
proof -
  have "its[k := \<lparr>value_h = v, mark = m\<rparr>] ! a = its ! a" if "a \<in> occupied \<lparr>items = its, size_used = n'\<rparr>" for a
    using that assms(2) by (metis nth_list_update_neq)
  then show ?thesis
    using assms(1) by (simp add: stored_def occupied_upd [OF assms(1,3), where n' = n'])
qed

lemma stored_clear:
  assumes "k < length its"
  shows "stored \<lparr>items = its[k := \<lparr>value_h = v, mark = 0\<rparr>], size_used = n\<rparr> =
    (\<lambda>a. value_h (its ! a)) ` (occupied \<lparr>items = its, size_used = n'\<rparr> - {k})"
  by (simp add: stored_def occupied_clear [OF assms, where n' = n'])

lemma occupied_items: "items tb = items tb' \<Longrightarrow> occupied tb = occupied tb'"
  by (simp add: occupied_def)

lemma stored_items: "items tb = items tb' \<Longrightarrow> stored tb = stored tb'"
  using occupied_items [of tb tb'] by (simp add: stored_def)

lemma stored_slot:
  assumes "table_inv tb"
  shows "v \<in> stored tb \<longleftrightarrow> slot v \<in> occupied tb \<and> value_h (items tb ! slot v) = v"
  using assms by (force simp: stored_def table_inv_def slot_def)

text \<open>Inserting marks the slot of the value, prints nothing, and keeps the invariant.\<close>

lemma insert_item_ret:
  assumes inv: "table_inv tb" and v: "0 \<le> v" "in_int v"
  shows "\<exists>tb'. insert_item tb v = ret (tb', []) \<and> table_inv tb'
    \<and> occupied tb' = insert (slot v) (occupied tb)
    \<and> stored tb' = (if slot v \<in> occupied tb then stored tb else insert v (stored tb))"
proof -
  have len: "slot v < length (items tb)" using inv by (simp add: table_inv_def CAPACITY_def)
  note size = table_inv_size [OF inv]
  then have ck: "ck (size_used tb + 1) = ret (size_used tb + 1)"
    by (simp add: CAPACITY_def int_range_defs)
  show ?thesis
  proof (cases "slot v \<in> occupied tb")
    case True
    with len have "insert_item tb v = ret (tb, [])"
      using hash_func_pos [OF v] size by (simp add: insert_item_def occupied_def rd_def)
    with True inv show ?thesis by (auto simp: insert_absorb)
  next
    case False
    let ?tb = "\<lparr>items = (items tb)[slot v := \<lparr>value_h = v, mark = 1\<rparr>], size_used = size_used tb + 1\<rparr>"
    have "insert_item tb v = ret (?tb, [])"
      using hash_func_pos [OF v] size ck len False
      by (simp add: insert_item_def occupied_def rd_def wr_def)
    moreover have occ: "occupied ?tb = insert (slot v) (occupied tb)"
      using occupied_upd [OF len, of 1] occupied_items [of tb "\<lparr>items = items tb, size_used = 0\<rparr>"]
      by simp
    moreover have "stored ?tb = insert v (stored tb)"
      using stored_upd [OF len, of 0 1] False stored_items [of tb "\<lparr>items = items tb, size_used = 0\<rparr>"]
        occupied_items [of tb "\<lparr>items = items tb, size_used = 0\<rparr>"] by simp
    moreover have "table_inv ?tb"
      using inv False len v(1) occ
      by (auto simp: table_inv_def nth_list_update slot_def)
    ultimately show ?thesis using False by auto
  qed
qed

text \<open>Removing frees the slot when it holds exactly this value.\<close>

lemma remove_item_ret:
  assumes inv: "table_inv tb" and v: "0 \<le> v" "in_int v"
    and stored: "slot v \<in> occupied tb" "value_h (items tb ! slot v) = v"
  shows "\<exists>tb'. remove_item tb v = ret (tb', [OStr ''Success to remove item: value='', OInt v,
      OStr '' at key:'', OInt (v mod CAPACITY), newline]) \<and> table_inv tb'
    \<and> occupied tb' = occupied tb - {slot v} \<and> stored tb' = stored tb - {v}"
proof -
  have len: "slot v < length (items tb)" using inv by (simp add: table_inv_def CAPACITY_def)
  note size = table_inv_size [OF inv]
  then have ck: "ck (size_used tb - 1) = ret (size_used tb - 1)"
    by (simp add: CAPACITY_def int_range_defs)
  let ?tb = "\<lparr>items = (items tb)[slot v := \<lparr>value_h = 0, mark = 0\<rparr>], size_used = size_used tb - 1\<rparr>"
  have "mark (items tb ! slot v) \<noteq> 0" using stored(1) by (simp add: occupied_def)
  then have "remove_item tb v = ret (?tb, [OStr ''Success to remove item: value='', OInt v,
      OStr '' at key:'', OInt (v mod CAPACITY), newline])"
    using hash_func_pos [OF v] ck len stored(2)
    by (simp add: remove_item_def rd_def wr_def int_slot [symmetric])
  moreover have occ: "occupied ?tb = occupied tb - {slot v}"
    using occupied_clear [OF len] occupied_items [of tb "\<lparr>items = items tb, size_used = 0\<rparr>"]
    by simp
  moreover have "Suc (card (occupied tb - {slot v})) = card (occupied tb)"
    using stored(1) by (intro card_Suc_Diff1) auto
  then have "size_used tb - 1 = int (card (occupied tb - {slot v}))"
    using inv unfolding table_inv_def by linarith
  then have "table_inv ?tb"
    using inv occ unfolding table_inv_def occ by auto
  moreover have "stored ?tb = stored tb - {v}"
  proof -
    have "inj_on (\<lambda>a. value_h (items tb ! a)) (occupied tb)"
      using inv by (intro inj_on_inverseI [of _ "\<lambda>v. nat (v mod CAPACITY)"]) (simp add: table_inv_def)
    from inj_on_image_set_diff [OF this, of "occupied tb" "{slot v}"] show ?thesis
      using stored_clear [OF len, of 0 "size_used tb - 1" 0] stored occupied_items [of tb "\<lparr>items = items tb, size_used = 0\<rparr>"]
      by (simp add: stored_def)
  qed
  ultimately show ?thesis by auto
qed

section \<open>What the deletion keeps\<close>

text \<open>The first node of every slot, in order.\<close>

fun keep_slots :: "nat set \<Rightarrow> chain \<Rightarrow> chain" where
  "keep_slots K [] = []"
| "keep_slots K (x # xs) =
     (if slot (snd x) \<in> K then keep_slots K xs
      else x # keep_slots (insert (slot (snd x)) K) xs)"

definition hashable :: "chain \<Rightarrow> bool" where
  "hashable xs \<longleftrightarrow> (\<forall>v \<in> set (vals xs). 0 \<le> v \<and> in_int v)"

lemma hash_loop_seg:
  "seg h (x # xs) NULL \<Longrightarrow> hashable xs \<Longrightarrow> table_inv tb \<Longrightarrow>
     \<exists>h' tb'. hash_loop h tb (Ptr (fst x)) os = ret (h', tb', os)
       \<and> seg h' (x # keep_slots (occupied tb) xs) NULL \<and> evolves (addrs (x # xs)) h h'
       \<and> table_inv tb' \<and> occupied tb' = occupied tb \<union> slot ` set (vals xs)"
proof (induction xs arbitrary: x h tb)
  case Nil
  then show ?case by (subst hash_loop.simps) (auto simp: heap_simps)
next
  case (Cons y xs)
  have c: "cell h (fst x) (snd x) (Ptr (fst y))" "cell h (fst y) (snd y) (hdp xs NULL)"
    and d: "fst x \<notin> addrs (y # xs)" and y: "0 \<le> snd y" "in_int (snd y)" "hashable xs"
    using Cons.prems seg_distinct [OF Cons.prems(1)] by (auto simp: hashable_def)
  note find = find_item_ret [OF Cons.prems(3) y(1,2)]
  show ?case
  proof (cases "slot (snd y) \<in> occupied tb")
    case True
    obtain h1 where h1: "unlink h (Ptr (fst x)) (Ptr (fst y)) = ret h1" "seg h1 (x # xs) NULL"
      "evolves {fst x, fst y} h h1" using unlink_spec [of h "[]" x y xs] Cons.prems by auto
    from Cons.IH [OF h1(2) y(3) Cons.prems(3)] obtain h' tb' where
      h': "hash_loop h1 tb (Ptr (fst x)) os = ret (h', tb', os)"
      "seg h' (x # keep_slots (occupied tb) xs) NULL" "evolves (addrs (x # xs)) h1 h'"
      "table_inv tb'" "occupied tb' = occupied tb \<union> slot ` set (vals xs)" by blast
    have "evolves (addrs (x # y # xs)) h h'" by (rule evolves_trans [OF h1(3) h'(3)]) auto
    moreover have "hash_loop h tb (Ptr (fst x)) os = ret (h', tb', os)"
      using cell_load [OF c(1)] cell_load [OF c(2)] h1(1) h'(1) True find
      by (subst hash_loop.simps) simp
    ultimately show ?thesis using h'(2,4,5) True by auto
  next
    case False
    from insert_item_ret [OF Cons.prems(3) y(1,2)] obtain tb1 where
      tb1: "insert_item tb (snd y) = ret (tb1, [])" "table_inv tb1"
      "occupied tb1 = insert (slot (snd y)) (occupied tb)" by blast
    have "seg h (y # xs) NULL" using Cons.prems by simp
    from Cons.IH [OF this y(3) tb1(2)] obtain h' tb' where
      h': "hash_loop h tb1 (Ptr (fst y)) os = ret (h', tb', os)"
      "seg h' (y # keep_slots (occupied tb1) xs) NULL" "evolves (addrs (y # xs)) h h'"
      "table_inv tb'" "occupied tb' = occupied tb1 \<union> slot ` set (vals xs)" by blast
    have "cell h' (fst x) (snd x) (Ptr (fst y))" using evolves_cell [OF h'(3) d] c(1) by simp
    moreover have "evolves (addrs (x # y # xs)) h h'" by (rule evolves_mono [OF h'(3)]) auto
    moreover have "hash_loop h tb (Ptr (fst x)) os = ret (h', tb', os)"
      using cell_load [OF c(1)] cell_load [OF c(2)] h'(1) tb1(1) False find
      by (subst hash_loop.simps) simp
    ultimately show ?thesis using h'(2,4,5) tb1(3) False by auto
  qed
qed

lemma delete_duplicate_hash_run:
  assumes "is_list h p xs" and "hashable xs" and "table_inv tb" and "occupied tb = {}"
  shows "\<exists>h' tb'. delete_duplicate_using_hash h p tb = ret (h', tb', [])
    \<and> is_list h' p (keep_slots {} xs) \<and> evolves (addrs xs) h h'
    \<and> table_inv tb' \<and> occupied tb' = slot ` set (vals xs)"
proof (cases xs)
  case Nil
  with assms show ?thesis by (simp add: delete_duplicate_using_hash_def is_list_def)
next
  case (Cons x ys)
  with assms have x: "0 \<le> snd x" "in_int (snd x)" "hashable ys" "seg h (x # ys) NULL"
    "p = Ptr (fst x)" "cell h (fst x) (snd x) (hdp ys NULL)"
    by (auto simp: hashable_def is_list_def)
  from insert_item_ret [OF assms(3) x(1,2)] obtain tb1 where
    tb1: "insert_item tb (snd x) = ret (tb1, [])" "table_inv tb1"
    "occupied tb1 = {slot (snd x)}" using assms(4) by auto
  from hash_loop_seg [OF x(4,3) tb1(2), of "[]"] obtain h' tb' where
    h': "hash_loop h tb1 (Ptr (fst x)) [] = ret (h', tb', [])"
    "seg h' (x # keep_slots {slot (snd x)} ys) NULL" "evolves (addrs (x # ys)) h h'"
    "table_inv tb'" "occupied tb' = insert (slot (snd x)) (slot ` set (vals ys))"
    using tb1(3) by auto
  then show ?thesis
    using Cons x(5) tb1(1) cell_load [OF x(6)]
    by (auto simp: delete_duplicate_using_hash_def is_list_def)
qed

lemma keep_slots_mem:
  "v \<in> set (vals (keep_slots K xs)) \<Longrightarrow> v \<in> set (vals xs) \<and> slot v \<notin> K"
  by (induction xs arbitrary: K) (auto split: if_splits)

lemma keep_slots_distinct: "distinct (map slot (vals (keep_slots K xs)))"
proof (induction xs arbitrary: K)
  case (Cons x xs)
  then show ?case
    using keep_slots_mem [of _ "insert (slot (snd x)) K" xs] by force
qed simp

lemma keep_slots_slots: "slot ` set (vals (keep_slots K xs)) = slot ` set (vals xs) - K"
  by (induction xs arbitrary: K) auto

text \<open>Values that no two slots share: nothing but duplicates is lost.\<close>

lemma keep_slots_inj:
  assumes "inj_on slot (set (vals xs))"
  shows "set (vals (keep_slots {} xs)) = set (vals xs)" and "distinct (vals (keep_slots {} xs))"
proof -
  have sub: "set (vals (keep_slots {} xs)) \<subseteq> set (vals xs)" using keep_slots_mem by blast
  show "set (vals (keep_slots {} xs)) = set (vals xs)"
    using inj_on_image_eq_iff [OF assms sub subset_refl] keep_slots_slots [of "{}" xs] by simp
  show "distinct (vals (keep_slots {} xs))"
    using keep_slots_distinct [of "{}" xs] by (simp add: distinct_map del: map_map)
qed

lemma slot_inj: "inj_on slot {0..<20}"
proof (rule inj_onI)
  fix v w :: int
  assume "v \<in> {0..<20}" "w \<in> {0..<20}" "slot v = slot w"
  then show "v = w" by (auto simp: slot_def CAPACITY_def)
qed

text \<open>A negative value that is no multiple of 20 has a negative remainder.\<close>

lemma insert_item_negative:
  assumes "v < 0" and "in_int v" and "\<not> 20 dvd v" and "table_inv tb"
  shows "insert_item tb v = fault OutOfBounds"
proof -
  have "v smod 20 < 0"
    using assms(1,3) by (auto simp: signed_modulo_int_def sgn_if) presburger
  moreover have "in_int (v sdiv 20)"
    using assms(1,2) by (auto simp: signed_divide_int_def sgn_if int_range_defs)
  ultimately show ?thesis
    using table_inv_size [OF assms(4)]
    by (simp add: insert_item_def hash_func_def c_mod_def CAPACITY_def rd_def)
qed

section \<open>The table as a set of values\<close>

text \<open>
  What a program that uses the table expects of it: the operations on a set of ints, with the lines
  that \<^verbatim>\<open>remove_item\<close> prints and the answer of \<^verbatim>\<open>find_item\<close>.
\<close>

datatype table_op = TInsert int | TRemove int | TFind int

fun op_value :: "table_op \<Rightarrow> int" where
  "op_value (TInsert v) = v"
| "op_value (TRemove v) = v"
| "op_value (TFind v) = v"

fun table_step :: "table_op \<Rightarrow> table \<Rightarrow> (table \<times> out list) cres" where
  "table_step (TInsert v) tb = insert_item tb v"
| "table_step (TRemove v) tb = remove_item tb v"
| "table_step (TFind v) tb = bnd (find_item tb v) (\<lambda>r. ret (tb, [OInt r]))"

fun set_step :: "table_op \<Rightarrow> int set \<Rightarrow> int set \<times> out list" where
  "set_step (TInsert v) S = (insert v S, [])"
| "set_step (TRemove v) S =
     (S - {v}, if v \<in> S
        then [OStr ''Success to remove item: value='', OInt v, OStr '' at key:'', OInt (v mod 20), newline]
        else [OStr ''Fail to remove item: value='', OInt v, OStr '' does not exist'', newline])"
| "set_step (TFind v) S = (S, [OInt (if v \<in> S then 1 else 0)])"

fun table_run :: "table_op list \<Rightarrow> table \<Rightarrow> (table \<times> out list) cres" where
  "table_run [] tb = ret (tb, [])"
| "table_run (a # as) tb =
     bnd (table_step a tb) (\<lambda>(tb, o1). bnd (table_run as tb) (\<lambda>(tb, o2). ret (tb, o1 @ o2)))"

fun set_run :: "table_op list \<Rightarrow> int set \<Rightarrow> int set \<times> out list" where
  "set_run [] S = (S, [])"
| "set_run (a # as) S = (let (S, o1) = set_step a S; (S, o2) = set_run as S in (S, o1 @ o2))"

definition usable :: "int set \<Rightarrow> bool" where
  "usable V \<longleftrightarrow> (\<forall>v \<in> V. 0 \<le> v \<and> in_int v)"

lemma occupied_slot:
  assumes "table_inv tb" and "inj_on slot V" and "stored tb \<subseteq> V" and "v \<in> V"
  shows "slot v \<in> occupied tb \<longleftrightarrow> v \<in> stored tb"
proof
  assume k: "slot v \<in> occupied tb"
  let ?w = "value_h (items tb ! slot v)"
  have "?w \<in> stored tb" using k by (auto simp: stored_def)
  moreover have "slot ?w = slot v" using k assms(1) by (simp add: table_inv_def slot_def)
  ultimately have "?w = v" using assms(2-4) by (auto dest: inj_onD)
  with \<open>?w \<in> stored tb\<close> show "v \<in> stored tb" by simp
qed (simp add: stored_slot [OF assms(1)])

lemma remove_item_free:
  assumes "table_inv tb" and "0 \<le> v" and "in_int v" and "slot v \<notin> occupied tb"
  shows "remove_item tb v =
    ret (tb, [OStr ''Fail to remove item: value='', OInt v, OStr '' does not exist'', newline])"
proof -
  have "slot v < length (items tb)" using assms(1) by (simp add: table_inv_def CAPACITY_def)
  then show ?thesis
    using hash_func_pos [OF assms(2,3)] assms(4) by (simp add: remove_item_def occupied_def rd_def)
qed

text \<open>One operation, and a sequence, on values of which no two share a slot.\<close>

lemma table_step_set:
  assumes "table_inv tb" and "inj_on slot V" and "usable V" and "stored tb \<subseteq> V" and "op_value a \<in> V"
  shows "\<exists>tb'. table_step a tb = ret (tb', snd (set_step a (stored tb))) \<and> table_inv tb'
    \<and> stored tb' = fst (set_step a (stored tb)) \<and> stored tb' \<subseteq> V"
proof -
  note occ = occupied_slot [OF assms(1,2,4,5)]
  have v: "0 \<le> op_value a" "in_int (op_value a)" using assms(3,5) by (auto simp: usable_def)
  show ?thesis
  proof (cases a)
    case (TInsert v)
    then show ?thesis
      using insert_item_ret [OF assms(1) v] occ assms(4,5) by (auto simp: insert_absorb)
  next
    case (TRemove v)
    show ?thesis
    proof (cases "v \<in> stored tb")
      case True
      then show ?thesis
        using remove_item_ret [OF assms(1) v] TRemove assms(4) stored_slot [OF assms(1), of v]
        by (auto simp: CAPACITY_def)
    next
      case False
      then show ?thesis
        using remove_item_free [OF assms(1) v] TRemove assms(1,4) occ by simp
    qed
  next
    case (TFind v)
    then show ?thesis using find_item_ret [OF assms(1) v] occ assms(1,4) by simp
  qed
qed

lemma table_run_set:
  "table_inv tb \<Longrightarrow> inj_on slot V \<Longrightarrow> usable V \<Longrightarrow> stored tb \<subseteq> V \<Longrightarrow> op_value ` set as \<subseteq> V \<Longrightarrow>
     \<exists>tb'. table_run as tb = ret (tb', snd (set_run as (stored tb))) \<and> table_inv tb'
       \<and> stored tb' = fst (set_run as (stored tb))"
proof (induction as arbitrary: tb)
  case (Cons a as)
  have "op_value a \<in> V" using Cons.prems(5) by simp
  from table_step_set [OF Cons.prems(1-4) this] obtain tb1 where
    tb1: "table_step a tb = ret (tb1, snd (set_step a (stored tb)))" "table_inv tb1"
    "stored tb1 = fst (set_step a (stored tb))" "stored tb1 \<subseteq> V" by blast
  moreover from Cons.IH [OF tb1(2) Cons.prems(2,3) tb1(4)] Cons.prems(5) obtain tb2 where
    "table_run as tb1 = ret (tb2, snd (set_run as (stored tb1)))" "table_inv tb2"
    "stored tb2 = fst (set_run as (stored tb1))" by auto
  ultimately show ?case by (simp add: split_beta Let_def)
qed simp

text \<open>Two values in one slot: the second is found although it was never inserted.\<close>

lemma table_run_collision:
  assumes "table_inv tb" and "occupied tb = {}" and "usable {v, w}" and "slot v = slot w"
  shows "\<exists>tb'. table_run [TInsert v, TFind w] tb = ret (tb', [OInt 1])"
proof -
  have vw: "0 \<le> v" "in_int v" "0 \<le> w" "in_int w" using assms(3) by (auto simp: usable_def)
  obtain tb' where "insert_item tb v = ret (tb', [])" "table_inv tb'" "slot v \<in> occupied tb'"
    using insert_item_ret [OF assms(1) vw(1,2)] by auto
  then show ?thesis using find_item_ret [OF _ vw(3,4), of tb'] assms(4) by simp
qed

section \<open>Properties\<close>



text \<open>
  C12: With a new table and values that are not negative, the deletion returns; the first node is kept,
  no two kept nodes share a slot, every slot that occurred is still represented. Exactly the
  duplicates are gone if and only if no two different values have the same remainder modulo 20;
  values between 0 and 19 never have.
\<close>

theorem delete_duplicate_hash_correct:
  assumes "is_list h p xs" and "hashable xs" and "table_inv tb" and "occupied tb = {}"
  shows "\<exists>h' tb' ys. delete_duplicate_using_hash h p tb = ret (h', tb', []) \<and> is_list h' p ys
    \<and> evolves (addrs xs) h h' \<and> table_inv tb'
    \<and> distinct (map slot (vals ys)) \<and> slot ` set (vals ys) = slot ` set (vals xs)
    \<and> (distinct (vals ys) \<and> set (vals ys) = set (vals xs) \<longleftrightarrow> inj_on slot (set (vals xs)))
    \<and> (set (vals xs) \<subseteq> {0..<20} \<longrightarrow> inj_on slot (set (vals xs)))"
proof -
  obtain h' tb' where h': "delete_duplicate_using_hash h p tb = ret (h', tb', [])"
    "is_list h' p (keep_slots {} xs)" "evolves (addrs xs) h h'" "table_inv tb'"
    using delete_duplicate_hash_run [OF assms] by blast
  have d: "distinct (map slot (vals (keep_slots {} xs)))" by (rule keep_slots_distinct)
  then have "inj_on slot (set (vals (keep_slots {} xs)))" by (simp add: distinct_map del: map_map)
  then have "distinct (vals (keep_slots {} xs)) \<and> set (vals (keep_slots {} xs)) = set (vals xs)
      \<longleftrightarrow> inj_on slot (set (vals xs))" using keep_slots_inj [of xs] by metis
  moreover have "set (vals xs) \<subseteq> {0..<20} \<longrightarrow> inj_on slot (set (vals xs))"
    using inj_on_subset [OF slot_inj] by blast
  moreover note d
  moreover have "slot ` set (vals (keep_slots {} xs)) = slot ` set (vals xs)"
    using keep_slots_slots [of "{}" xs] by simp
  ultimately show ?thesis
    using h' by (intro exI [of _ h'] exI [of _ tb'] exI [of _ "keep_slots {} xs"]) blast
qed

theorem delete_duplicate_hash_correct_witness:
  "\<exists>h1 tb h' tb' ys. init_table (empty_heap 1 8) = ret (h1, tb)
     \<and> delete_duplicate_using_hash (heap_of 0 [(8, 3), (40, 5), (48, 3)]) (Ptr 8) tb = ret (h', tb', [])
     \<and> is_list h' (Ptr 8) ys \<and> distinct (vals ys) \<and> set (vals ys) = {3, 5}"
proof -
  let ?xs = "[(8, 3), (40, 5), (48, 3)] :: chain"
  obtain h1 tb where tb: "init_table (empty_heap 1 8) = ret (h1, tb)" "table_inv tb" "occupied tb = {}"
    using init_table_ret [of "empty_heap 1 8"] by auto
  have "is_list (heap_of 0 ?xs) (Ptr 8) ?xs" using heap_of_list [of ?xs 0] by simp
  moreover have "hashable ?xs" by (simp add: hashable_def int_range_defs)
  moreover have "set (vals ?xs) \<subseteq> {0..<20}" "set (vals ?xs) = {3, 5}" by auto
  ultimately show ?thesis
    using delete_duplicate_hash_correct [of "heap_of 0 ?xs" "Ptr 8" ?xs tb] tb by metis
qed

text \<open>
  C13: The table implements a set exactly for values without collisions: starting with a new table,
  every sequence of insertions, removals and searches with values from \<open>V\<close> returns, prints and
  answers what the same sequence on a set of ints does, and keeps that set in the table, if and only
  if no two different values of \<open>V\<close> have the same slot. A negative value that is no multiple of 20
  indexes the table below its start.
\<close>

theorem hash_table_is_set:
  assumes "init_table h = ret (h', tb)" and "usable V"
  shows "(inj_on slot V \<longleftrightarrow>
      (\<forall>as. op_value ` set as \<subseteq> V \<longrightarrow>
        (\<exists>tb'. table_run as tb = ret (tb', snd (set_run as {})) \<and> table_inv tb'
          \<and> stored tb' = fst (set_run as {}))))
    \<and> (u < 0 \<and> in_int u \<and> \<not> 20 dvd u \<longrightarrow> insert_item tb u = fault OutOfBounds)"
proof (intro conjI)
  have tb: "table_inv tb" "occupied tb = {}"
    using assms(1) by (auto simp: init_table_def malloc_def table_inv_def occupied_def split: if_splits)
  then have st: "stored tb = {}" by (simp add: stored_def)
  have "v = w" if all: "\<forall>as. op_value ` set as \<subseteq> V \<longrightarrow>
      (\<exists>tb'. table_run as tb = ret (tb', snd (set_run as {})))" and vw: "v \<in> V" "w \<in> V" "slot v = slot w" for v w
  proof (rule ccontr)
    assume "v \<noteq> w"
    moreover have "usable {v, w}" using assms(2) vw by (simp add: usable_def)
    moreover have "\<exists>tb'. table_run [TInsert v, TFind w] tb = ret (tb', snd (set_run [TInsert v, TFind w] {}))"
      using vw by (intro all [rule_format]) simp
    ultimately show False using table_run_collision [OF tb _ vw(3)] by auto
  qed
  then have "inj_on slot V" if "\<forall>as. op_value ` set as \<subseteq> V \<longrightarrow>
      (\<exists>tb'. table_run as tb = ret (tb', snd (set_run as {})))" using that by (intro inj_onI) blast
  then show "inj_on slot V \<longleftrightarrow>
      (\<forall>as. op_value ` set as \<subseteq> V \<longrightarrow>
        (\<exists>tb'. table_run as tb = ret (tb', snd (set_run as {})) \<and> table_inv tb'
          \<and> stored tb' = fst (set_run as {})))"
    using table_run_set [OF tb(1) _ assms(2)] st by (intro iffI) (auto, meson)
  show "u < 0 \<and> in_int u \<and> \<not> 20 dvd u \<longrightarrow> insert_item tb u = fault OutOfBounds"
    using insert_item_negative [of u tb] tb(1) by blast
qed

theorem hash_table_is_set_witness:
  "\<exists>h tb tb'. init_table (empty_heap 1 8) = ret (h, tb)
     \<and> table_run [TInsert 3, TInsert 25, TFind 25, TFind 7, TRemove 3, TFind 3] tb =
         ret (tb', [OInt 1, OInt 0, OStr ''Success to remove item: value='', OInt 3,
                    OStr '' at key:'', OInt 3, newline, OInt 0])
     \<and> stored tb' = {25}"
proof -
  let ?as = "[TInsert 3, TInsert 25, TFind 25, TFind 7, TRemove 3, TFind 3]"
  obtain h tb where tb: "init_table (empty_heap 1 8) = ret (h, tb)"
    using init_table_ret [of "empty_heap 1 8"] by auto
  have "usable {3, 7, 25}" by (simp add: usable_def int_range_defs)
  moreover have "inj_on slot {3, 7, 25}" by (simp add: slot_def CAPACITY_def)
  ultimately have "\<exists>tb'. table_run ?as tb = ret (tb', snd (set_run ?as {})) \<and> table_inv tb'
      \<and> stored tb' = fst (set_run ?as {})"
    using hash_table_is_set [OF tb, of "{3, 7, 25}"] by (simp del: table_run.simps set_run.simps)
  moreover have "set_run ?as {} = ({25}, [OInt 1, OInt 0, OStr ''Success to remove item: value='', OInt 3,
      OStr '' at key:'', OInt 3, newline, OInt 0])" by auto
  ultimately show ?thesis using tb by (simp del: table_run.simps set_run.simps) blast
qed

end
