(* ===== verification/Sort_Base.thy ===== *)
theory Sort_Base
  imports C_Prelude "HOL-Library.Multiset"
begin

text \<open>
  What the five programs under \<^verbatim>\<open>src/sort\<close> share: \<^verbatim>\<open>swap\<close>, \<^verbatim>\<open>print_array\<close>, the filling of an
  array with random numbers, the program around the sorting function, and the contract
  of a sorting function as a locale. \<^verbatim>\<open>rand()\<close> is a stream of non-negative ints, the argument
  \<open>rnd\<close> of the programs.
\<close>

section \<open>Operations\<close>

definition swap :: "int list \<Rightarrow> int \<Rightarrow> int \<Rightarrow> int list cres" where
  "swap arr a b =
     bnd (rd arr a) (\<lambda>tmp. bnd (rd arr b) (\<lambda>v. bnd (wr arr a v) (\<lambda>arr. wr arr b tmp)))"

definition print_array :: "int list \<Rightarrow> int \<Rightarrow> out list cres" where
  "print_array arr len =
     bnd (for_up 0 len (\<lambda>i os. bnd (rd arr i) (\<lambda>v. ret (os @ [OInt v, OStr '' '']))) [])
       (\<lambda>os. ret (os @ [newline]))"

text \<open>\<^verbatim>\<open>int array[num]; for (i...) array[i] = rand() % num;\<close> The array starts indeterminate.\<close>

definition random_array :: "int \<Rightarrow> (nat \<Rightarrow> int) \<Rightarrow> int list cres" where
  "random_array num rnd =
     (if num \<le> 0 then fault BadVLA
      else bnd (for_up 0 num (\<lambda>i arr. bnd (c_mod (rnd (nat i)) num) (\<lambda>v. wr arr i (Some v)))
                  (replicate (nat num) None)) (\<lambda>arr. ret (map the arr)))"

text \<open>
  The common \<^verbatim>\<open>main\<close>. \<open>prompt\<close> is the line that asks for the number of elements, \<open>init\<close> is the value of \<^verbatim>\<open>num\<close> before \<^verbatim>\<open>scanf\<close>, \<open>None\<close> where it has no
  initialiser; \<open>inp\<close> is the number typed in, if any.
\<close>

definition sort_main ::
    "string \<Rightarrow> string \<Rightarrow> (int list \<Rightarrow> int list cres) \<Rightarrow> int option \<Rightarrow> int option \<Rightarrow> (nat \<Rightarrow> int) \<Rightarrow> out list cres" where
  "sort_main prompt name sorter init inp rnd =
     bnd (need Uninit (case inp of Some v \<Rightarrow> Some v | None \<Rightarrow> init)) (\<lambda>num.
     bnd (random_array num rnd) (\<lambda>arr.
     bnd (print_array arr (int (length arr))) (\<lambda>os1.
     bnd (sorter arr) (\<lambda>arr.
     bnd (print_array arr (int (length arr))) (\<lambda>os2.
       ret ([OStr prompt, newline, OStr ''Before '', OStr name, OStr '':'', newline] @ os1 @
            [OStr ''After '', OStr name, OStr '':'', newline] @ os2))))))"

section \<open>Basic facts\<close>

definition swp :: "'a list \<Rightarrow> nat \<Rightarrow> nat \<Rightarrow> 'a list" where
  "swp xs i j = xs[i := xs ! j, j := xs ! i]"

lemma swap_ret [simp]:
  "i < length xs \<Longrightarrow> j < length xs \<Longrightarrow> swap xs (int i) (int j) = ret (swp xs i j)"
  by (simp add: swap_def swp_def)

lemma length_swp [simp]: "length (swp xs i j) = length xs"
  by (simp add: swp_def)

lemma nth_swp:
  "i < length xs \<Longrightarrow> j < length xs \<Longrightarrow> k < length xs \<Longrightarrow>
     swp xs i j ! k = xs ! (if k = i then j else if k = j then i else k)"
  by (auto simp: swp_def nth_list_update)

lemma mset_swp [simp]: "i < length xs \<Longrightarrow> j < length xs \<Longrightarrow> mset (swp xs i j) = mset xs"
  by (simp add: swp_def mset_swap)

lemma sorted_by_pairs:
  "(\<And>i j. i \<le> j \<Longrightarrow> j < length xs \<Longrightarrow> xs ! i \<le> xs ! j) \<Longrightarrow> sorted (xs :: int list)"
  by (simp add: sorted_iff_nth_mono)

lemma print_array_ret:
  "print_array xs (int (length xs)) = ret (concat (map (\<lambda>v. [OInt v, OStr '' '']) xs) @ [newline])"
proof -
  let ?f = "\<lambda>v. [OInt v, OStr '' '']"
  have "\<exists>os. for_up (int 0) (int (length xs)) (\<lambda>i os. bnd (rd xs i) (\<lambda>v. ret (os @ ?f v))) [] = ret os
      \<and> os = concat (map ?f (take (length xs) xs))"
    by (rule for_up_inv) (auto simp: take_Suc_conv_app_nth)
  then show ?thesis by (simp add: print_array_def)
qed

text \<open>The random array: every element lies below the number of elements.\<close>

lemma c_mod_pos:
  assumes "0 \<le> a" and "in_int a" and "0 < b"
  shows "c_mod a b = ret (a mod b)"
proof -
  have "0 \<le> a div b" "a div b \<le> a"
    using assms zdiv_mono2 [of a 1 b] by (simp_all add: pos_imp_zdiv_nonneg_iff)
  with assms show ?thesis by (simp add: c_mod_def smod_pos sdiv_pos in_int_mono [of a])
qed

definition rand_ok :: "(nat \<Rightarrow> int) \<Rightarrow> bool" where
  "rand_ok rnd \<longleftrightarrow> (\<forall>k. 0 \<le> rnd k \<and> rnd k \<le> INT_MAX)"

lemma random_array_ret:
  assumes "0 < n" and "rand_ok rnd"
  shows "random_array (int n) rnd = ret (map (\<lambda>k. rnd k mod int n) [0..<n])"
proof -
  let ?P = "\<lambda>i arr. arr = map (\<lambda>k. if k < i then Some (rnd k mod int n) else None) [0..<n]"
  have "\<exists>arr. for_up (int 0) (int n) (\<lambda>i arr. bnd (c_mod (rnd (nat i)) (int n)) (\<lambda>v. wr arr i (Some v)))
      (replicate (nat (int n)) None) = ret arr \<and> ?P n arr"
  proof (rule for_up_inv [where P = ?P])
    fix i and arr :: "int option list"
    assume i: "i < n" and arr: "?P i arr"
    have "c_mod (rnd i) (int n) = ret (rnd i mod int n)"
      using assms in_int_mono [of INT_MAX "rnd i"]
      by (intro c_mod_pos) (auto simp: rand_ok_def int_range_defs)
    moreover have "arr[i := Some (rnd i mod int n)] =
        map (\<lambda>k. if k < Suc i then Some (rnd k mod int n) else None) [0..<n]"
      unfolding arr using i by (intro nth_equalityI) (auto simp: nth_list_update)
    moreover have "length arr = n" unfolding arr by simp
    ultimately show "\<exists>arr'. bnd (c_mod (rnd (nat (int i))) (int n)) (\<lambda>v. wr arr (int i) (Some v)) = ret arr'
        \<and> ?P (Suc i) arr'"
      using i by simp
  qed (auto intro: nth_equalityI)
  with assms(1) show ?thesis by (auto simp: random_array_def)
qed

section \<open>The contract of a sorting function\<close>

text \<open>
  \<open>pre\<close> is the set of arrays the function handles; on those it returns, the result is in
  order, and it has the same elements.
\<close>

locale array_sort =
  fixes sorter :: "int list \<Rightarrow> int list cres"
    and pre :: "int list \<Rightarrow> bool"
  assumes sorts: "pre xs \<Longrightarrow> \<exists>ys. sorter xs = ret ys \<and> sorted ys \<and> mset ys = mset xs"
begin

text \<open>There is only one such result, so the function computes the library's \<open>sort\<close>.\<close>

lemma sorter_eq: "pre xs \<Longrightarrow> sorter xs = ret (sort xs)"
  using sorts properties_for_sort by fastforce

lemma sorter_idem: "pre xs \<Longrightarrow> pre (sort xs) \<Longrightarrow> bnd (sorter xs) sorter = sorter xs"
  by (simp add: sorter_eq sorted_sort_id)

lemma main_eq:
  assumes "0 < n" and "rand_ok rnd" and "pre (map (\<lambda>k. rnd k mod int n) [0..<n])"
  defines "xs \<equiv> map (\<lambda>k. rnd k mod int n) [0..<n]"
  shows "sort_main prompt name sorter init (Some (int n)) rnd =
    ret ([OStr prompt, newline, OStr ''Before '', OStr name, OStr '':'', newline] @
         concat (map (\<lambda>v. [OInt v, OStr '' '']) xs) @ [newline] @
         [OStr ''After '', OStr name, OStr '':'', newline] @
         concat (map (\<lambda>v. [OInt v, OStr '' '']) (sort xs)) @ [newline])"
proof -
  have xs: "random_array (int n) rnd = ret xs" "sorter xs = ret (sort xs)"
    using random_array_ret [OF assms(1,2)] sorter_eq assms(3) by (simp_all add: xs_def)
  have "print_array xs (int (length xs)) = ret (concat (map (\<lambda>v. [OInt v, OStr '' '']) xs) @ [newline])"
    "print_array (sort xs) (int (length (sort xs))) =
       ret (concat (map (\<lambda>v. [OInt v, OStr '' '']) (sort xs)) @ [newline])"
    by (rule print_array_ret)+
  with xs show ?thesis by (simp add: sort_main_def)
qed

end

end
