(* ===== verification/Sort_Simple.thy ===== *)
theory Sort_Simple
  imports Sort_Base
begin

text \<open>
  The three quadratic sorting programs: bubble sort, insertion sort and selection sort, each
  shown to meet the contract \<open>array_sort\<close> on every array.
\<close>

section \<open>Programs\<close>

definition bubble_round :: "int \<Rightarrow> int list \<Rightarrow> int list cres" where
  "bubble_round len arr =
     for_up 0 (len - 1) (\<lambda>i arr.
       bnd (rd arr (i + 1)) (\<lambda>y. bnd (rd arr i) (\<lambda>x.
         if y < x then swap arr i (i + 1) else ret arr))) arr"

definition bubble_sort :: "int list \<Rightarrow> int \<Rightarrow> int list cres" where
  "bubble_sort arr len = for_up 0 len (\<lambda>_ arr. bubble_round len arr) arr"

definition bubble_sort_main :: "int option \<Rightarrow> (nat \<Rightarrow> int) \<Rightarrow> out list cres" where
  "bubble_sort_main =
     sort_main ''Enter amount of number:'' ''bubble sort''
       (\<lambda>arr. bubble_sort arr (int (length arr))) None"

partial_function (option) sift_left :: "int list \<Rightarrow> int \<Rightarrow> int \<Rightarrow> int list cres" where
  "sift_left arr current prev =
     (if prev \<ge> 0
      then bnd (rd arr current) (\<lambda>x. bnd (rd arr prev) (\<lambda>y.
        if x < y
        then bnd (swap arr current prev) (\<lambda>arr. sift_left arr (current - 1) (prev - 1))
        else ret arr))
      else ret arr)"

definition insertion_sort :: "int list \<Rightarrow> int \<Rightarrow> int list cres" where
  "insertion_sort arr len = for_up 0 len (\<lambda>round arr. sift_left arr round (round - 1)) arr"

definition insertion_sort_main :: "int option \<Rightarrow> (nat \<Rightarrow> int) \<Rightarrow> out list cres" where
  "insertion_sort_main =
     sort_main ''Enter amount of number:'' ''insertion sort''
       (\<lambda>arr. insertion_sort arr (int (length arr))) None"

definition find_min :: "int list \<Rightarrow> int \<Rightarrow> int \<Rightarrow> int cres" where
  "find_min arr len i =
     for_up (i + 1) len (\<lambda>j min_idx.
       bnd (rd arr j) (\<lambda>x. bnd (rd arr min_idx) (\<lambda>y. ret (if x < y then j else min_idx)))) i"

definition selection_sort :: "int list \<Rightarrow> int \<Rightarrow> int list cres" where
  "selection_sort arr len =
     bnd (ck (len - 1)) (\<lambda>last.
       for_up 0 last (\<lambda>i arr.
         bnd (find_min arr len i) (\<lambda>min_idx. swap arr i min_idx)) arr)"

definition selection_sort_main :: "int option \<Rightarrow> (nat \<Rightarrow> int) \<Rightarrow> out list cres" where
  "selection_sort_main =
     sort_main ''Enter amount of number:'' ''selection sort''
       (\<lambda>arr. selection_sort arr (int (length arr))) None"

section \<open>Bubble sort\<close>

text \<open>\<open>topped r xs\<close>: the last \<open>r\<close> places hold what they hold in the end.\<close>

definition topped :: "nat \<Rightarrow> int list \<Rightarrow> bool" where
  "topped r xs \<longleftrightarrow> (\<forall>a b. a \<le> b \<longrightarrow> length xs - r \<le> b \<longrightarrow> b < length xs \<longrightarrow> xs ! a \<le> xs ! b)"

text \<open>Inside a round: the largest element seen so far has reached place \<open>i\<close>.\<close>

definition bubbling :: "nat \<Rightarrow> nat \<Rightarrow> int list \<Rightarrow> bool" where
  "bubbling r i xs \<longleftrightarrow> topped r xs \<and> (\<forall>a \<le> min i (length xs - r - 1). xs ! a \<le> xs ! min i (length xs - r - 1))"

lemma bubbling_step:
  assumes "bubbling r i xs" and "Suc i < length xs" and "r < length xs"
  shows "bubbling r (Suc i) (if xs ! Suc i < xs ! i then swp xs i (Suc i) else xs)"
proof (cases "i < length xs - r - 1")
  case True
  have top: "\<And>a b. a \<le> b \<Longrightarrow> length xs - r \<le> b \<Longrightarrow> b < length xs \<Longrightarrow> xs ! a \<le> xs ! b"
    using assms(1) by (simp add: bubbling_def topped_def)
  have le: "\<And>a. a \<le> i \<Longrightarrow> xs ! a \<le> xs ! i"
    using assms(1) True by (auto simp: bubbling_def)
  have m: "min (Suc i) (length xs - r - 1) = Suc i" using True by simp
  show ?thesis
  proof (cases "xs ! Suc i < xs ! i")
    case True
    have "swp xs i (Suc i) ! a \<le> swp xs i (Suc i) ! b"
      if "a \<le> b" "length xs - r \<le> b" "b < length xs" for a b
      using that assms(2) \<open>i < length xs - r - 1\<close> top by (simp add: nth_swp)
    moreover have "swp xs i (Suc i) ! a \<le> swp xs i (Suc i) ! Suc i" if "a \<le> Suc i" for a
      using that assms(2) True le by (cases "a = i") (auto simp: nth_swp le_Suc_eq)
    ultimately show ?thesis using True m by (simp add: bubbling_def topped_def)
  next
    case False
    then have "xs ! a \<le> xs ! Suc i" if "a \<le> Suc i" for a
      using le [of a] that by (auto simp: le_Suc_eq)
    with False assms(1) m show ?thesis by (simp add: bubbling_def)
  qed
next
  case False
  then have "xs ! i \<le> xs ! Suc i" using assms by (auto simp: bubbling_def topped_def)
  moreover have "min (Suc i) (length xs - r - 1) = min i (length xs - r - 1)" using False by simp
  ultimately show ?thesis using assms(1) by (simp add: bubbling_def)
qed

lemma bubbling_done:
  assumes "bubbling r (length xs - 1) xs" and "r < length xs"
  shows "topped (Suc r) xs"
proof -
  have "xs ! a \<le> xs ! b" if "a \<le> b" "length xs - Suc r \<le> b" "b < length xs" for a b
    using that assms by (cases "b = length xs - r - 1") (auto simp: bubbling_def topped_def)
  then show ?thesis by (simp add: topped_def)
qed

lemma bubble_round_ret:
  assumes "topped r xs" and "r < length xs"
  shows "\<exists>ys. bubble_round (int (length xs)) xs = ret ys \<and> topped (Suc r) ys
    \<and> length ys = length xs \<and> mset ys = mset xs"
proof -
  let ?P = "\<lambda>i ys. bubbling r i ys \<and> length ys = length xs \<and> mset ys = mset xs"
  have "\<exists>ys. for_up (int 0) (int (length xs - 1)) (\<lambda>i arr. bnd (rd arr (i + 1)) (\<lambda>y. bnd (rd arr i) (\<lambda>x.
      if y < x then swap arr i (i + 1) else ret arr))) xs = ret ys \<and> ?P (length xs - 1) ys"
  proof (rule for_up_inv [where P = ?P])
    show "?P 0 xs" using assms by (auto simp: bubbling_def)
    fix i ys assume i: "i < length xs - 1" and P: "?P i ys"
    have "int i + 1 = int (Suc i)" by simp
    then show "\<exists>zs. bnd (rd ys (int i + 1)) (\<lambda>y. bnd (rd ys (int i)) (\<lambda>x.
        if y < x then swap ys (int i) (int i + 1) else ret ys)) = ret zs \<and> ?P (Suc i) zs"
      using i P bubbling_step [of r i ys] assms(2)
      by (simp only:) (auto split: if_splits simp del: of_nat_Suc)
  qed simp
  moreover have "int (length xs - 1) = int (length xs) - 1" using assms(2) by auto
  ultimately show ?thesis
    using bubbling_done assms(2) unfolding bubble_round_def by fastforce
qed

lemma bubble_sort_sorts:
  "\<exists>ys. bubble_sort xs (int (length xs)) = ret ys \<and> sorted ys \<and> mset ys = mset xs"
proof -
  let ?P = "\<lambda>r ys. topped r ys \<and> length ys = length xs \<and> mset ys = mset xs"
  have "\<exists>ys. for_up (int 0) (int (length xs)) (\<lambda>_ arr. bubble_round (int (length xs)) arr) xs = ret ys
      \<and> ?P (length xs) ys"
  proof (rule for_up_inv [where P = ?P])
    show "?P 0 xs" by (simp add: topped_def)
    fix r ys assume "r < length xs" "?P r ys"
    then show "\<exists>zs. bubble_round (int (length xs)) ys = ret zs \<and> ?P (Suc r) zs"
      using bubble_round_ret [of r ys] by auto
  qed simp
  then show ?thesis by (auto simp: bubble_sort_def topped_def intro!: sorted_by_pairs)
qed

interpretation bubble: array_sort "\<lambda>xs. bubble_sort xs (int (length xs))" "\<lambda>_. True"
  by unfold_locales (rule bubble_sort_sorts)

section \<open>Insertion sort\<close>

text \<open>\<open>sifting r c xs\<close>: places 0 to \<open>r\<close> are in order but for the element at \<open>c\<close>, which is on its way left.\<close>

definition sifting :: "nat \<Rightarrow> nat \<Rightarrow> int list \<Rightarrow> bool" where
  "sifting r c xs \<longleftrightarrow>
     (\<forall>a b. a \<le> b \<longrightarrow> b \<le> r \<longrightarrow> b \<noteq> c \<longrightarrow> xs ! a \<le> xs ! b \<or> a = c \<and> xs ! c \<le> xs ! b)"

lemma sift_left_step:
  assumes "Suc c < length xs"
  shows "sift_left xs (1 + int c) (int c) =
    (if xs ! Suc c < xs ! c then sift_left (swp xs (Suc c) c) (int c) (int c - 1) else ret xs)"
proof -
  have "swap xs (1 + int c) (int c) = ret (swp xs (Suc c) c)"
    using swap_ret [of "Suc c" xs c] assms by simp
  moreover have "nat (1 + int c) = Suc c" by simp
  ultimately show ?thesis using assms by (subst sift_left.simps) simp
qed

lemma sift_left_ret:
  "sifting r c xs \<Longrightarrow> c \<le> r \<Longrightarrow> r < length xs \<Longrightarrow>
     \<exists>ys. sift_left xs (int c) (int c - 1) = ret ys \<and> length ys = length xs \<and> mset ys = mset xs
       \<and> (\<forall>a b. a \<le> b \<longrightarrow> b \<le> r \<longrightarrow> ys ! a \<le> ys ! b)
       \<and> (\<forall>a. r < a \<longrightarrow> ys ! a = xs ! a)"
proof (induction c arbitrary: xs)
  case 0
  then have "xs ! a \<le> xs ! b" if "a \<le> b" "b \<le> r" for a b
    using that by (cases "b = 0") (auto simp: sifting_def)
  then show ?case by (subst sift_left.simps) simp
next
  case (Suc c)
  have le: "\<And>a b. a \<le> b \<Longrightarrow> b \<le> r \<Longrightarrow> b \<noteq> Suc c \<Longrightarrow> xs ! a \<le> xs ! b"
    using Suc.prems(1) by (auto simp: sifting_def)
  have e: "int (Suc c) - 1 = int c" by simp
  show ?case
  proof (cases "xs ! Suc c < xs ! c")
    case True
    let ?ys = "swp xs (Suc c) c"
    have nth: "?ys ! k = xs ! (if k = Suc c then c else if k = c then Suc c else k)"
      if "k \<le> r" for k using that Suc.prems(2,3) by (intro nth_swp) auto
    have "sifting r c ?ys"
      unfolding sifting_def
    proof (intro allI impI)
      fix a b assume ab: "a \<le> b" "b \<le> r" "b \<noteq> c"
      have "?ys ! a \<le> ?ys ! b"
      proof (cases "b = Suc c")
        case True
        then show ?thesis using ab nth [of a] nth [of b] le [of a c] \<open>xs ! Suc c < xs ! c\<close> Suc.prems(2)
          by (auto split: if_splits)
      next
        case False
        then show ?thesis using ab nth [of a] nth [of b] le [of a b] le [of c b] le [of "Suc c" b]
          by (auto split: if_splits)
      qed
      then show "?ys ! a \<le> ?ys ! b \<or> a = c \<and> ?ys ! c \<le> ?ys ! b" by simp
    qed
    with Suc.IH [of ?ys] Suc.prems obtain ys where ys:
      "sift_left ?ys (int c) (int c - 1) = ret ys" "length ys = length xs" "mset ys = mset xs"
      "\<forall>a b. a \<le> b \<longrightarrow> b \<le> r \<longrightarrow> ys ! a \<le> ys ! b" "\<forall>a. r < a \<longrightarrow> ys ! a = ?ys ! a"
      by auto
    moreover have "?ys ! a = xs ! a" if "r < a" for a
      using that Suc.prems(2) by (simp add: swp_def)
    moreover have "sift_left xs (int (Suc c)) (int (Suc c) - 1) = ret ys"
      using True ys(1) Suc.prems(2,3) unfolding e by (simp add: sift_left_step)
    ultimately show ?thesis by simp
  next
    case False
    have "xs ! a \<le> xs ! b" if "a \<le> b" "b \<le> r" for a b
      using that le [of a b] le [of a c] False Suc.prems(2)
      by (cases "b = Suc c") (auto simp: le_Suc_eq)
    with False Suc.prems show ?thesis unfolding e by (simp add: sift_left_step)
  qed
qed

lemma insertion_sort_sorts:
  "\<exists>ys. insertion_sort xs (int (length xs)) = ret ys \<and> sorted ys \<and> mset ys = mset xs"
proof -
  let ?P = "\<lambda>r ys. (\<forall>a b. a \<le> b \<longrightarrow> b < r \<longrightarrow> ys ! a \<le> ys ! b)
      \<and> length ys = length xs \<and> mset ys = mset xs"
  have "\<exists>ys. for_up (int 0) (int (length xs)) (\<lambda>round arr. sift_left arr round (round - 1)) xs = ret ys
      \<and> ?P (length xs) ys"
  proof (rule for_up_inv [where P = ?P])
    fix r ys assume r: "r < length xs" and P: "?P r ys"
    have "sifting r r ys" using P by (auto simp: sifting_def)
    from sift_left_ret [OF this] r P
    show "\<exists>zs. sift_left ys (int r) (int r - 1) = ret zs \<and> ?P (Suc r) zs"
      by (auto simp: less_Suc_eq_le)
  qed auto
  then show ?thesis by (auto simp: insertion_sort_def intro!: sorted_by_pairs)
qed

interpretation insertion: array_sort "\<lambda>xs. insertion_sort xs (int (length xs))" "\<lambda>_. True"
  by unfold_locales (rule insertion_sort_sorts)

section \<open>Selection sort\<close>

lemma find_min_ret:
  assumes "i < length xs"
  shows "\<exists>m. find_min xs (int (length xs)) (int i) = ret (int m) \<and> i \<le> m \<and> m < length xs
    \<and> (\<forall>a. i \<le> a \<longrightarrow> a < length xs \<longrightarrow> xs ! m \<le> xs ! a)"
proof -
  let ?P = "\<lambda>j m'. \<exists>m. m' = int m \<and> i \<le> m \<and> m < length xs \<and> (\<forall>a. i \<le> a \<longrightarrow> a < j \<longrightarrow> xs ! m \<le> xs ! a)"
  have "\<exists>m'. for_up (int (Suc i)) (int (length xs)) (\<lambda>j min_idx. bnd (rd xs j) (\<lambda>x.
      bnd (rd xs min_idx) (\<lambda>y. ret (if x < y then j else min_idx)))) (int i) = ret m' \<and> ?P (length xs) m'"
  proof (rule for_up_inv [where P = ?P])
    show "?P (Suc i) (int i)" using assms by (auto simp: less_Suc_eq intro!: exI [of _ i])
    fix j m' assume j: "Suc i \<le> j" "j < length xs" and "?P j m'"
    then obtain m where m: "m' = int m" "i \<le> m" "m < length xs"
      "\<And>a. i \<le> a \<Longrightarrow> a < j \<Longrightarrow> xs ! m \<le> xs ! a" by blast
    let ?m = "if xs ! j < xs ! m then j else m"
    have "xs ! ?m \<le> xs ! a" if "i \<le> a" "a < Suc j" for a
      using m(4) [of a] that by (cases "a = j") auto
    then show "\<exists>n'. bnd (rd xs (int j)) (\<lambda>x. bnd (rd xs m') (\<lambda>y. ret (if x < y then int j else m')))
        = ret n' \<and> ?P (Suc j) n'"
      using m j by (auto intro!: exI [of _ ?m])
  qed (use assms in simp)
  then show ?thesis by (auto simp: find_min_def add.commute)
qed

lemma selection_sort_sorts:
  assumes "int (length xs) \<le> INT_MAX"
  shows "\<exists>ys. selection_sort xs (int (length xs)) = ret ys \<and> sorted ys \<and> mset ys = mset xs"
proof (cases "xs = []")
  case True
  then show ?thesis by (simp add: selection_sort_def int_range_defs for_up.simps)
next
  case False
  let ?n = "length xs"
  let ?P = "\<lambda>i ys. (\<forall>a b. a < i \<longrightarrow> a \<le> b \<longrightarrow> b < ?n \<longrightarrow> ys ! a \<le> ys ! b)
      \<and> length ys = ?n \<and> mset ys = mset xs"
  have "\<exists>ys. for_up (int 0) (int (?n - 1)) (\<lambda>i arr. bnd (find_min arr (int ?n) i)
      (\<lambda>min_idx. swap arr i min_idx)) xs = ret ys \<and> ?P (?n - 1) ys"
  proof (rule for_up_inv [where P = ?P])
    fix i ys assume i: "i < ?n - 1" and P: "?P i ys"
    from i have "i < ?n" by simp
    then obtain m where m: "find_min ys (int ?n) (int i) = ret (int m)" "i \<le> m" "m < ?n"
      "\<And>a. i \<le> a \<Longrightarrow> a < ?n \<Longrightarrow> ys ! m \<le> ys ! a"
      using find_min_ret [of i ys] P by auto
    have nth: "swp ys i m ! k = ys ! (if k = i then m else if k = m then i else k)" if "k < ?n" for k
      using that i m P by (intro nth_swp) auto
    have "swp ys i m ! a \<le> swp ys i m ! b" if "a < Suc i" "a \<le> b" "b < ?n" for a b
    proof (cases "a = i")
      case True
      then show ?thesis using that m nth [of i] nth [of b] by auto
    next
      case False
      with that have "a < i" by simp
      with that m P show ?thesis using nth [of a] nth [of b] by auto
    qed
    with m i P show "\<exists>zs. bnd (find_min ys (int ?n) (int i)) (\<lambda>min_idx. swap ys (int i) min_idx) = ret zs
        \<and> ?P (Suc i) zs"
      by simp
  qed auto
  moreover have "ck (int ?n - 1) = ret (int (?n - 1))"
    using assms False by (cases xs) (auto simp: int_range_defs)
  moreover have "sorted ys" if "?P (?n - 1) ys" for ys
  proof (rule sorted_by_pairs)
    fix a b assume "a \<le> b" "b < length ys"
    with that show "ys ! a \<le> ys ! b" by (cases "a = b") auto
  qed
  ultimately show ?thesis by (auto simp: selection_sort_def)
qed

interpretation selection: array_sort "\<lambda>xs. selection_sort xs (int (length xs))"
    "\<lambda>xs. int (length xs) \<le> INT_MAX"
  by unfold_locales (rule selection_sort_sorts)

section \<open>Properties\<close>

text \<open>
  C10: Bubble sort, insertion sort and selection sort return on every array, stay inside it, and all
  three compute its sorted permutation.
\<close>

theorem quadratic_sorts_correct:
  assumes "int (length xs) \<le> INT_MAX"
  shows "bubble_sort xs (int (length xs)) = ret (sort xs)
    \<and> insertion_sort xs (int (length xs)) = ret (sort xs)
    \<and> selection_sort xs (int (length xs)) = ret (sort xs)"
  using bubble.sorter_eq insertion.sorter_eq selection.sorter_eq assms by auto

theorem quadratic_sorts_correct_witness:
  "bubble_sort [3, 1, 2] 3 = ret [1, 2, 3] \<and> selection_sort [3, 1, 2] 3 = ret [1, 2, 3]"
  using quadratic_sorts_correct [of "[3, 1, 2]"] by (simp add: INT_MAX_def)

text \<open>
  The bubble sort program, asked for n numbers, prints n random numbers below n and then the same
  numbers in order; asked for none or a negative number it declares an array of invalid size, and
  without a number it uses an indeterminate one.
\<close>

lemma bubble_sort_program:
  assumes "rand_ok rnd"
  shows "(0 < n \<longrightarrow> bubble_sort_main (Some (int n)) rnd =
      (let xs = map (\<lambda>k. rnd k mod int n) [0..<n];
           show = (\<lambda>vs. concat (map (\<lambda>v. [OInt v, OStr '' '']) vs) @ [newline]) in
       ret ([OStr ''Enter amount of number:'', newline, OStr ''Before '', OStr ''bubble sort'', OStr '':'', newline] @
            show xs @ [OStr ''After '', OStr ''bubble sort'', OStr '':'', newline] @ show (sort xs))))
    \<and> (num \<le> 0 \<longrightarrow> bubble_sort_main (Some num) rnd = fault BadVLA)
    \<and> bubble_sort_main None rnd = fault Uninit"
  using bubble.main_eq [of n rnd] assms
  by (simp add: bubble_sort_main_def Let_def sort_main_def random_array_def)


end
