(* ===== verification/Sort_Merge.thy ===== *)
theory Sort_Merge
  imports Sort_Base
begin

text \<open>
  \<^verbatim>\<open>src/sort/merge_sort\<close>. \<^verbatim>\<open>do_merge\<close> declares its two scratch arrays with their sizes exchanged,
  \<^verbatim>\<open>right_arr[n1]\<close> and \<^verbatim>\<open>left_arr[n2]\<close>, so it is in bounds exactly when both halves have the same
  length. The results: on an array whose length is a power of two the program sorts, on every
  other array of at least two elements it writes past the end of \<^verbatim>\<open>left_arr\<close>.
\<close>

section \<open>Program\<close>

text \<open>A local array that is not initialised: reading an element that was not written faults.\<close>

definition rdi :: "int option list \<Rightarrow> int \<Rightarrow> int cres" where
  "rdi xs i = bnd (rd xs i) (need Uninit)"

partial_function (option) merge_loop ::
    "int list \<Rightarrow> int option list \<Rightarrow> int option list \<Rightarrow> int \<Rightarrow> int \<Rightarrow> int \<Rightarrow> int \<Rightarrow> int
       \<Rightarrow> (int list \<times> int \<times> int \<times> int) cres" where
  "merge_loop arr left_arr right_arr n1 n2 i j k =
     (if i < n1 \<and> j < n2
      then bnd (rdi left_arr i) (\<lambda>x. bnd (rdi right_arr j) (\<lambda>y.
        if x \<le> y
        then bnd (wr arr k x) (\<lambda>arr. merge_loop arr left_arr right_arr n1 n2 (i + 1) j (k + 1))
        else bnd (wr arr k y) (\<lambda>arr. merge_loop arr left_arr right_arr n1 n2 i (j + 1) (k + 1))))
      else ret (arr, i, j, k))"

partial_function (option) drain ::
    "int list \<Rightarrow> int option list \<Rightarrow> int \<Rightarrow> int \<Rightarrow> int \<Rightarrow> (int list \<times> int) cres" where
  "drain arr src n i k =
     (if i < n
      then bnd (rdi src i) (\<lambda>x. bnd (wr arr k x) (\<lambda>arr. drain arr src n (i + 1) (k + 1)))
      else ret (arr, k))"

definition do_merge :: "int list \<Rightarrow> int \<Rightarrow> int \<Rightarrow> int \<Rightarrow> int list cres" where
  "do_merge arr left mid right =
     (let n1 = mid - left + 1; n2 = right - mid in
      if n1 \<le> 0 \<or> n2 \<le> 0 then fault BadVLA
      else let right_arr = replicate (nat n1) None; left_arr = replicate (nat n2) None in
      bnd (for_up 0 n1 (\<lambda>i la. bnd (rd arr (left + i)) (\<lambda>x. wr la i (Some x))) left_arr) (\<lambda>left_arr.
      bnd (for_up 0 n2 (\<lambda>i ra. bnd (rd arr (mid + 1 + i)) (\<lambda>x. wr ra i (Some x))) right_arr) (\<lambda>right_arr.
      bnd (merge_loop arr left_arr right_arr n1 n2 0 0 left) (\<lambda>(arr, i, j, k).
      bnd (drain arr left_arr n1 i k) (\<lambda>(arr, k).
      bnd (drain arr right_arr n2 j k) (\<lambda>(arr, k). ret arr))))))"

partial_function (option) merge_sort :: "int list \<Rightarrow> int \<Rightarrow> int \<Rightarrow> int list cres" where
  "merge_sort arr left right =
     (if left \<ge> right then ret arr
      else bnd (ck (left + right)) (\<lambda>s. bnd (c_div s 2) (\<lambda>mid.
           bnd (merge_sort arr left mid) (\<lambda>arr.
           bnd (merge_sort arr (mid + 1) right) (\<lambda>arr.
             do_merge arr left mid right)))))"

definition merge_sort_main :: "int option \<Rightarrow> (nat \<Rightarrow> int) \<Rightarrow> out list cres" where
  "merge_sort_main =
     sort_main ''Enter amount of numbers:'' ''merge sort''
       (\<lambda>arr. merge_sort arr 0 (int (length arr) - 1)) (Some 0)"

section \<open>Merging\<close>

fun mrg :: "int list \<Rightarrow> int list \<Rightarrow> int list" where
  "mrg [] ys = ys"
| "mrg xs [] = xs"
| "mrg (x # xs) (y # ys) = (if x \<le> y then x # mrg xs (y # ys) else y # mrg (x # xs) ys)"

lemma mrg_Nil2 [simp]: "mrg xs [] = xs"
  by (cases xs) auto

lemma mset_mrg [simp]: "mset (mrg xs ys) = mset xs + mset ys"
  by (induction xs ys rule: mrg.induct) auto

lemma set_mrg [simp]: "set (mrg xs ys) = set xs \<union> set ys"
  by (induction xs ys rule: mrg.induct) auto

lemma length_mrg [simp]: "length (mrg xs ys) = length xs + length ys"
  by (induction xs ys rule: mrg.induct) auto

lemma sorted_mrg: "sorted xs \<Longrightarrow> sorted ys \<Longrightarrow> sorted (mrg xs ys)"
  by (induction xs ys rule: mrg.induct) auto

text \<open>\<open>overlay arr k zs\<close>: the array with \<open>zs\<close> written from place \<open>k\<close> on.\<close>

definition overlay :: "'a list \<Rightarrow> nat \<Rightarrow> 'a list \<Rightarrow> 'a list" where
  "overlay arr k zs = take k arr @ zs @ drop (k + length zs) arr"

lemma overlay_Nil [simp]: "overlay arr k [] = arr"
  by (simp add: overlay_def)

lemma overlay_Cons:
  "k < length arr \<Longrightarrow> overlay arr k (z # zs) = overlay (arr[k := z]) (Suc k) zs"
  by (simp add: overlay_def take_Suc_conv_app_nth)

lemma overlay_overlay:
  "k + length ys \<le> length arr \<Longrightarrow> overlay (overlay arr k ys) (k + length ys) zs = overlay arr k (ys @ zs)"
  by (cases ys) (auto simp: overlay_def min_def ac_simps)

lemma length_overlay [simp]: "k + length zs \<le> length arr \<Longrightarrow> length (overlay arr k zs) = length arr"
  by (simp add: overlay_def)

lemma rdi_map [simp]: "i < length xs \<Longrightarrow> rdi (map Some xs) (int i) = ret (xs ! i)"
  by (simp add: rdi_def)

lemma int_Suc_add: "int k + 1 = int (Suc k)"
  by simp

lemma drain_ret:
  "i \<le> length xs \<Longrightarrow> k + (length xs - i) \<le> length arr \<Longrightarrow>
     drain arr (map Some xs) (int (length xs)) (int i) (int k) =
       ret (overlay arr k (drop i xs), int (k + (length xs - i)))"
proof (induction "length xs - i" arbitrary: i k arr)
  case 0
  then show ?case by (subst drain.simps) simp
next
  case (Suc n)
  then have i: "i < length xs" and k: "k < length arr" by auto
  have ih: "drain (arr[k := xs ! i]) (map Some xs) (int (length xs)) (int (Suc i)) (int (Suc k)) =
      ret (overlay (arr[k := xs ! i]) (Suc k) (drop (Suc i) xs), int (Suc k + (length xs - Suc i)))"
    using Suc.prems i by (intro Suc.hyps(1)) (use Suc.hyps(2) in auto)
  have "Suc k + (length xs - Suc i) = k + (length xs - i)" using i by simp
  with ih show ?case
    unfolding overlay_Cons [OF k, symmetric] Cons_nth_drop_Suc [OF i]
    using i k by (subst drain.simps) (simp add: int_Suc_add del: of_nat_Suc of_nat_add)
qed

text \<open>The three loops of \<^verbatim>\<open>do_merge\<close> after the copying.\<close>

definition merge_tail :: "int list \<Rightarrow> int list \<Rightarrow> int list \<Rightarrow> nat \<Rightarrow> nat \<Rightarrow> nat \<Rightarrow> int list cres" where
  "merge_tail arr xs ys i j k =
     bnd (merge_loop arr (map Some xs) (map Some ys) (int (length xs)) (int (length ys))
            (int i) (int j) (int k)) (\<lambda>(arr, i, j, k).
     bnd (drain arr (map Some xs) (int (length xs)) i k) (\<lambda>(arr, k).
     bnd (drain arr (map Some ys) (int (length ys)) j k) (\<lambda>(arr, k). ret arr)))"

lemma merge_tail_step:
  assumes "i < length xs" and "j < length ys" and "k < length arr"
  shows "merge_tail arr xs ys i j k =
    (if xs ! i \<le> ys ! j then merge_tail (arr[k := xs ! i]) xs ys (Suc i) j (Suc k)
     else merge_tail (arr[k := ys ! j]) xs ys i (Suc j) (Suc k))"
  using assms unfolding merge_tail_def
  by (subst merge_loop.simps) (simp add: int_Suc_add del: of_nat_Suc)

lemma merge_tail_done:
  assumes "i \<le> length xs" and "j \<le> length ys" and "i = length xs \<or> j = length ys"
    and "k + (length xs - i) + (length ys - j) \<le> length arr"
  shows "merge_tail arr xs ys i j k = ret (overlay arr k (mrg (drop i xs) (drop j ys)))"
proof -
  let ?a = "overlay arr k (drop i xs)" and ?k = "k + (length xs - i)"
  have 1: "drain arr (map Some xs) (int (length xs)) (int i) (int k) = ret (?a, int ?k)"
    using assms by (intro drain_ret) auto
  have 2: "drain ?a (map Some ys) (int (length ys)) (int j) (int ?k) =
      ret (overlay ?a ?k (drop j ys), int (?k + (length ys - j)))"
    using assms by (intro drain_ret) auto
  have 3: "overlay ?a ?k (drop j ys) = overlay arr k (drop i xs @ drop j ys)"
    using assms(4) overlay_overlay [of k "drop i xs" arr "drop j ys"] by simp
  have 4: "drop i xs @ drop j ys = mrg (drop i xs) (drop j ys)" using assms(3) by auto
  have "\<not> (int i < int (length xs) \<and> int j < int (length ys))" using assms(3) by auto
  then show ?thesis
    unfolding merge_tail_def
    by (subst merge_loop.simps) (simp only: if_False bnd_ret split_conv 1 2 3 4)
qed

lemma merge_tail_ret:
  "i \<le> length xs \<Longrightarrow> j \<le> length ys \<Longrightarrow> k + (length xs - i) + (length ys - j) \<le> length arr \<Longrightarrow>
     merge_tail arr xs ys i j k = ret (overlay arr k (mrg (drop i xs) (drop j ys)))"
proof (induction "(length xs - i) + (length ys - j)" arbitrary: arr i j k rule: less_induct)
  case less
  show ?case
  proof (cases "i < length xs \<and> j < length ys")
    case False
    with less.prems show ?thesis by (intro merge_tail_done) auto
  next
    case True
    then have i: "i < length xs" and j: "j < length ys" and k: "k < length arr"
      using less.prems by auto
    note d = Cons_nth_drop_Suc [OF i, symmetric] Cons_nth_drop_Suc [OF j, symmetric]
    have l: "merge_tail (arr[k := xs ! i]) xs ys (Suc i) j (Suc k) =
        ret (overlay (arr[k := xs ! i]) (Suc k) (mrg (drop (Suc i) xs) (drop j ys)))"
      using i j less.prems by (intro less.hyps) auto
    have r: "merge_tail (arr[k := ys ! j]) xs ys i (Suc j) (Suc k) =
        ret (overlay (arr[k := ys ! j]) (Suc k) (mrg (drop i xs) (drop (Suc j) ys)))"
      using i j less.prems by (intro less.hyps) auto
    show ?thesis
      unfolding merge_tail_step [OF i j k] l r overlay_Cons [OF k, symmetric] using d by simp
  qed
qed

section \<open>One call of do\_merge\<close>

lemma copy_loop:
  fixes xs arr :: "int list"
  assumes "m \<le> n" and "\<And>i. i < m \<Longrightarrow> rd arr (off + int i) = ret (xs ! i)"
  shows "for_up 0 (int m) (\<lambda>i la. bnd (rd arr (off + i)) (\<lambda>x. wr la i (Some x))) (replicate n None) =
    ret (map (\<lambda>i. Some (xs ! i)) [0..<m] @ replicate (n - m) None)"
proof -
  let ?P = "\<lambda>i la. la = map (\<lambda>i. Some (xs ! i)) [0..<i] @ replicate (n - i) None"
  have "\<exists>la. for_up (int 0) (int m) (\<lambda>i la. bnd (rd arr (off + i)) (\<lambda>x. wr la i (Some x)))
      (replicate n None) = ret la \<and> ?P m la"
  proof (rule for_up_inv [where P = ?P])
    fix i and la :: "int option list"
    assume i: "i < m" and la: "?P i la"
    have "replicate (n - i) None = (None :: int option) # replicate (n - Suc i) None"
      using i assms(1) by (simp add: Suc_diff_Suc flip: replicate_Suc)
    then have "la[i := Some (xs ! i)] = map (\<lambda>i. Some (xs ! i)) [0..<Suc i] @ replicate (n - Suc i) None"
      unfolding la by (simp add: list_update_append)
    moreover have "i < length la" unfolding la using i assms(1) by simp
    ultimately show "\<exists>lb. bnd (rd arr (off + int i)) (\<lambda>x. wr la (int i) (Some x)) = ret lb
        \<and> ?P (Suc i) lb"
      using assms(2) [OF i] by simp
  qed auto
  then show ?thesis by simp
qed

lemma map_some_all: "map (\<lambda>i. Some (xs ! i)) [0..<length xs] = map Some xs"
  by (rule nth_equalityI) auto

lemma rd_part:
  "i < length ys \<Longrightarrow> rd (A @ ys @ B) (int (length A) + int i) = ret (ys ! i)"
proof -
  assume i: "i < length ys"
  moreover have "nat (int (length A) + int i) = length A + i" by linarith
  ultimately show ?thesis by (simp add: rd_def nth_append)
qed

lemma do_merge_equal:
  assumes "length xs = length ys" and "xs \<noteq> []"
  shows "do_merge (A @ xs @ ys @ B) (int (length A)) (int (length A + length xs) - 1)
      (int (length A + 2 * length xs) - 1) = ret (A @ mrg xs ys @ B)"
proof -
  let ?arr = "A @ xs @ ys @ B" and ?m = "length xs"
  have n: "int (length A + ?m) - 1 - int (length A) + 1 = int ?m"
    "int (length A + 2 * ?m) - 1 - (int (length A + ?m) - 1) = int ?m" by auto
  have pos: "0 < ?m" using assms(2) by simp
  have la: "for_up 0 (int ?m) (\<lambda>i la. bnd (rd ?arr (int (length A) + i)) (\<lambda>x. wr la i (Some x)))
      (replicate ?m None) = ret (map Some xs)"
    using copy_loop [of ?m ?m ?arr "int (length A)" xs] rd_part [of _ xs A "ys @ B"]
    by (simp add: map_some_all)
  have off: "int (length A + ?m) - 1 + 1 = int (length (A @ xs))" by simp
  have ra: "for_up 0 (int ?m) (\<lambda>i la. bnd (rd ?arr (int (length (A @ xs)) + i)) (\<lambda>x. wr la i (Some x)))
      (replicate ?m None) = ret (map Some ys)"
    using copy_loop [of ?m ?m ?arr "int (length (A @ xs))" ys] rd_part [of _ ys "A @ xs" B] assms(1)
    by (simp add: map_some_all)
  have "merge_tail ?arr xs ys 0 0 (length A) = ret (overlay ?arr (length A) (mrg xs ys))"
    using merge_tail_ret [of 0 xs 0 ys "length A" ?arr] by simp
  moreover have "overlay ?arr (length A) (mrg xs ys) = A @ mrg xs ys @ B" by (simp add: overlay_def)
  ultimately have "merge_tail ?arr xs ys 0 0 (length A) = ret (A @ mrg xs ys @ B)" by simp
  then show ?thesis
    using pos unfolding do_merge_def Let_def n off merge_tail_def assms(1) [symmetric]
    by (simp add: la ra del: length_append)
qed

lemma do_merge_odd:
  assumes "length xs = Suc (length ys)" and "ys \<noteq> []"
  shows "do_merge (A @ xs @ ys @ B) (int (length A)) (int (length A + length xs) - 1)
      (int (length A + length xs + length ys) - 1) = fault OutOfBounds"
proof -
  let ?arr = "A @ xs @ ys @ B" and ?m = "length ys"
  let ?f = "\<lambda>i la. bnd (rd ?arr (int (length A) + i)) (\<lambda>x. wr la i (Some x))"
  have n: "int (length A + length xs) - 1 - int (length A) + 1 = int (Suc ?m)"
    "int (length A + length xs + ?m) - 1 - (int (length A + length xs) - 1) = int ?m"
    using assms(1) by auto
  have "for_up 0 (int ?m) ?f (replicate ?m None) = ret (map (\<lambda>i. Some (xs ! i)) [0..<?m])"
    using copy_loop [of ?m ?m ?arr "int (length A)" xs] rd_part [of _ xs A "ys @ B"] assms(1) by simp
  moreover have "rd ?arr (int (length A) + int ?m) = ret (xs ! ?m)"
    using rd_part [of ?m xs A "ys @ B"] assms(1) by simp
  ultimately have "for_up 0 (int (Suc ?m)) ?f (replicate ?m None) = fault OutOfBounds"
    by (subst for_up_split [of 0 "int ?m"]) (auto simp: for_up.simps [of "int ?m"])
  then show ?thesis
    using assms(2) unfolding do_merge_def Let_def n by simp
qed

section \<open>The whole sort\<close>

text \<open>The recursion: a segment of \<open>n \<ge> 2\<close> elements splits into \<open>n - n div 2\<close> and \<open>n div 2\<close>.\<close>

lemma merge_sort_split:
  assumes "2 \<le> n" and "2 * int (length A + n) \<le> INT_MAX + 3"
  shows "merge_sort arr (int (length A)) (int (length A + n) - 1) =
    (let mid = int (length A + (n - n div 2)) - 1 in
     bnd (merge_sort arr (int (length A)) mid) (\<lambda>arr.
     bnd (merge_sort arr (mid + 1) (int (length A + n) - 1)) (\<lambda>arr.
       do_merge arr (int (length A)) mid (int (length A + n) - 1))))"
proof -
  let ?s = "int (length A) + (int (length A + n) - 1)"
  have s: "in_int ?s" "0 \<le> ?s" using assms by (auto simp: int_range_defs)
  then have "c_div ?s 2 = ret (?s div 2)" by (intro c_div_pos) auto
  moreover have "?s div 2 = int (length A + (n - n div 2)) - 1" by linarith
  moreover have "\<not> int (length A + n) - 1 \<le> int (length A)" using assms(1) by simp
  ultimately show ?thesis
    using s(1) by (subst merge_sort.simps) (simp only: Let_def ck_ret bnd_ret if_False)
qed

lemma merge_sort_power:
  "length xs = 2 ^ k \<Longrightarrow> 2 * int (length A + length xs) \<le> INT_MAX + 3 \<Longrightarrow>
     \<exists>zs. merge_sort (A @ xs @ B) (int (length A)) (int (length A + length xs) - 1) = ret (A @ zs @ B)
       \<and> sorted zs \<and> mset zs = mset xs"
proof (induction k arbitrary: A xs B)
  case 0
  then obtain x where "xs = [x]" by (cases xs) auto
  then show ?case by (intro exI [of _ xs]) (subst merge_sort.simps, simp)
next
  case (Suc k)
  define us vs where "us = take (2 ^ k) xs" and "vs = drop (2 ^ k) xs"
  have len: "length us = 2 ^ k" "length vs = 2 ^ k" and xs: "xs = us @ vs"
    using Suc.prems(1) by (auto simp: us_def vs_def)
  have n: "2 \<le> length xs" "length xs - length xs div 2 = 2 ^ k" using Suc.prems(1) by simp_all
  have le: "2 * int (length A + length us) \<le> INT_MAX + 3" using Suc.prems(2) xs by simp
  from Suc.IH [OF len(1) le, of "vs @ B"] obtain us' where
    us': "merge_sort (A @ us @ vs @ B) (int (length A)) (int (length A + length us) - 1) =
        ret (A @ us' @ vs @ B)" "sorted us'" "mset us' = mset us" by blast
  have len': "length us' = 2 ^ k" using us'(3) len(1) by (metis size_mset)
  have "2 * int (length (A @ us') + length vs) \<le> INT_MAX + 3" using Suc.prems(2) xs len' len by simp
  from Suc.IH [OF len(2) this, of B] obtain vs' where
    vs': "merge_sort ((A @ us') @ vs @ B) (int (length (A @ us'))) (int (length (A @ us') + length vs) - 1) =
        ret ((A @ us') @ vs' @ B)" "sorted vs'" "mset vs' = mset vs" by blast
  have lv: "length vs' = 2 ^ k" using vs'(3) len(2) by (metis size_mset)
  have "us' \<noteq> []" using len' by auto
  then have "do_merge (A @ us' @ vs' @ B) (int (length A)) (int (length A + length us') - 1)
      (int (length A + 2 * length us') - 1) = ret (A @ mrg us' vs' @ B)"
    using len' lv by (intro do_merge_equal) simp
  then have "merge_sort (A @ xs @ B) (int (length A)) (int (length A + length xs) - 1) =
      ret (A @ mrg us' vs' @ B)"
    unfolding merge_sort_split [OF n(1) Suc.prems(2)] Let_def n(2)
    using us'(1) vs'(1) len len' xs by (simp add: add.assoc)
  moreover have "sorted (mrg us' vs')" "mset (mrg us' vs') = mset xs"
    using us' vs' xs by (simp_all add: sorted_mrg)
  ultimately show ?case by blast
qed

definition pow2 :: "nat \<Rightarrow> bool" where
  "pow2 n \<longleftrightarrow> (\<exists>k. n = 2 ^ k)"

lemma pow2_half: "2 \<le> n \<Longrightarrow> pow2 n \<longleftrightarrow> even n \<and> pow2 (n div 2)"
proof
  assume n: "2 \<le> n" and "pow2 n"
  then obtain k where k: "n = 2 ^ k" by (auto simp: pow2_def)
  with n obtain l where "k = Suc l" by (cases k) auto
  with k show "even n \<and> pow2 (n div 2)" by (auto simp: pow2_def)
next
  assume "even n \<and> pow2 (n div 2)"
  then obtain k where "even n" "n div 2 = 2 ^ k" by (auto simp: pow2_def)
  then have "n = 2 ^ Suc k" by auto
  then show "pow2 n" unfolding pow2_def by blast
qed

lemma merge_sort_overrun:
  "\<not> pow2 (length xs) \<Longrightarrow> xs \<noteq> [] \<Longrightarrow> 2 * int (length A + length xs) \<le> INT_MAX + 3 \<Longrightarrow>
     merge_sort (A @ xs @ B) (int (length A)) (int (length A + length xs) - 1) = fault OutOfBounds"
proof (induction "length xs" arbitrary: A xs B rule: less_induct)
  case less
  let ?n = "length xs"
  have "pow2 1" unfolding pow2_def by (rule exI [of _ 0]) simp
  then have "?n \<noteq> 1" using less.prems(1) by metis
  with less.prems(2) have n: "2 \<le> ?n" by (cases xs) (auto simp: Suc_le_eq)
  define us vs where "us = take (?n - ?n div 2) xs" and "vs = drop (?n - ?n div 2) xs"
  have len: "length us = ?n - ?n div 2" "length vs = ?n div 2" and xs: "xs = us @ vs"
    by (auto simp: us_def vs_def)
  have arr: "A @ xs @ B = A @ us @ vs @ B" using xs by simp
  note split = merge_sort_split [OF n less.prems(3), of "A @ xs @ B", unfolded Let_def arr len(1) [symmetric]]
  have ne: "us \<noteq> []" "vs \<noteq> []" "length us < ?n" "length vs < ?n" using len n by auto
  have fu: "merge_sort (A @ us @ vs @ B) (int (length A)) (int (length A + length us) - 1) = fault OutOfBounds"
    if "\<not> pow2 (length us)"
    using less.hyps [of us A "vs @ B"] that ne less.prems(3) xs by simp
  show ?case
  proof (cases "pow2 (length us)")
    case False
    from fu [OF this] show ?thesis unfolding arr split by simp
  next
    case True
    then obtain k where k: "length us = 2 ^ k" by (auto simp: pow2_def)
    obtain us' where us': "merge_sort (A @ us @ vs @ B) (int (length A)) (int (length A + length us) - 1) =
        ret (A @ us' @ vs @ B)" "mset us' = mset us"
      using merge_sort_power [OF k, of A "vs @ B"] less.prems(3) xs by auto
    have len': "length us' = length us" using us'(2) by (metis size_mset)
    have e: "int (length A + length us) - 1 + 1 = int (length (A @ us'))"
      "int (length A + ?n) - 1 = int (length (A @ us') + length vs) - 1"
      "int (length A + ?n) - 1 = int (length A + length us + length vs) - 1"
      using len' xs by auto
    have odd: "odd ?n" using less.prems(1) pow2_half [OF n] True len by auto
    then have d: "length us = Suc (length vs)" using len by presburger
    show ?thesis
    proof (cases "pow2 (length vs)")
      case False
      then have "merge_sort ((A @ us') @ vs @ B) (int (length (A @ us')))
          (int (length (A @ us') + length vs) - 1) = fault OutOfBounds"
        using less.hyps [of vs "A @ us'" B] ne less.prems(3) xs len' by simp
      then show ?thesis unfolding arr split us'(1) bnd_ret e(1) e(2) [symmetric] by simp
    next
      case True
      then obtain k where k: "length vs = 2 ^ k" by (auto simp: pow2_def)
      obtain vs' where vs': "merge_sort ((A @ us') @ vs @ B) (int (length (A @ us')))
          (int (length (A @ us') + length vs) - 1) = ret ((A @ us') @ vs' @ B)" "mset vs' = mset vs"
        using merge_sort_power [OF k, of "A @ us'" B] less.prems(3) xs len' by auto
      have lv: "length vs' = length vs" using vs'(2) by (metis size_mset)
      have "vs' \<noteq> []" using ne(2) lv by auto
      with do_merge_odd [of us' vs' A B] len' lv d
      have "do_merge (A @ us' @ vs' @ B) (int (length A)) (int (length A + length us) - 1)
          (int (length A + length us + length vs) - 1) = fault OutOfBounds" by simp
      then show ?thesis using vs'(1)
        unfolding arr split us'(1) bnd_ret e(1) e(2) [symmetric] e(3) [symmetric] by simp
    qed
  qed
qed

lemma merge_sort_short: "length xs \<le> 1 \<Longrightarrow> merge_sort xs 0 (int (length xs) - 1) = ret xs"
  by (subst merge_sort.simps) simp

interpretation merge: array_sort "\<lambda>xs. merge_sort xs 0 (int (length xs) - 1)"
    "\<lambda>xs. pow2 (length xs) \<and> int (length xs) \<le> INT_MAX"
proof
  fix xs :: "int list"
  assume pre: "pow2 (length xs) \<and> int (length xs) \<le> INT_MAX"
  then obtain k where k: "length xs = 2 ^ k" by (auto simp: pow2_def)
  have "k < 31"
  proof (rule ccontr)
    assume "\<not> k < 31"
    then have "(2 :: int) ^ 31 \<le> 2 ^ k" by (intro power_increasing) auto
    moreover have "int (length xs) = 2 ^ k" using k by simp
    ultimately show False using pre by (simp add: INT_MAX_def)
  qed
  then have "(2 :: int) ^ k \<le> 2 ^ 30" by (intro power_increasing) auto
  with k have "2 * int (length xs) \<le> INT_MAX + 3" by (simp add: INT_MAX_def)
  with merge_sort_power [OF k, of "[]" "[]"]
  show "\<exists>ys. merge_sort xs 0 (int (length xs) - 1) = ret ys \<and> sorted ys \<and> mset ys = mset xs"
    by auto
qed

section \<open>Properties\<close>

text \<open>
  C7: Merge sort on an array of at least two elements (and at most half the int range, so that the
  index sum does not overflow) sorts it when the length is a power of two and writes out of bounds
  otherwise; there is no third outcome.
\<close>

theorem merge_sort_power_of_two:
  assumes "2 \<le> length xs" and "2 * int (length xs) \<le> INT_MAX"
  shows "merge_sort xs 0 (int (length xs) - 1) =
    (if \<exists>k. length xs = 2 ^ k then ret (sort xs) else fault OutOfBounds)"
proof (cases "\<exists>k. length xs = 2 ^ k")
  case True
  then have "pow2 (length xs)" by (simp add: pow2_def)
  then show ?thesis using merge.sorter_eq [of xs] assms True by simp
next
  case False
  then have "\<not> pow2 (length xs)" "xs \<noteq> []" using assms(1) by (auto simp: pow2_def)
  then show ?thesis using merge_sort_overrun [of xs "[]" "[]"] assms(2) False by simp
qed

theorem merge_sort_power_of_two_witness:
  "merge_sort [4, 3, 2, 1] 0 3 = ret [1, 2, 3, 4] \<and> merge_sort [3, 2, 1] 0 2 = fault OutOfBounds"
proof
  have "\<exists>k. length [4, 3, 2, 1 :: int] = 2 ^ k" by (rule exI [of _ 2]) simp
  then show "merge_sort [4, 3, 2, 1] 0 3 = ret [1, 2, 3, 4]"
    using merge_sort_power_of_two [of "[4, 3, 2, 1]"] by (simp add: INT_MAX_def)
  have "Suc (Suc (Suc 0)) \<noteq> 2 ^ k" for k by (cases k) (auto dest: arg_cong [of _ _ even])
  then have "\<not> (\<exists>k. length [3, 2, 1 :: int] = 2 ^ k)" by simp
  then show "merge_sort [3, 2, 1] 0 2 = fault OutOfBounds"
    using merge_sort_power_of_two [of "[3, 2, 1]"] by (simp add: INT_MAX_def)
qed

end
