(* ===== verification/Sort_Quick.thy ===== *)
theory Sort_Quick
  imports Sort_Base
begin

text \<open>
  \<^verbatim>\<open>src/sort/quick_sort\<close>. The scan \<^verbatim>\<open>while (arr[i] <= pivot) i++\<close> has no bound: it stops only at an
  element greater than the pivot. The results: every run ends, with the sorted array or with
  an access behind the array, never with a wrong result. The array is sorted when its last
  element is its strict maximum, and a segment when some element behind it is greater than all of
  the segment; the scan leaves the array whenever the maximum is the first element or occurs
  twice.
\<close>

section \<open>Program\<close>

partial_function (option) scan_right :: "int list \<Rightarrow> int \<Rightarrow> int \<Rightarrow> int cres" where
  "scan_right arr pivot i =
     bnd (rd arr i) (\<lambda>x. if x \<le> pivot then scan_right arr pivot (i + 1) else ret i)"

partial_function (option) scan_left :: "int list \<Rightarrow> int \<Rightarrow> int \<Rightarrow> int cres" where
  "scan_left arr pivot j =
     bnd (rd arr j) (\<lambda>x. if x > pivot then scan_left arr pivot (j - 1) else ret j)"

partial_function (option) partition_loop ::
    "int list \<Rightarrow> int \<Rightarrow> int \<Rightarrow> int \<Rightarrow> (int list \<times> int) cres" where
  "partition_loop arr pivot i j =
     (if i < j
      then bnd (scan_right arr pivot i) (\<lambda>i. bnd (scan_left arr pivot j) (\<lambda>j.
        if i < j
        then bnd (swap arr i j) (\<lambda>arr. partition_loop arr pivot i j)
        else partition_loop arr pivot i j))
      else ret (arr, j))"

definition partition_c :: "int list \<Rightarrow> int \<Rightarrow> int \<Rightarrow> (int list \<times> int) cres" where
  "partition_c arr left right =
     bnd (rd arr left) (\<lambda>pivot.
     bnd (partition_loop arr pivot left right) (\<lambda>(arr, j).
     bnd (swap arr j left) (\<lambda>arr. ret (arr, j))))"

partial_function (option) quick_sort :: "int list \<Rightarrow> int \<Rightarrow> int \<Rightarrow> int list cres" where
  "quick_sort arr left right =
     (if left \<ge> right then ret arr
      else bnd (partition_c arr left right) (\<lambda>(arr, cut_point).
           bnd (quick_sort arr left (cut_point - 1)) (\<lambda>arr.
             quick_sort arr (cut_point + 1) right)))"

definition quick_sort_main :: "int option \<Rightarrow> (nat \<Rightarrow> int) \<Rightarrow> out list cres" where
  "quick_sort_main =
     sort_main ''Enter amount of numbers:'' ''quick sort''
       (\<lambda>arr. quick_sort arr 0 (int (length arr) - 1)) (Some 0)"

section \<open>The two scans\<close>

lemma scan_right_ret:
  "i \<le> s \<Longrightarrow> s < length arr \<Longrightarrow> p < arr ! s \<Longrightarrow>
     \<exists>i'. scan_right arr p (int i) = ret (int i') \<and> i \<le> i' \<and> i' \<le> s \<and> p < arr ! i'
       \<and> (\<forall>a. i \<le> a \<longrightarrow> a < i' \<longrightarrow> arr ! a \<le> p)"
proof (induction "s - i" arbitrary: i)
  case 0
  then show ?case by (subst scan_right.simps) (auto intro!: exI [of _ i])
next
  case (Suc n)
  have e: "n = s - Suc i" "Suc i \<le> s" using Suc.hyps(2) by auto
  show ?case
  proof (cases "arr ! i \<le> p")
    case True
    obtain i' where i': "scan_right arr p (int (Suc i)) = ret (int i')" "Suc i \<le> i'" "i' \<le> s"
      "p < arr ! i'" "\<forall>a. Suc i \<le> a \<longrightarrow> a < i' \<longrightarrow> arr ! a \<le> p"
      using Suc.hyps(1) [of "Suc i"] e Suc.prems(2,3) by blast
    have "\<forall>a. i \<le> a \<longrightarrow> a < i' \<longrightarrow> arr ! a \<le> p" using i'(5) True by (metis Suc_leI le_neq_implies_less)
    moreover have "scan_right arr p (int i) = ret (int i')"
      using i'(1) True Suc.hyps(2) Suc.prems by (subst scan_right.simps) (simp add: add.commute)
    ultimately show ?thesis using i' by (intro exI [of _ i']) simp
  next
    case False
    with Suc.prems show ?thesis by (subst scan_right.simps) (auto intro!: exI [of _ i])
  qed
qed

lemma scan_right_off:
  "i \<le> length arr \<Longrightarrow> \<forall>a. i \<le> a \<longrightarrow> a < length arr \<longrightarrow> arr ! a \<le> p \<Longrightarrow>
     scan_right arr p (int i) = fault OutOfBounds"
proof (induction "length arr - i" arbitrary: i)
  case 0
  then show ?case by (subst scan_right.simps) simp
next
  case (Suc n)
  then have "scan_right arr p (int (Suc i)) = fault OutOfBounds" by (intro Suc.hyps(1)) auto
  with Suc.prems Suc.hyps(2) show ?case by (subst scan_right.simps) (simp add: add.commute)
qed

lemma scan_left_ret:
  "l \<le> j \<Longrightarrow> j < length arr \<Longrightarrow> arr ! l \<le> p \<Longrightarrow>
     \<exists>j'. scan_left arr p (int j) = ret (int j') \<and> l \<le> j' \<and> j' \<le> j \<and> arr ! j' \<le> p
       \<and> (\<forall>b. j' < b \<longrightarrow> b \<le> j \<longrightarrow> p < arr ! b)"
proof (induction "j - l" arbitrary: j)
  case 0
  then show ?case by (subst scan_left.simps) (auto intro!: exI [of _ j])
next
  case (Suc n)
  then obtain k where k: "j = Suc k" by (cases j) auto
  have e: "n = k - l" "l \<le> k" using Suc.hyps(2) k by auto
  show ?case
  proof (cases "p < arr ! j")
    case True
    obtain j' where j': "scan_left arr p (int k) = ret (int j')" "l \<le> j'" "j' \<le> k"
      "arr ! j' \<le> p" "\<forall>b. j' < b \<longrightarrow> b \<le> k \<longrightarrow> p < arr ! b"
      using Suc.hyps(1) [of k] e Suc.prems(2,3) k by auto
    have "scan_left arr p (int j) = ret (int j')"
      using j'(1) True Suc.prems k nat_int [of "Suc k"] by (subst scan_left.simps) simp
    with j' True k show ?thesis by (intro exI [of _ j']) (auto simp: le_Suc_eq)
  next
    case False
    with Suc.prems show ?thesis by (subst scan_left.simps) (auto intro!: exI [of _ j])
  qed
qed

section \<open>Partitioning\<close>

text \<open>
  The state of the loop for the segment from \<open>l\<close> to \<open>r\<close> with pivot \<open>p\<close> and a stopper at \<open>s\<close>,
  which every exchange renews; the array it began with is \<open>arr0\<close>. A last element greater than the
  pivot stays where it is.
\<close>

definition parting :: "int list \<Rightarrow> nat \<Rightarrow> nat \<Rightarrow> nat \<Rightarrow> int \<Rightarrow> nat \<Rightarrow> nat \<Rightarrow> int list \<Rightarrow> bool" where
  "parting arr0 l r s p i j arr \<longleftrightarrow>
     l \<le> i \<and> i < j \<and> j \<le> r \<and> r < length arr \<and> i < s \<and> s < length arr \<and> arr ! l = p \<and> p < arr ! s \<and> arr ! i \<le> p
     \<and> (\<forall>a. l \<le> a \<longrightarrow> a < i \<longrightarrow> arr ! a \<le> p) \<and> (\<forall>b. j < b \<longrightarrow> b \<le> r \<longrightarrow> p < arr ! b)
     \<and> length arr = length arr0 \<and> mset arr = mset arr0
     \<and> (\<forall>k. k < l \<or> r < k \<longrightarrow> arr ! k = arr0 ! k) \<and> (p < arr0 ! r \<longrightarrow> arr ! r = arr0 ! r)"

text \<open>What the loop leaves: \<open>j\<close> is the last place whose element is not greater than the pivot.\<close>

definition parted :: "int list \<Rightarrow> nat \<Rightarrow> nat \<Rightarrow> int \<Rightarrow> nat \<Rightarrow> int list \<Rightarrow> bool" where
  "parted arr0 l r p j arr \<longleftrightarrow>
     l \<le> j \<and> j \<le> r \<and> arr ! l = p \<and> (\<forall>a. l \<le> a \<longrightarrow> a \<le> j \<longrightarrow> arr ! a \<le> p)
     \<and> (\<forall>b. j < b \<longrightarrow> b \<le> r \<longrightarrow> p < arr ! b)
     \<and> length arr = length arr0 \<and> mset arr = mset arr0
     \<and> (\<forall>k. k < l \<or> r < k \<longrightarrow> arr ! k = arr0 ! k) \<and> (p < arr0 ! r \<longrightarrow> arr ! r = arr0 ! r)"

lemma partition_loop_ret:
  "parting arr0 l r s p i j arr \<Longrightarrow>
     \<exists>arr' j'. partition_loop arr p (int i) (int j) = ret (arr', int j') \<and> parted arr0 l r p j' arr'"
proof (induction "j - i" arbitrary: i j s arr rule: less_induct)
  case less
  note P = less.prems [unfolded parting_def]
  obtain i' where i': "scan_right arr p (int i) = ret (int i')" "i \<le> i'" "i' \<le> s" "p < arr ! i'"
    "\<forall>a. i \<le> a \<longrightarrow> a < i' \<longrightarrow> arr ! a \<le> p"
    using scan_right_ret [of i s arr p] P by auto
  obtain j' where j': "scan_left arr p (int j) = ret (int j')" "l \<le> j'" "j' \<le> j" "arr ! j' \<le> p"
    "\<forall>b. j' < b \<longrightarrow> b \<le> j \<longrightarrow> p < arr ! b"
    using scan_left_ret [of l j arr p] P by auto
  have low: "\<And>a. l \<le> a \<Longrightarrow> a < i' \<Longrightarrow> arr ! a \<le> p" using P i'(5) by (metis not_le_imp_less)
  have high: "\<And>b. j' < b \<Longrightarrow> b \<le> r \<Longrightarrow> p < arr ! b" using P j'(5) by (metis not_le_imp_less)
  have ne: "i < i'" "i' \<noteq> j'" using i'(2,4) j'(4) P by (auto simp: order.order_iff_strict)
  show ?case
  proof (cases "i' < j'")
    case True
    let ?arr = "swp arr i' j'"
    have len: "i' < length arr" "j' < length arr" using True j'(3) P by auto
    have nth: "?arr ! k = arr ! (if k = i' then j' else if k = j' then i' else k)"
      if "k < length arr" for k using that len by (rule nth_swp [rotated 2])
    have "?arr ! k = arr ! k" if "k \<noteq> i'" "k \<noteq> j'" for k using that by (simp add: swp_def)
    moreover have "j' \<noteq> r" if "p < arr0 ! r" using that P j'(4) by auto
    ultimately have "parting arr0 l r j' p i' j' ?arr"
      using P True i' j' ne low high len nth [of i'] nth [of j']
      unfolding parting_def by auto
    moreover have "j' - i' < j - i" using ne True j'(3) by linarith
    ultimately have "\<exists>arr' k. partition_loop ?arr p (int i') (int j') = ret (arr', int k)
        \<and> parted arr0 l r p k arr'" using less.hyps by blast
    then show ?thesis
      using P i'(1) j'(1) True len by (subst partition_loop.simps) simp
  next
    case False
    have "partition_loop arr p (int i') (int j') = ret (arr, int j')"
      using False by (subst partition_loop.simps) simp
    then have "partition_loop arr p (int i) (int j) = ret (arr, int j')"
      using P i'(1) j'(1) False by (subst partition_loop.simps) simp
    moreover have "parted arr0 l r p j' arr"
      using P False ne(2) low high j' unfolding parted_def by auto
    ultimately show ?thesis by blast
  qed
qed

text \<open>In terms of the segment: \<open>xs\<close> becomes \<open>ls @ p # rs\<close>.\<close>

lemma segment_of:
  assumes "length arr' = length arr" and "\<forall>k. k < length A \<or> length A + n \<le> k \<longrightarrow> arr' ! k = arr ! k"
    and "arr = A @ xs @ B" and "length xs = n"
  shows "\<exists>ys. arr' = A @ ys @ B \<and> length ys = n"
proof -
  let ?ys = "take n (drop (length A) arr')"
  have "take (length A) arr' = A"
    using assms by (intro nth_equalityI) (auto simp: nth_append)
  moreover have "drop (length A + n) arr' = B"
    using assms by (intro nth_equalityI) (auto simp: nth_append)
  moreover have "arr' = take (length A) arr' @ ?ys @ drop (length A + n) arr'"
    by (metis append_take_drop_id drop_drop add.commute)
  moreover have "length ?ys = n" using assms by simp
  ultimately show ?thesis by metis
qed

lemma parted_segment:
  assumes "parted (A @ xs @ B) (length A) (length A + length xs - 1) p j arr" and "2 \<le> length xs"
  shows "\<exists>ls rs. swp arr j (length A) = A @ (ls @ p # rs) @ B \<and> j = length A + length ls
    \<and> (\<forall>x \<in> set ls. x \<le> p) \<and> (\<forall>x \<in> set rs. p < x) \<and> mset (ls @ p # rs) = mset xs
    \<and> (p < last xs \<longrightarrow> rs \<noteq> [] \<and> last rs = last xs)"
proof -
  let ?l = "length A" and ?r = "length A + length xs - 1" and ?z = "swp arr j (length A)"
  note P = assms(1) [unfolded parted_def]
  have len: "length arr = length (A @ xs @ B)" "j < length arr" "?l < length arr" "?l \<le> j" "j \<le> ?r"
    using P assms(2) by auto
  have nth: "?z ! k = arr ! (if k = j then ?l else if k = ?l then j else k)" if "k < length arr" for k
    using that len by (intro nth_swp) auto
  have out: "?z ! k = arr ! k" if "k < ?l \<or> ?r < k" for k
    using that len by (auto simp: swp_def)
  obtain ys where ys: "?z = A @ ys @ B" "length ys = length xs"
    using segment_of [of ?z "A @ xs @ B" A "length xs" xs B] len(1) out P assms(2) by auto
  have zn: "?z ! (?l + k) = ys ! k" if "k < length xs" for k using that ys by (simp add: nth_append)
  define m where "m = j - ?l"
  have m: "m < length ys" "j = ?l + m" using len ys(2) assms(2) by (auto simp: m_def)
  have "ys ! m = p" using zn [of m] nth [of j] m ys(2) len P by auto
  then have split: "ys = take m ys @ p # drop (Suc m) ys" using id_take_nth_drop [OF m(1)] by simp
  have low: "x \<le> p" if x: "x \<in> set (take m ys)" for x
  proof -
    obtain k where "k < length (take m ys)" "take m ys ! k = x"
      using x unfolding in_set_conv_nth by blast
    then have k: "k < m" "x = ys ! k" by auto
    then show ?thesis
      using zn [of k] nth [of "?l + k"] m ys(2) len P by (auto split: if_splits)
  qed
  have high: "p < x" if x: "x \<in> set (drop (Suc m) ys)" for x
  proof -
    obtain k where k: "k < length ys - Suc m" "x = ys ! (Suc m + k)"
      using x by (auto simp: in_set_conv_nth)
    then show ?thesis
      using zn [of "Suc m + k"] nth [of "?l + (Suc m + k)"] m ys(2) len P by (auto split: if_splits)
  qed
  have "mset ?z = mset (A @ xs @ B)" using len P by simp
  then have "mset ys = mset xs" using ys(1) by simp
  moreover have "drop (Suc m) ys \<noteq> [] \<and> last (drop (Suc m) ys) = last xs" if "p < last xs"
  proof -
    have nx: "(A @ xs @ B) ! ?r = last xs" using assms(2) by (cases xs rule: rev_cases) (auto simp: nth_append)
    then have "arr ! ?r = last xs" "j \<noteq> ?r" "?l \<noteq> ?r" using P that assms(2) by auto
    then have "?z ! ?r = last xs" "m \<noteq> length xs - 1" using nth [of ?r] len m assms(2) by auto
    moreover have "?z ! ?r = last ys"
      using zn [of "length xs - 1"] ys(2) assms(2) last_conv_nth [of ys] by fastforce
    ultimately show ?thesis using m ys(2) by (auto simp: last_drop)
  qed
  ultimately show ?thesis using split low high m ys(1)
    by (intro exI [of _ "take m ys"] exI [of _ "drop (Suc m) ys"]) auto
qed

text \<open>The partitioning returns as soon as one element from the segment on is greater than the pivot.\<close>

lemma partition_ret:
  assumes "2 \<le> length xs" and "b \<in> set (xs @ B)" and "hd xs < b"
  shows "\<exists>ls rs. partition_c (A @ xs @ B) (int (length A)) (int (length A + length xs) - 1) =
      ret (A @ (ls @ hd xs # rs) @ B, int (length A + length ls))
    \<and> (\<forall>x \<in> set ls. x \<le> hd xs) \<and> (\<forall>x \<in> set rs. hd xs < x) \<and> mset (ls @ hd xs # rs) = mset xs
    \<and> (hd xs < last xs \<longrightarrow> rs \<noteq> [] \<and> last rs = last xs)"
proof -
  let ?arr = "A @ xs @ B" and ?l = "length A" and ?r = "length A + length xs - 1" and ?p = "hd xs"
  have ne: "xs \<noteq> []" using assms(1) by auto
  obtain t where t: "t < length (xs @ B)" "?p < (xs @ B) ! t"
    using assms(2,3) unfolding in_set_conv_nth by blast
  have t0: "0 < t" using t(2) ne by (cases t) (auto simp: nth_append hd_conv_nth)
  then have "parting ?arr ?l ?r (?l + t) ?p ?l ?r ?arr"
    using assms(1) t ne by (auto simp: parting_def nth_append hd_conv_nth)
  then obtain arr j where run: "partition_loop ?arr ?p (int ?l) (int ?r) = ret (arr, int j)"
    and pd: "parted ?arr ?l ?r ?p j arr" using partition_loop_ret by blast
  from parted_segment [OF pd assms(1)] obtain ls rs where
    seg: "swp arr j ?l = A @ (ls @ ?p # rs) @ B" "j = ?l + length ls"
    "\<forall>x \<in> set ls. x \<le> ?p" "\<forall>x \<in> set rs. ?p < x" "mset (ls @ ?p # rs) = mset xs"
    "?p < last xs \<longrightarrow> rs \<noteq> [] \<and> last rs = last xs" by blast
  have "j < length arr" "?l < length arr" using pd assms(1) by (auto simp: parted_def)
  then have sw: "swap arr (int j) (int ?l) = ret (A @ (ls @ ?p # rs) @ B)" using seg(1) by simp
  have rd: "rd ?arr (int ?l) = ret ?p" using ne by (cases xs) (auto simp: rd_def nth_append)
  have "int ?r = int (?l + length xs) - 1" using assms(1) by simp
  then have "partition_c ?arr (int ?l) (int (?l + length xs) - 1) =
      ret (A @ (ls @ ?p # rs) @ B, int (?l + length ls))"
    using run unfolding partition_c_def rd bnd_ret by (simp only: bnd_ret split_conv sw [unfolded seg(2)] seg(2))
  with seg(3-6) show ?thesis by blast
qed

section \<open>The whole sort\<close>

lemma sort_parts:
  assumes "\<forall>x \<in> set ls. x \<le> p" and "\<forall>x \<in> set rs. p < x" and "mset (ls @ p # rs) = mset xs"
  shows "sort xs = sort ls @ p # sort (rs :: int list)"
proof (rule properties_for_sort)
  show "mset (sort ls @ p # sort rs) = mset xs" using assms(3) by simp
  show "sorted (sort ls @ p # sort rs)" using assms(1,2) by (force simp: sorted_append)
qed

lemma quick_sort_short: "right \<le> left \<Longrightarrow> quick_sort arr left right = ret arr"
  by (subst quick_sort.simps) simp

text \<open>One level of the recursion, when the partitioning returns.\<close>

lemma quick_sort_step:
  assumes "2 \<le> length xs" and "b \<in> set (xs @ B)" and "hd xs < b"
  obtains ls rs where "\<forall>x \<in> set ls. x \<le> hd xs" and "\<forall>x \<in> set rs. hd xs < x"
    and "mset (ls @ hd xs # rs) = mset xs" and "hd xs < last xs \<longrightarrow> rs \<noteq> [] \<and> last rs = last xs"
    and "set xs = set (ls @ hd xs # rs)" and "length xs = Suc (length ls + length rs)"
    and "sort xs = sort ls @ hd xs # sort rs"
    and "quick_sort (A @ xs @ B) (int (length A)) (int (length A + length xs) - 1) =
      bnd (quick_sort (A @ ls @ hd xs # rs @ B) (int (length A)) (int (length A + length ls) - 1)) (\<lambda>arr.
        quick_sort arr (int (length A + length ls) + 1) (int (length A + length xs) - 1))"
proof -
  obtain ls rs where part: "partition_c (A @ xs @ B) (int (length A)) (int (length A + length xs) - 1) =
      ret (A @ (ls @ hd xs # rs) @ B, int (length A + length ls))"
    "\<forall>x \<in> set ls. x \<le> hd xs" "\<forall>x \<in> set rs. hd xs < x" "mset (ls @ hd xs # rs) = mset xs"
    "hd xs < last xs \<longrightarrow> rs \<noteq> [] \<and> last rs = last xs"
    using partition_ret [OF assms] by blast
  have "set xs = set (ls @ hd xs # rs)" using part(4) by (metis set_mset_mset)
  moreover have "length xs = Suc (length ls + length rs)"
    using part(4) by (metis add_Suc_right length_Cons length_append size_mset)
  moreover have "quick_sort (A @ xs @ B) (int (length A)) (int (length A + length xs) - 1) =
      bnd (quick_sort (A @ ls @ hd xs # rs @ B) (int (length A)) (int (length A + length ls) - 1)) (\<lambda>arr.
        quick_sort arr (int (length A + length ls) + 1) (int (length A + length xs) - 1))"
    using part(1) assms(1) by (subst quick_sort.simps) simp
  ultimately show thesis using that part(2-5) sort_parts [OF part(2-4)] by blast
qed

text \<open>A segment with a greater element behind it is sorted.\<close>

definition stopped :: "int list \<Rightarrow> int list \<Rightarrow> bool" where
  "stopped xs B \<longleftrightarrow> (\<exists>b \<in> set B. \<forall>x \<in> set xs. x < b)"

lemma quick_sort_segment:
  "stopped xs B \<Longrightarrow>
     quick_sort (A @ xs @ B) (int (length A)) (int (length A + length xs) - 1) = ret (A @ sort xs @ B)"
proof (induction "length xs" arbitrary: A xs B rule: less_induct)
  case less
  show ?case
  proof (cases "2 \<le> length xs")
    case False
    then have "sort xs = xs" by (cases xs; cases "tl xs") auto
    with False show ?thesis by (simp add: quick_sort_short)
  next
    case True
    then obtain b where "b \<in> set (xs @ B)" "hd xs < b" "\<forall>x \<in> set xs. x < b" "b \<in> set B"
      using less.prems by (cases xs) (auto simp: stopped_def)
    then obtain ls rs where st: "\<forall>x \<in> set ls. x \<le> hd xs" "\<forall>x \<in> set rs. hd xs < x"
      "set xs = set (ls @ hd xs # rs)" "length xs = Suc (length ls + length rs)"
      "sort xs = sort ls @ hd xs # sort rs"
      "quick_sort (A @ xs @ B) (int (length A)) (int (length A + length xs) - 1) =
        bnd (quick_sort (A @ ls @ hd xs # rs @ B) (int (length A)) (int (length A + length ls) - 1)) (\<lambda>arr.
          quick_sort arr (int (length A + length ls) + 1) (int (length A + length xs) - 1))"
      using quick_sort_step [OF True] by metis
    have stop: "stopped ls (hd xs # rs @ B)" "stopped rs B"
      using less.prems st(3) unfolding stopped_def by auto
    have "quick_sort (A @ ls @ hd xs # rs @ B) (int (length A)) (int (length A + length ls) - 1) =
        ret (A @ sort ls @ hd xs # rs @ B)"
      using less.hyps [of ls "hd xs # rs @ B" A] stop(1) st(4) by simp
    then show ?thesis
      using less.hyps [of rs B "A @ sort ls @ [hd xs]"] stop(2) st(4-6) by (simp add: ac_simps)
  qed
qed

text \<open>
  The segment at the end of the array: the left part has the right part behind it, so that only
  the right part can go wrong.
\<close>

abbreviation sort_end :: "int list \<Rightarrow> int list \<Rightarrow> int list cres" where
  "sort_end A xs \<equiv> quick_sort (A @ xs) (int (length A)) (int (length A + length xs) - 1)"

lemma quick_sort_last_step:
  assumes "2 \<le> length xs" and "b \<in> set xs" and "hd xs < b"
  obtains ls rs where "\<forall>x \<in> set ls. x \<le> hd xs" and "\<forall>x \<in> set rs. hd xs < x"
    and "mset (ls @ hd xs # rs) = mset xs" and "hd xs < last xs \<longrightarrow> rs \<noteq> [] \<and> last rs = last xs"
    and "length rs < length xs" and "sort xs = sort ls @ hd xs # sort rs"
    and "sort_end A xs = sort_end (A @ sort ls @ [hd xs]) rs"
proof -
  have "b \<in> set (xs @ [])" using assms(2) by simp
  from quick_sort_step [OF assms(1) this assms(3), of A] obtain ls rs where
    st: "\<forall>x \<in> set ls. x \<le> hd xs" "\<forall>x \<in> set rs. hd xs < x" "mset (ls @ hd xs # rs) = mset xs"
    "hd xs < last xs \<longrightarrow> rs \<noteq> [] \<and> last rs = last xs" "set xs = set (ls @ hd xs # rs)"
    "length xs = Suc (length ls + length rs)" "sort xs = sort ls @ hd xs # sort rs"
    "quick_sort (A @ xs @ []) (int (length A)) (int (length A + length xs) - 1) =
      bnd (quick_sort (A @ ls @ hd xs # rs @ []) (int (length A)) (int (length A + length ls) - 1)) (\<lambda>arr.
        quick_sort arr (int (length A + length ls) + 1) (int (length A + length xs) - 1))" by blast
  have "b \<in> set rs" using assms(2,3) st(1,5) by auto
  then have "stopped ls (hd xs # rs)" using st(1,2) unfolding stopped_def by fastforce
  then have "quick_sort (A @ ls @ hd xs # rs) (int (length A)) (int (length A + length ls) - 1) =
      ret (A @ sort ls @ hd xs # rs)"
    using quick_sort_segment [of ls "hd xs # rs" A] by simp
  then show thesis using that [of ls rs] st by (simp add: ac_simps)
qed

text \<open>The largest element first, and nothing behind the array: the scan leaves the array.\<close>

lemma quick_sort_overrun:
  assumes "2 \<le> length xs" and "\<forall>x \<in> set xs. x \<le> hd xs"
  shows "sort_end A xs = fault OutOfBounds"
proof -
  let ?l = "int (length A)"
  have "scan_right (A @ xs) (hd xs) ?l = fault OutOfBounds"
    using assms by (intro scan_right_off) (auto simp: nth_append)
  moreover have "rd (A @ xs) ?l = ret (hd xs)" using assms(1) by (cases xs) (auto simp: rd_def nth_append)
  ultimately have "partition_c (A @ xs) ?l (int (length A + length xs) - 1) = fault OutOfBounds"
    using assms(1) unfolding partition_c_def by (subst partition_loop.simps) simp
  with assms(1) show ?thesis by (subst quick_sort.simps) simp
qed

lemma quick_sort_dichotomy:
  "sort_end A xs \<in>
     {ret (A @ sort xs), fault OutOfBounds}"
proof (induction "length xs" arbitrary: A xs rule: less_induct)
  case less
  consider "length xs < 2" | "2 \<le> length xs" "\<forall>x \<in> set xs. x \<le> hd xs"
    | b where "2 \<le> length xs" "b \<in> set xs" "hd xs < b" by force
  then show ?case
  proof cases
    case 1
    then have "sort xs = xs" by (cases xs; cases "tl xs") auto
    with 1 show ?thesis by (simp add: quick_sort_short)
  next
    case 2
    then show ?thesis using quick_sort_overrun [of xs A] by simp
  next
    case 3
    from quick_sort_last_step [OF this, of A] obtain ls rs where
      st: "length rs < length xs" "sort xs = sort ls @ hd xs # sort rs"
      "sort_end A xs = sort_end (A @ sort ls @ [hd xs]) rs" by metis
    show ?thesis unfolding st(3) using less.hyps [OF st(1), of "A @ sort ls @ [hd xs]"] st(2) by simp
  qed
qed

text \<open>A maximum that occurs twice becomes the pivot of a longer segment at the end of the array.\<close>

lemma quick_sort_maximum_twice:
  "2 \<le> count (mset xs) m \<Longrightarrow> \<forall>x \<in> set xs. x \<le> m \<Longrightarrow>
     sort_end A xs = fault OutOfBounds"
proof (induction "length xs" arbitrary: A xs rule: less_induct)
  case less
  have len: "2 \<le> length xs" using less.prems(1) count_le_size [of "mset xs" m] by simp
  have m: "m \<in> set xs" using less.prems(1) by (metis count_mset_0_iff not_numeral_le_zero)
  show ?case
  proof (cases "hd xs = m")
    case True
    with len less.prems(2) show ?thesis by (intro quick_sort_overrun) auto
  next
    case False
    then have "hd xs < m" using less.prems(2) len by (cases xs) force+
    from quick_sort_last_step [OF len m this, of A] obtain ls rs where
      st: "\<forall>x \<in> set ls. x \<le> hd xs" "mset (ls @ hd xs # rs) = mset xs" "length rs < length xs"
      "sort_end A xs = sort_end (A @ sort ls @ [hd xs]) rs" by metis
    have "m \<notin> set ls" using st(1) \<open>hd xs < m\<close> by auto
    then have "count (mset xs) m = count (mset rs) m"
      using False by (simp add: st(2) [symmetric] count_mset_0_iff)
    moreover have "set rs \<subseteq> set xs" using mset_eq_setD [OF st(2)] by auto
    ultimately show ?thesis
      unfolding st(4) using less.prems by (intro less.hyps [OF st(3)]) auto
  qed
qed

text \<open>A strict maximum at the end stays there, and stops every scan.\<close>

lemma quick_sort_greatest_last:
  "\<forall>x \<in> set ys. x < m \<Longrightarrow> mset xs = mset (ys @ [m]) \<Longrightarrow> last xs = m \<Longrightarrow>
     sort_end A xs = ret (A @ sort xs)"
proof (induction "length xs" arbitrary: A xs ys rule: less_induct)
  case less
  show ?case
  proof (cases "2 \<le> length xs")
    case False
    then have "sort xs = xs" by (cases xs; cases "tl xs") auto
    with False show ?thesis by (simp add: quick_sort_short)
  next
    case True
    obtain zs where xs: "xs = zs @ [m]"
      using True less.prems(3) by (cases xs rule: rev_cases) auto
    then have zs: "mset zs = mset ys" using less.prems(2) by simp
    then have small: "\<forall>x \<in> set zs. x < m" using less.prems(1) mset_eq_setD by blast
    have hd: "hd xs < m" using True xs small by (cases zs) auto
    moreover have "m \<in> set xs" using xs by simp
    ultimately obtain ls rs where st: "hd xs < last xs \<longrightarrow> rs \<noteq> [] \<and> last rs = last xs"
      "mset (ls @ hd xs # rs) = mset xs" "length rs < length xs" "sort xs = sort ls @ hd xs # sort rs"
      "sort_end A xs = sort_end (A @ sort ls @ [hd xs]) rs"
      using quick_sort_last_step [OF True, of m A] by metis
    obtain ws where rs: "rs = ws @ [m]" using st(1) hd less.prems(3) by (cases rs rule: rev_cases) auto
    have "mset (ls @ hd xs # ws) = mset zs" using st(2) by (simp add: rs xs)
    from mset_eq_setD [OF this] have "set ws \<subseteq> set zs" by auto
    then have "\<forall>x \<in> set ws. x < m" using small by auto
    then show ?thesis
      unfolding st(5) using less.hyps [OF st(3), of ws "A @ sort ls @ [hd xs]"] rs st(4) by simp
  qed
qed

text \<open>The contract holds for the arrays whose last element is the strict maximum.\<close>

interpretation quick: array_sort
    "\<lambda>xs. quick_sort xs 0 (int (length xs) - 1)" "\<lambda>xs. \<forall>x \<in> set (butlast xs). x < last xs"
proof
  fix xs :: "int list"
  assume "\<forall>x \<in> set (butlast xs). x < last xs"
  then have "quick_sort xs 0 (int (length xs) - 1) = ret (sort xs)"
    using quick_sort_greatest_last [of "butlast xs" "last xs" xs "[]"]
    by (cases "xs = []") (simp_all add: quick_sort_short)
  then show "\<exists>ys. quick_sort xs 0 (int (length xs) - 1) = ret ys \<and> sorted ys \<and> mset ys = mset xs" by simp
qed

section \<open>Properties\<close>

text \<open>
  C8: Quick sort ends and sorts its segment, leaving the memory around it as it was, when some word
  behind the segment is greater than every element of it.
\<close>

theorem quick_sort_correct:
  assumes "b \<in> set B" and "\<forall>x \<in> set xs. x < b"
  shows "quick_sort (A @ xs @ B) (int (length A)) (int (length A + length xs) - 1) =
    ret (A @ sort xs @ B)"
  using quick_sort_segment [of xs B A] assms by (auto simp: stopped_def)

theorem quick_sort_correct_witness:
  "quick_sort [9, 3, 1, 2, 7] 1 3 = ret [9, 1, 2, 3, 7]"
  using quick_sort_correct [of 7 "[7]" "[3, 1, 2]" "[9]"] by simp

text \<open>
  C9: On an array with nothing behind it, every run ends, either with the array sorted or with an
  access behind the array, never with another result. The array is sorted when its last element is
  greater than all others. The unbounded scan leaves the array when the first of several elements
  is the maximum, and whenever the maximum occurs twice.
\<close>

theorem quick_sort_total:
  "quick_sort xs 0 (int (length xs) - 1) \<in> {ret (sort xs), fault OutOfBounds}
   \<and> ((\<forall>x \<in> set (butlast xs). x < last xs) \<longrightarrow> quick_sort xs 0 (int (length xs) - 1) = ret (sort xs))
   \<and> (2 \<le> length xs \<and> (\<forall>x \<in> set xs. x \<le> hd xs) \<longrightarrow>
        quick_sort xs 0 (int (length xs) - 1) = fault OutOfBounds)
   \<and> (2 \<le> count (mset xs) m \<and> (\<forall>x \<in> set xs. x \<le> m) \<longrightarrow>
        quick_sort xs 0 (int (length xs) - 1) = fault OutOfBounds)"
  using quick_sort_dichotomy [of "[]" xs] quick.sorter_eq [of xs] quick_sort_overrun [of xs "[]"]
    quick_sort_maximum_twice [of xs m "[]"]
  by simp_all

theorem quick_sort_total_witness:
  "quick_sort [2, 3, 1, 4] 0 3 = ret [1, 2, 3, 4] \<and> quick_sort [8, 5, 7] 0 2 = fault OutOfBounds
   \<and> quick_sort [1, 8, 5, 8] 0 3 = fault OutOfBounds"
  using quick_sort_total [of "[2, 3, 1, 4]"] quick_sort_total [of "[8, 5, 7]"]
    quick_sort_total [of "[1, 8, 5, 8]" 8]
  by (simp add: insort_key.simps)

end
