(* ===== verification/C_Bytes.thy ===== *)
theory C_Bytes
  imports C_Prelude
begin

text \<open>
  Strings and numbers in memory, for the programs that work on buffers: a buffer is the list of its
  bytes, \<open>None\<close> for a byte nobody has written; \<^verbatim>\<open>strcpy\<close> and reading a C string; the conversion of an
  unsigned number to \<^verbatim>\<open>int\<close>; decimal and hexadecimal text, text padded to a width, the text of
  addresses; and the bytes of a netlink attribute.
\<close>

type_synonym obuf = "nat option list"

text \<open>A C string in memory, and \<^verbatim>\<open>strcpy\<close> to an offset of a buffer.\<close>

fun ostr :: "obuf \<Rightarrow> string cres" where
  "ostr [] = fault OutOfBounds"
| "ostr (None # bs) = fault Uninit"
| "ostr (Some b # bs) = (if b = 0 then ret [] else bnd (ostr bs) (\<lambda>s. ret (char_of b # s)))"

definition str_bytes :: "string \<Rightarrow> obuf" where
  "str_bytes s = map (\<lambda>c. Some (of_char c)) s @ [Some 0]"

definition strcpy_at :: "obuf \<Rightarrow> nat \<Rightarrow> string \<Rightarrow> obuf cres" where
  "strcpy_at m a s =
     (if a + length s + 1 \<le> length m
      then ret (take a m @ str_bytes s @ drop (a + length s + 1) m) else fault OutOfBounds)"

text \<open>The conversion of an \<^verbatim>\<open>unsigned int\<close> to \<^verbatim>\<open>int\<close>.\<close>

definition to_int :: "nat \<Rightarrow> int" where
  "to_int n = (if n < 2147483648 then int n else int n - 4294967296)"

definition hex_char :: "nat \<Rightarrow> char" where
  "hex_char n = (if n < 10 then char_of (48 + n) else char_of (87 + n))"

definition hex2 :: "nat \<Rightarrow> string" where
  "hex2 n = [hex_char (n div 16), hex_char (n mod 16)]"

fun mac_text :: "nat list \<Rightarrow> string" where
  "mac_text [] = []"
| "mac_text [b] = hex2 b"
| "mac_text (b # bs) = hex2 b @ [CHR '':''] @ mac_text bs"

lemma ostr_str_bytes: "\<forall>c \<in> set s. of_char c \<noteq> (0 :: nat) \<Longrightarrow> ostr (str_bytes s @ r) = ret s"
  unfolding str_bytes_def by (induction s) auto

lemma ostr_append: "ostr xs = ret s \<Longrightarrow> ostr (xs @ ys) = ret s"
  by (induction xs arbitrary: s rule: ostr.induct) (auto elim!: bnd_eq_ret_E split: if_splits)

lemma length_str_bytes [simp]: "length (str_bytes s) = length s + 1"
  by (simp add: str_bytes_def)

definition c_string :: "string \<Rightarrow> bool" where
  "c_string s \<longleftrightarrow> list_all (\<lambda>c. of_char c \<noteq> (0 :: nat)) s"

section \<open>Decimal text\<close>

fun digits :: "nat \<Rightarrow> nat list" where
  "digits n = (if n < 10 then [n] else digits (n div 10) @ [n mod 10])"

declare digits.simps [simp del]

definition dec :: "nat \<Rightarrow> string" where
  "dec n = map (\<lambda>d. char_of (48 + d)) (digits n)"

lemma length_digits: "0 < k \<Longrightarrow> n < 10 ^ k \<Longrightarrow> length (digits n) \<le> k"
proof (induction n arbitrary: k rule: digits.induct)
  case (1 n)
  show ?case
  proof (cases "n < 10")
    case True
    then show ?thesis using 1 by (subst digits.simps) simp
  next
    case False
    then have "1 < k" using 1(3) by (cases k; cases "k - 1") auto
    moreover have "n div 10 < 10 ^ (k - 1)"
      using 1(3) \<open>1 < k\<close> by (cases k) (auto simp: less_mult_imp_div_less mult.commute)
    ultimately show ?thesis using 1(1) [of "k - 1"] False by (subst digits.simps) simp
  qed
qed

lemma digits_value: "foldl (\<lambda>n d. n * 10 + d) 0 (digits v) = v"
  by (induction v rule: digits.induct) (subst digits.simps, simp)

lemma digits_range: "d \<in> set (digits n) \<Longrightarrow> d < 10"
  by (induction n rule: digits.induct) (subst (asm) (2) digits.simps, auto split: if_splits)

lemma digits_nonempty: "digits n \<noteq> []"
  by (subst digits.simps) simp

text \<open>\<^verbatim>\<open>%d\<close>, the padding of \<^verbatim>\<open>%-10s\<close>, and the text of an IPv4 address.\<close>

definition int_text :: "int \<Rightarrow> string" where
  "int_text i = (if i < 0 then ''-'' @ dec (nat (- i)) else dec (nat i))"

definition pad_right :: "nat \<Rightarrow> string \<Rightarrow> string" where
  "pad_right n s = s @ replicate (n - length s) (CHR '' '')"

definition dotted_text :: "nat list \<Rightarrow> string" where
  "dotted_text bs = dec (bs ! 0) @ ''.'' @ dec (bs ! 1) @ ''.'' @ dec (bs ! 2) @ ''.'' @ dec (bs ! 3)"

section \<open>Netlink attributes\<close>

text \<open>The length with the header of four bytes, the type, the data and the padding to a multiple of four.\<close>

definition enc_attr :: "nat \<times> nat list \<Rightarrow> nat list" where
  "enc_attr x = le_enc 2 (4 + length (snd x)) @ le_enc 2 (fst x) @ snd x
     @ replicate ((4 + length (snd x) + 3) div 4 * 4 - (4 + length (snd x))) 0"

definition attr_ok :: "nat \<times> nat list \<Rightarrow> bool" where
  "attr_ok x \<longleftrightarrow> fst x < 65536 \<and> length (snd x) < 65532"

lemma length_enc_attr [simp]: "length (enc_attr x) = (4 + length (snd x) + 3) div 4 * 4"
proof -
  have "4 + length (snd x) \<le> (4 + length (snd x) + 3) div 4 * 4" by linarith
  then show ?thesis by (simp add: enc_attr_def)
qed

end
