(* ===== verification/Rt_Netlink.thy ===== *)
theory Rt_Netlink
  imports C_Bytes
begin

text \<open>
  The route netlink programs under \<^verbatim>\<open>src/socket/netlink_socket/rt_netlink\<close>: requests for addresses,
  links and routes, and the parsing of the replies.

  The netlink header files are not part of the repository. What the programs use of them, the
  macros that walk through messages and attributes, the accessors of the header structures and
  the numeric constants, is the record \<open>uapi\<close>, an argument of every definition. \<open>attr_macros\<close> states
  what rtnetlink(3) documents of the attribute macros; \<open>linux_uapi\<close> is a concrete instance. The
  replies are what \<^verbatim>\<open>recvmsg\<close> returns, a list in the argument \<open>nl_env\<close>.

  A receive buffer is the list of its bytes and a pointer into it an index; access outside the
  buffer faults.
\<close>

section \<open>Memory and the header files\<close>

record uapi =
  NLMSG_OK :: "mem \<Rightarrow> int \<Rightarrow> int \<Rightarrow> bool cres"
  NLMSG_NEXT :: "mem \<Rightarrow> int \<Rightarrow> int \<Rightarrow> (int \<times> int) cres"   \<comment> \<open>new pointer, new remaining length\<close>
  NLMSG_DATA :: "int \<Rightarrow> int"
  NLMSG_LENGTH :: "int \<Rightarrow> int"
  NLMSG_ALIGN :: "int \<Rightarrow> int"
  nlmsg_len :: "mem \<Rightarrow> int \<Rightarrow> int cres"
  nlmsg_type :: "mem \<Rightarrow> int \<Rightarrow> int cres"
  RTA_OK :: "mem \<Rightarrow> int \<Rightarrow> int \<Rightarrow> bool cres"
  RTA_NEXT :: "mem \<Rightarrow> int \<Rightarrow> int \<Rightarrow> (int \<times> int) cres"
  RTA_DATA :: "int \<Rightarrow> int"
  rta_type :: "mem \<Rightarrow> int \<Rightarrow> int cres"
  IFA_RTA :: "int \<Rightarrow> int"
  IFLA_RTA :: "int \<Rightarrow> int"
  RTM_RTA :: "int \<Rightarrow> int"
  rtm_table :: "mem \<Rightarrow> int \<Rightarrow> int cres"
  ifi_up :: "mem \<Rightarrow> int \<Rightarrow> bool cres"          \<comment> \<open>\<^verbatim>\<open>ifi_flags & IFF_UP\<close>\<close>
  ifi_running :: "mem \<Rightarrow> int \<Rightarrow> bool cres"     \<comment> \<open>\<^verbatim>\<open>ifi_flags & IFF_RUNNING\<close>\<close>
  ifi_index :: "mem \<Rightarrow> int \<Rightarrow> int cres"
  sizeof_nlmsghdr :: int
  sizeof_ifaddrmsg :: int
  sizeof_ifinfomsg :: int
  sizeof_rtmsg :: int
  RTA_MAX :: int
  IFA_MAX :: int
  IFLA_MAX :: int
  IFA_LOCAL :: int
  IFLA_IFNAME :: int
  RTA_TABLE :: int
  RTA_GATEWAY :: int
  RTA_DST :: int
  RTA_OIF :: int
  RTA_PREFSRC :: int
  RT_TABLE_MAIN :: int
  NLMSG_DONE :: int
  RTM_GETADDR :: int
  RTM_NEWADDR :: int
  RTM_DELADDR :: int
  RTM_GETLINK :: int
  RTM_NEWLINK :: int
  RTM_DELLINK :: int
  RTM_GETROUTE :: int
  RTM_NEWROUTE :: int
  RTM_DELROUTE :: int
  NLM_F_DUMP_REQUEST :: int                      \<comment> \<open>\<^verbatim>\<open>NLM_F_REQUEST | NLM_F_ACK | NLM_F_DUMP\<close>\<close>
  AF_INET :: int

text \<open>Reading a host-order int, a C string, and the text \<^verbatim>\<open>inet_ntop(AF_INET, ...)\<close> makes.\<close>

definition rd_int32 :: "mem \<Rightarrow> int \<Rightarrow> int cres" where
  "rd_int32 m a = bnd (rd_bytes m a 4) (\<lambda>bs.
     let n = int (le_nat bs) in ret (if n < 2147483648 then n else n - 4294967296))"

fun cstr_list :: "nat list \<Rightarrow> nat list option" where
  "cstr_list [] = None"
| "cstr_list (b # bs) = (if b = 0 then Some [] else map_option (\<lambda>r. b # r) (cstr_list bs))"

definition cstr :: "mem \<Rightarrow> int \<Rightarrow> string cres" where
  "cstr m a =
     (if a < 0 then fault OutOfBounds
      else bnd (need OutOfBounds (cstr_list (drop (nat a) m))) (\<lambda>bs. ret (map char_of bs)))"

definition inet_ntop4 :: "mem \<Rightarrow> int \<Rightarrow> string cres" where
  "inet_ntop4 m a = bnd (rd_bytes m a 4) (\<lambda>bs. ret (dotted_text bs))"

section \<open>Tables of attributes\<close>

text \<open>
  \<^verbatim>\<open>struct rtattr *tb[n]\<close>: an entry is indeterminate (\<open>None\<close>), null (\<open>Some None\<close>) or a pointer.
  \<^verbatim>\<open>memset(tb, 0, sizeof(struct rtattr *)*count)\<close> clears the first \<open>count\<close> entries.
\<close>

type_synonym tbl = "int option option list"

definition new_table :: "int \<Rightarrow> tbl" where
  "new_table n = replicate (nat n) None"

definition clear_table :: "tbl \<Rightarrow> int \<Rightarrow> tbl cres" where
  "clear_table tb count =
     (if count \<le> int (length tb) then ret (replicate (nat count) (Some None) @ drop (nat count) tb)
      else fault OutOfBounds)"

definition entry_of :: "tbl \<Rightarrow> int \<Rightarrow> int option cres" where
  "entry_of tb k = bnd (rd tb k) (need Uninit)"

text \<open>\<^verbatim>\<open>parse_addr_attributes\<close>, \<^verbatim>\<open>parse_link_attributes\<close>, \<^verbatim>\<open>parse_route_attributes\<close>: the same text.\<close>

partial_function (option) parse_attributes ::
    "uapi \<Rightarrow> mem \<Rightarrow> tbl \<Rightarrow> int \<Rightarrow> int \<Rightarrow> int \<Rightarrow> tbl cres" where
  "parse_attributes U m tb mx rta len =
     bnd (RTA_OK U m rta len) (\<lambda>ok.
       if ok
       then bnd (rta_type U m rta) (\<lambda>t.
            bnd (if t \<le> mx then wr tb t (Some (Some rta)) else ret tb) (\<lambda>tb.
            bnd (RTA_NEXT U m rta len) (\<lambda>(rta, len). parse_attributes U m tb mx rta len)))
       else ret tb)"

text \<open>The helper of \<^verbatim>\<open>rtnetlink_test.c\<close> clears the table itself.\<close>

definition parseRtattr :: "uapi \<Rightarrow> mem \<Rightarrow> tbl \<Rightarrow> int \<Rightarrow> int \<Rightarrow> int \<Rightarrow> tbl cres" where
  "parseRtattr U m tb mx rta len =
     bnd (clear_table tb (mx + 1)) (\<lambda>tb. parse_attributes U m tb mx rta len)"

text \<open>\<^verbatim>\<open>if (tb[k]) x = f(RTA_DATA(tb[k]));\<close> with the value \<^verbatim>\<open>x\<close> had before.\<close>

definition attr_or :: "uapi \<Rightarrow> tbl \<Rightarrow> int \<Rightarrow> 'a \<Rightarrow> (int \<Rightarrow> 'a cres) \<Rightarrow> 'a cres" where
  "attr_or U tb k old f = bnd (entry_of tb k) (\<lambda>e.
     case e of None \<Rightarrow> ret old | Some a \<Rightarrow> f (RTA_DATA U a))"

text \<open>\<^verbatim>\<open>printf("%-10s", p)\<close>.\<close>

definition show_str :: "nat \<Rightarrow> mem \<Rightarrow> int option \<Rightarrow> out cres" where
  "show_str n m p = bnd (need NullDeref p) (\<lambda>a. bnd (cstr m a) (\<lambda>s. ret (OStr (pad_right n s))))"

section \<open>Entries of a reply\<close>

definition parse_addr_entry :: "uapi \<Rightarrow> mem \<Rightarrow> int \<Rightarrow> out list cres" where
  "parse_addr_entry U m nlh =
     bnd (nlmsg_len U m nlh) (\<lambda>len.
     bnd (clear_table (new_table (IFA_MAX U + 1)) (RTA_MAX U + 1)) (\<lambda>tba.
     let ifa = NLMSG_DATA U nlh in
     bnd (parse_attributes U m tba (IFA_MAX U) (IFA_RTA U ifa) len) (\<lambda>tba.
     bnd (attr_or U tba (IFA_LOCAL U) [] (inet_ntop4 m)) (\<lambda>ifaddr.
     let ifinfo = NLMSG_DATA U nlh in
     bnd (clear_table (new_table (IFLA_MAX U + 1)) (RTA_MAX U + 1)) (\<lambda>tb.
     bnd (parse_attributes U m tb (IFLA_MAX U) (IFLA_RTA U ifinfo) len) (\<lambda>tb.
     bnd (attr_or U tb (IFLA_IFNAME U) None (\<lambda>a. ret (Some a))) (\<lambda>ifname.
     bnd (show_str 10 m ifname) (\<lambda>name.
       ret [OStr ''interface='', name, OStr '' IP='', OStr (pad_right 15 ifaddr), newline]))))))))"

definition parse_link_entry :: "uapi \<Rightarrow> mem \<Rightarrow> int \<Rightarrow> out list cres" where
  "parse_link_entry U m nlh =
     bnd (nlmsg_len U m nlh) (\<lambda>len.
     let ifinfo = NLMSG_DATA U nlh in
     bnd (clear_table (new_table (IFLA_MAX U + 1)) (RTA_MAX U + 1)) (\<lambda>tb.
     bnd (parse_attributes U m tb (IFLA_MAX U) (IFLA_RTA U ifinfo) len) (\<lambda>tb.
     bnd (attr_or U tb (IFLA_IFNAME U) None (\<lambda>a. ret (Some a))) (\<lambda>ifname.
     bnd (ifi_up U m ifinfo) (\<lambda>up.
     let state = if up then ''UP'' else ''DOWN'' in
     bnd (ifi_running U m ifinfo) (\<lambda>run.
     let running = if run then ''RUNNING'' else ''NOT RUNNING'' in
     bnd (ifi_index U m ifinfo) (\<lambda>idx.
     bnd (show_str 10 m ifname) (\<lambda>name.
       ret [OStr ''Interface'', OInt idx, OStr ''='', name, OStr '' state='',
            OStr (pad_right 5 state), OStr '' running='', OStr (pad_right 10 running), newline]))))))))"

definition parse_route_entry :: "uapi \<Rightarrow> mem \<Rightarrow> int \<Rightarrow> out list cres" where
  "parse_route_entry U m nlh =
     (let rtm = NLMSG_DATA U nlh in
     bnd (nlmsg_len U m nlh) (\<lambda>len.
     bnd (clear_table (new_table (RTA_MAX U + 1)) (RTA_MAX U + 1)) (\<lambda>tb.
     bnd (rtm_table U m rtm) (\<lambda>tab.
       if tab = RT_TABLE_MAIN U
       then bnd (parse_attributes U m tb (RTA_MAX U) (RTM_RTA U rtm) len) (\<lambda>tb.
            bnd (attr_or U tb (RTA_TABLE U) 0 (rd_int32 m)) (\<lambda>table.
            bnd (attr_or U tb (RTA_GATEWAY U) [] (inet_ntop4 m)) (\<lambda>gw.
            bnd (attr_or U tb (RTA_DST U) [] (inet_ntop4 m)) (\<lambda>dst.
            bnd (attr_or U tb (RTA_OIF U) 0 (rd_int32 m)) (\<lambda>oif.
            bnd (attr_or U tb (RTA_PREFSRC U) [] (inet_ntop4 m)) (\<lambda>prefsrc.
              ret [OStr ''table='', OStr (pad_right 5 (int_text table)), OStr '', dst='', OStr (pad_right 15 dst),
                   OStr '', gw='', OStr (pad_right 15 gw), OStr '', oif='', OStr (pad_right 5 (int_text oif)),
                   OStr '', prefsrc='', OStr (pad_right 10 prefsrc), newline]))))))
       else ret []))))"

section \<open>The programs\<close>

text \<open>What the kernel answers to the system calls of one run.\<close>

datatype received =
    RecvError bool      \<comment> \<open>a negative result; \<open>True\<close>: \<^verbatim>\<open>EINTR\<close> or \<^verbatim>\<open>EAGAIN\<close>\<close>
  | Received mem        \<comment> \<open>the bytes of one datagram\<close>

record nl_env =
  socket_ret :: int
  bind_ret :: int
  own_pid :: int
  recvs :: "received list"
  err_text :: string

text \<open>The request: header fields, then the family and table of the message behind the header.\<close>

record rt_request =
  req_type :: int
  req_len :: int
  req_flags :: int
  req_seq :: int
  req_pid :: int
  req_family :: int
  req_table :: int

definition sizeof_sockaddr_nl :: int where "sizeof_sockaddr_nl = 12"

definition handle_message ::
    "uapi \<Rightarrow> out list \<Rightarrow> int \<Rightarrow> (uapi \<Rightarrow> mem \<Rightarrow> int \<Rightarrow> out list cres) \<Rightarrow> mem \<Rightarrow> int \<Rightarrow> out list cres" where
  "handle_message U done_text wanted parse m nlh =
     bnd (nlmsg_len U m nlh) (\<lambda>_.
     bnd (nlmsg_type U m nlh) (\<lambda>t.
       if t = NLMSG_DONE U then ret done_text
       else if t = wanted then parse U m nlh
       else ret [OStr ''Should not enter here by default'', newline]))"

partial_function (option) message_loop ::
    "uapi \<Rightarrow> (mem \<Rightarrow> int \<Rightarrow> out list cres) \<Rightarrow> mem \<Rightarrow> int \<Rightarrow> int \<Rightarrow> out list \<Rightarrow> out list cres" where
  "message_loop U handle m nlh len os =
     bnd (NLMSG_OK U m nlh len) (\<lambda>ok.
       if ok
       then bnd (handle m nlh) (\<lambda>o1.
            bnd (NLMSG_NEXT U m nlh len) (\<lambda>(nlh, len). message_loop U handle m nlh len (os @ o1)))
       else ret os)"

text \<open>
  The receive loop, over the datagrams of the run; \<open>buf\<close> is the buffer, whose rest keeps what was
  there before. \<open>namelen\<close> is \<^verbatim>\<open>msg.msg_namelen\<close>, a field of the request that \<^verbatim>\<open>recvmsg\<close> does not change.
\<close>

fun recv_loop ::
    "uapi \<Rightarrow> (int \<Rightarrow> out list) \<Rightarrow> (mem \<Rightarrow> int \<Rightarrow> out list cres) \<Rightarrow> int \<Rightarrow> string \<Rightarrow> mem
       \<Rightarrow> received list \<Rightarrow> out list cres" where
  "recv_loop U trace handle namelen err buf [] = ret []"
| "recv_loop U trace handle namelen err buf (RecvError again # rs) =
     bnd (recv_loop U trace handle namelen err buf rs) (\<lambda>os.
       ret (trace (- 1) @
            (if again then [OStr ''sleep 250ms...'', newline]
             else [OStr ''Failed to read netlink: '', OStr err, newline]) @ os))"
| "recv_loop U trace handle namelen err buf (Received bs # rs) =
     (let data = take (length buf) bs; buf = data @ drop (length data) buf; len = int (length data) in
      if namelen \<noteq> sizeof_sockaddr_nl
      then bnd (recv_loop U trace handle namelen err buf rs) (\<lambda>os.
        ret (trace len @ [OStr ''Invalid length of the sender address struct'', newline] @ os))
      else bnd (message_loop U handle buf 0 len []) (\<lambda>o1.
           bnd (recv_loop U trace handle namelen err buf rs) (\<lambda>os. ret (trace len @ o1 @ os))))"

text \<open>
  The common \<^verbatim>\<open>main\<close>: the request that is sent (\<open>None\<close> when the program gives up before), what is
  printed, and the exit status (\<open>None\<close> while the program waits for the next datagram).
\<close>

definition rt_main ::
    "rt_request \<Rightarrow> string \<Rightarrow> uapi \<Rightarrow> (int \<Rightarrow> out list) \<Rightarrow> (mem \<Rightarrow> int \<Rightarrow> out list cres) \<Rightarrow> mem \<Rightarrow> nl_env
       \<Rightarrow> (rt_request option \<times> out list \<times> int option) cres" where
  "rt_main req sent U trace handle buf env =
     (if socket_ret env < 0
      then ret (None, [OStr ''Failed to create netlink socket: '', OStr (err_text env), newline], Some (- 1))
      else if bind_ret env < 0
      then ret (None, [OStr ''Failed to bind netlink socket: '', OStr (err_text env), newline], Some 1)
      else bnd (recv_loop U trace handle sizeof_sockaddr_nl (err_text env) buf (recvs env)) (\<lambda>os.
        ret (Some req, [OStr ''Send '', OStr sent, OStr '' msg done'', newline] @ os, None)))"

definition get_addr_main :: "uapi \<Rightarrow> mem \<Rightarrow> nl_env \<Rightarrow> (rt_request option \<times> out list \<times> int option) cres" where
  "get_addr_main U buf env =
     rt_main \<lparr>req_type = RTM_GETADDR U, req_len = NLMSG_LENGTH U (sizeof_ifaddrmsg U),
              req_flags = NLM_F_DUMP_REQUEST U, req_seq = 1, req_pid = own_pid env,
              req_family = AF_INET U, req_table = 0\<rparr> ''RTM_GETADDR'' U (\<lambda>_. [])
       (handle_message U [] (RTM_NEWADDR U) parse_addr_entry) buf env"

definition get_link_main :: "uapi \<Rightarrow> mem \<Rightarrow> nl_env \<Rightarrow> (rt_request option \<times> out list \<times> int option) cres" where
  "get_link_main U buf env =
     rt_main \<lparr>req_type = RTM_GETLINK U, req_len = NLMSG_LENGTH U (sizeof_ifinfomsg U),
              req_flags = NLM_F_DUMP_REQUEST U, req_seq = 1, req_pid = own_pid env,
              req_family = 0, req_table = 0\<rparr> ''RTM_GETLINK'' U (\<lambda>_. [])
       (handle_message U [] (RTM_NEWLINK U) parse_link_entry) buf env"

definition get_route_main :: "uapi \<Rightarrow> mem \<Rightarrow> nl_env \<Rightarrow> (rt_request option \<times> out list \<times> int option) cres" where
  "get_route_main U buf env =
     rt_main \<lparr>req_type = RTM_GETROUTE U, req_len = NLMSG_LENGTH U (sizeof_rtmsg U),
              req_flags = NLM_F_DUMP_REQUEST U, req_seq = 1, req_pid = own_pid env,
              req_family = AF_INET U, req_table = RT_TABLE_MAIN U\<rparr> ''RTM_GETROUTE'' U
       (\<lambda>len. [OStr ''Get response, len='', OInt len, newline])
       (handle_message U [OStr ''NLMSG_DONE'', newline] (RTM_NEWROUTE U) parse_route_entry) buf env"

section \<open>The event monitor rtnetlink\_test\<close>

text \<open>
  The body of the message loop for a message that is not about routes. \<^verbatim>\<open>ifName\<close> and \<^verbatim>\<open>ifAddress\<close> have no
  initial value: \<open>None\<close>.
\<close>

definition event_entry :: "uapi \<Rightarrow> mem \<Rightarrow> int \<Rightarrow> int \<Rightarrow> out list cres" where
  "event_entry U m h t =
     (let ifi = NLMSG_DATA U h in
     bnd (nlmsg_len U m h) (\<lambda>len.
     bnd (parseRtattr U m (new_table (IFLA_MAX U + 1)) (IFLA_MAX U) (IFLA_RTA U ifi) len) (\<lambda>tb.
     bnd (attr_or U tb (IFLA_IFNAME U) None (\<lambda>a. ret (Some a))) (\<lambda>ifName.
     bnd (ifi_up U m ifi) (\<lambda>up.
     bnd (ifi_running U m ifi) (\<lambda>run.
     let ifUpp = (if up then ''UP'' else ''DOWN''); ifRunn = (if run then ''RUNNING'' else ''NOT RUNNING'');
         ifa = NLMSG_DATA U h in
     bnd (parseRtattr U m (new_table (IFA_MAX U + 1)) (IFA_MAX U) (IFA_RTA U ifa) len) (\<lambda>tba.
     bnd (attr_or U tba (IFA_LOCAL U) None (\<lambda>a. bnd (inet_ntop4 m a) (\<lambda>s. ret (Some s)))) (\<lambda>ifAddress.
     let name = bnd (need Uninit ifName) (\<lambda>a. bnd (cstr m a) (\<lambda>s. ret (OStr s))) in
       if t = RTM_DELADDR U
       then bnd name (\<lambda>n. ret [OStr ''Interface '', n, OStr '': address was removed'', newline])
       else if t = RTM_DELLINK U
       then bnd name (\<lambda>n. ret [OStr ''Network interface '', n, OStr '' was removed'', newline])
       else if t = RTM_NEWLINK U
       then bnd name (\<lambda>n. ret [OStr ''New network interface '', n, OStr '', state: '', OStr ifUpp,
              OStr '' '', OStr ifRunn, newline])
       else if t = RTM_NEWADDR U
       then bnd name (\<lambda>n. bnd (need Uninit ifAddress) (\<lambda>addr.
              ret ([OStr ''Interface '', n, OStr '': new address was assigned: '', OStr addr, newline])))
       else ret []))))))))"

text \<open>
  \<^verbatim>\<open>for (h = buf; status >= sizeof(*h); ) { ... }\<close>. A message with an invalid length is reported and
  \<^verbatim>\<open>continue\<close> starts over with the same message.
\<close>

partial_function (option) event_loop ::
    "uapi \<Rightarrow> mem \<Rightarrow> int \<Rightarrow> int \<Rightarrow> out list \<Rightarrow> out list cres" where
  "event_loop U m h status os =
     (if status \<ge> sizeof_nlmsghdr U
      then bnd (nlmsg_len U m h) (\<lambda>len.
        if len - sizeof_nlmsghdr U < 0 \<or> len > status
        then event_loop U m h status (os @ [OStr ''Invalid message length: '', OInt len, newline])
        else bnd (nlmsg_type U m h) (\<lambda>t.
             bnd (if t = RTM_NEWROUTE U \<or> t = RTM_DELROUTE U
                  then ret [OStr ''Routing table was changed'', newline]
                  else event_entry U m h t) (\<lambda>o1.
               event_loop U m (h + NLMSG_ALIGN U len) (status - NLMSG_ALIGN U len) (os @ o1))))
      else ret os)"

text \<open>
  The loop around it and \<^verbatim>\<open>main\<close>. The file lacks one closing brace; \<open>at_end\<close> says where it is put. At
  the end of the file it leaves \<^verbatim>\<open>close\<close> and \<^verbatim>\<open>return 0\<close> inside the receive loop; before these two, as the
  indentation suggests, it makes the loop endless. A datagram comes with the address length that
  \<^verbatim>\<open>recvmsg\<close> stores; the result has the exit status, \<open>None\<close> while the program still waits.
\<close>

datatype event_recv = EventError bool | EventData int mem

fun event_rounds :: "bool \<Rightarrow> uapi \<Rightarrow> string \<Rightarrow> mem \<Rightarrow> event_recv list \<Rightarrow> (out list \<times> int option) cres" where
  "event_rounds at_end U err buf [] = ret ([], None)"
| "event_rounds at_end U err buf (EventError again # rs) =
     bnd (event_rounds at_end U err buf rs) (\<lambda>(os, st).
       ret ((if again then [] else [OStr ''Failed to read netlink: '', OStr err]) @ os, st))"
| "event_rounds at_end U err buf (EventData namelen bs # rs) =
     (let data = take (length buf) bs; buf = data @ drop (length data) buf in
      if namelen \<noteq> sizeof_sockaddr_nl
      then bnd (event_rounds at_end U err buf rs) (\<lambda>(os, st).
        ret ([OStr ''Invalid length of the sender address struct'', newline] @ os, st))
      else bnd (event_loop U buf 0 (int (length data)) []) (\<lambda>o1.
        if at_end then ret (o1, Some 0)
        else bnd (event_rounds at_end U err buf rs) (\<lambda>(os, st). ret (o1 @ os, st))))"

definition event_main :: "bool \<Rightarrow> uapi \<Rightarrow> mem \<Rightarrow> nl_env \<Rightarrow> event_recv list \<Rightarrow> (out list \<times> int option) cres" where
  "event_main at_end U buf env rs =
     (if socket_ret env < 0
      then ret ([OStr ''Failed to create netlink socket: '', OStr (err_text env), newline], Some 1)
      else if bind_ret env < 0
      then ret ([OStr ''Failed to bind netlink socket: '', OStr (err_text env), newline], Some 1)
      else event_rounds at_end U (err_text env) buf rs)"

section \<open>A concrete instance of the header files\<close>

definition rd_u16 :: "mem \<Rightarrow> int \<Rightarrow> int cres" where
  "rd_u16 m a = bnd (rd_bytes m a 2) (\<lambda>bs. ret (int (le_nat bs)))"

definition align4 :: "int \<Rightarrow> int" where
  "align4 n = (n + 3) div 4 * 4"

definition linux_uapi :: uapi where
  "linux_uapi = \<lparr>
     NLMSG_OK = (\<lambda>m a len. if 16 \<le> len then bnd (rd_int32 m a) (\<lambda>l. ret (16 \<le> l \<and> l \<le> len)) else ret False),
     NLMSG_NEXT = (\<lambda>m a len. bnd (rd_int32 m a) (\<lambda>l. ret (a + align4 l, len - align4 l))),
     NLMSG_DATA = (\<lambda>a. a + 16), NLMSG_LENGTH = (\<lambda>n. n + 16), NLMSG_ALIGN = align4,
     nlmsg_len = rd_int32, nlmsg_type = (\<lambda>m a. rd_u16 m (a + 4)),
     RTA_OK = (\<lambda>m a len. if 4 \<le> len then bnd (rd_u16 m a) (\<lambda>l. ret (4 \<le> l \<and> l \<le> len)) else ret False),
     RTA_NEXT = (\<lambda>m a len. bnd (rd_u16 m a) (\<lambda>l. ret (a + align4 l, len - align4 l))),
     RTA_DATA = (\<lambda>a. a + 4), rta_type = (\<lambda>m a. rd_u16 m (a + 2)),
     IFA_RTA = (\<lambda>a. a + 8), IFLA_RTA = (\<lambda>a. a + 16), RTM_RTA = (\<lambda>a. a + 12),
     rtm_table = (\<lambda>m a. bnd (rd_bytes m (a + 4) 1) (\<lambda>bs. ret (int (le_nat bs)))),
     ifi_up = (\<lambda>m a. bnd (rd_int32 m (a + 8)) (\<lambda>f. ret (f mod 2 = 1))),
     ifi_running = (\<lambda>m a. bnd (rd_int32 m (a + 8)) (\<lambda>f. ret (f div 64 mod 2 = 1))),
     ifi_index = (\<lambda>m a. rd_int32 m (a + 4)),
     sizeof_nlmsghdr = 16, sizeof_ifaddrmsg = 8, sizeof_ifinfomsg = 16, sizeof_rtmsg = 12,
     RTA_MAX = 30, IFA_MAX = 11, IFLA_MAX = 66, IFA_LOCAL = 2, IFLA_IFNAME = 3,
     RTA_TABLE = 15, RTA_GATEWAY = 5, RTA_DST = 1, RTA_OIF = 4, RTA_PREFSRC = 7, RT_TABLE_MAIN = 254,
     NLMSG_DONE = 3, RTM_GETADDR = 22, RTM_NEWADDR = 20, RTM_DELADDR = 21,
     RTM_GETLINK = 18, RTM_NEWLINK = 16, RTM_DELLINK = 17,
     RTM_GETROUTE = 26, RTM_NEWROUTE = 24, RTM_DELROUTE = 25,
     NLM_F_DUMP_REQUEST = 773, AF_INET = 2\<rparr>"

lemma linux_fields [simp]:
  "nlmsg_len linux_uapi = rd_int32" "sizeof_nlmsghdr linux_uapi = 16"
  "nlmsg_type linux_uapi m a = rd_u16 m (a + 4)"
  "NLMSG_DATA linux_uapi a = a + 16" "RTM_RTA linux_uapi a = a + 12" "RTA_DATA linux_uapi a = a + 4"
  "RTA_MAX linux_uapi = 30" "IFA_MAX linux_uapi = 11" "RT_TABLE_MAIN linux_uapi = 254"
  "RTA_TABLE linux_uapi = 15" "RTA_GATEWAY linux_uapi = 5" "RTA_DST linux_uapi = 1"
  "RTA_OIF linux_uapi = 4" "RTA_PREFSRC linux_uapi = 7"
  "NLMSG_DONE linux_uapi = 3" "RTM_NEWADDR linux_uapi = 20"
  by (simp_all add: linux_uapi_def)

lemmas read_defs = rd_int32_def rd_u16_def rd_bytes_def le_nat_def

section \<open>Parsing attributes\<close>

text \<open>
  What rtnetlink(3) says of the attribute macros: no attribute fits into fewer than four bytes; the
  test reads the header; a valid attribute has a type and the next one lies at least four bytes
  behind it, with the remaining length reduced by the same amount.
\<close>

locale attr_macros =
  fixes U :: uapi
  assumes ok_short: "len < 4 \<Longrightarrow> RTA_OK U m a len = ret False"
    and ok_reads: "0 \<le> a \<Longrightarrow> a + 4 \<le> int (length m) \<Longrightarrow> \<exists>b. RTA_OK U m a len = ret b"
    and next_law: "0 \<le> a \<Longrightarrow> a + 4 \<le> int (length m) \<Longrightarrow> RTA_OK U m a len = ret True \<Longrightarrow>
      \<exists>n t. 4 \<le> n \<and> RTA_NEXT U m a len = ret (a + n, len - n) \<and> rta_type U m a = ret t \<and> 0 \<le> t"

text \<open>The attributes the macros find, with their types, in order.\<close>

inductive attrs :: "uapi \<Rightarrow> mem \<Rightarrow> int \<Rightarrow> int \<Rightarrow> (int \<times> int) list \<Rightarrow> bool" for U m where
  stop: "RTA_OK U m a len = ret False \<Longrightarrow> attrs U m a len []"
| step: "RTA_OK U m a len = ret True \<Longrightarrow> rta_type U m a = ret t \<Longrightarrow> 0 \<le> t \<Longrightarrow>
    RTA_NEXT U m a len = ret (a', len') \<Longrightarrow> attrs U m a' len' xs \<Longrightarrow> attrs U m a len ((t, a) # xs)"

inductive_cases attrs_NilE: "attrs U m a len []"
inductive_cases attrs_ConsE: "attrs U m a len (x # xs)"

definition store_attr :: "int \<Rightarrow> int \<times> int \<Rightarrow> tbl \<Rightarrow> tbl" where
  "store_attr mx x tb = (if fst x \<le> mx then tb[nat (fst x) := Some (Some (snd x))] else tb)"

lemma length_store_attr [simp]: "length (store_attr mx x tb) = length tb"
  by (simp add: store_attr_def)

lemma length_fold_store [simp]: "length (fold (store_attr mx) xs tb) = length tb"
  by (induction xs arbitrary: tb) auto

lemma parse_attributes_attrs:
  "attrs U m a len xs \<Longrightarrow> int (length tb) = mx + 1 \<Longrightarrow>
     parse_attributes U m tb mx a len = ret (fold (store_attr mx) xs tb)"
proof (induction arbitrary: tb rule: attrs.induct)
  case (stop a len)
  then show ?case by (subst parse_attributes.simps) simp
next
  case (step a len t a' len' xs)
  then have "(if t \<le> mx then wr tb t (Some (Some a)) else ret tb) = ret (store_attr mx (t, a) tb)"
    by (auto simp: store_attr_def)
  with step show ?case by (subst parse_attributes.simps) simp
qed

text \<open>Of several attributes with one type the last is kept.\<close>

lemma fold_store_nth:
  assumes "\<forall>x \<in> set xs. 0 \<le> fst x" and "int (length tb) = mx + 1" and "k < length tb"
  shows "fold (store_attr mx) xs tb ! k =
    (case map_of (rev xs) (int k) of Some p \<Rightarrow> Some (Some p) | None \<Rightarrow> tb ! k)"
  using assms
proof (induction xs rule: rev_induct)
  case (snoc x xs)
  have "fold (store_attr mx) (xs @ [x]) tb ! k =
      (if fst x = int k then Some (Some (snd x)) else fold (store_attr mx) xs tb ! k)"
    using snoc.prems by (auto simp: store_attr_def nth_list_update)
  with snoc show ?case by (cases x) auto
qed simp

lemma attrs_types: "attrs U m a len xs \<Longrightarrow> \<forall>x \<in> set xs. 0 \<le> fst x"
  by (induction rule: attrs.induct) auto

context attr_macros
begin

lemma attrs_exist:
  "0 \<le> a \<Longrightarrow> a + len \<le> int (length m) \<Longrightarrow> \<exists>xs. attrs U m a len xs"
proof (induction "nat len" arbitrary: a len rule: less_induct)
  case less
  show ?case
  proof (cases "4 \<le> len")
    case False
    then have "attrs U m a len []" by (intro attrs.stop ok_short) simp
    then show ?thesis by blast
  next
    case True
    then have in_buf: "0 \<le> a" "a + 4 \<le> int (length m)" using less.prems by auto
    then obtain b where b: "RTA_OK U m a len = ret b" using ok_reads by blast
    show ?thesis
    proof (cases b)
      case False
      then have "attrs U m a len []" using b by (intro attrs.stop) simp
      then show ?thesis by blast
    next
      case True
      then have "RTA_OK U m a len = ret True" using b by simp
      then obtain n t where n: "4 \<le> n" "RTA_NEXT U m a len = ret (a + n, len - n)"
        "rta_type U m a = ret t" "0 \<le> t" using next_law in_buf by blast
      obtain xs where "attrs U m (a + n) (len - n) xs"
        using less.hyps [of "len - n" "a + n"] n(1) \<open>4 \<le> len\<close> less.prems by auto
      then have "attrs U m a len ((t, a) # xs)" using b True n by (intro attrs.step) auto
      then show ?thesis by blast
    qed
  qed
qed

end

interpretation linux_attr: attr_macros linux_uapi
proof -
  have u16: "\<exists>l. rd_u16 m a = ret l \<and> 0 \<le> l" if "0 \<le> a" "a + 2 \<le> int (length m)" for m a
    using that by (simp add: rd_u16_def rd_bytes_def)
  have "\<exists>n t. 4 \<le> n \<and> RTA_NEXT linux_uapi m a len = ret (a + n, len - n)
      \<and> rta_type linux_uapi m a = ret t \<and> 0 \<le> t"
    if "0 \<le> a" "a + 4 \<le> int (length m)" "RTA_OK linux_uapi m a len = ret True" for m a len
  proof -
    have "\<exists>l. rd_u16 m a = ret l" "\<exists>t. rd_u16 m (a + 2) = ret t \<and> 0 \<le> t"
      using u16 [of a m] u16 [of "a + 2" m] that(1,2) by auto
    then obtain l t where l: "rd_u16 m a = ret l" "rd_u16 m (a + 2) = ret t" "0 \<le> t" by blast
    moreover from l have "4 \<le> l" using that(3) by (auto simp: linux_uapi_def split: if_splits)
    then have "4 \<le> align4 l" by (simp add: align4_def)
    ultimately show ?thesis by (simp add: linux_uapi_def)
  qed
  moreover have "\<exists>b. RTA_OK linux_uapi m a len = ret b" if "0 \<le> a" "a + 4 \<le> int (length m)" for m a len
    using u16 [of a m] that by (auto simp: linux_uapi_def)
  moreover have "RTA_OK linux_uapi m a len = ret False" if "len < 4" for m a len
    using that by (simp add: linux_uapi_def)
  ultimately show "attr_macros linux_uapi" by unfold_locales auto
qed

section \<open>Messages with an invalid length\<close>

lemma event_loop_invalid:
  "event_loop U m h status os = Some r \<Longrightarrow>
     \<not> (sizeof_nlmsghdr U \<le> status
        \<and> (\<exists>len. nlmsg_len U m h = ret len \<and> (len < sizeof_nlmsghdr U \<or> status < len)))"
  by (erule event_loop.raw_induct [where P = "\<lambda>U m h status os r. \<not> (sizeof_nlmsghdr U \<le> status
        \<and> (\<exists>len. nlmsg_len U m h = ret len \<and> (len < sizeof_nlmsghdr U \<or> status < len)))", rotated])
    auto

section \<open>Properties\<close>

text \<open>
  C14: Parsing the attributes of an entry returns on every buffer that holds the given number of bytes,
  stays inside the table, and leaves in each slot the last attribute of that type, or what was
  there before when there is none.
\<close>

theorem parse_attributes_correct:
  assumes "attr_macros U" and "0 \<le> a" and "a + len \<le> int (length m)" and "int (length tb) = mx + 1"
  shows "\<exists>xs tb'. attrs U m a len xs \<and> parse_attributes U m tb mx a len = ret tb'
    \<and> length tb' = length tb
    \<and> (\<forall>k < length tb. tb' ! k =
         (case map_of (rev xs) (int k) of Some p \<Rightarrow> Some (Some p) | None \<Rightarrow> tb ! k))"
proof -
  obtain xs where xs: "attrs U m a len xs" using attr_macros.attrs_exist [OF assms(1-3)] by blast
  then show ?thesis
    using parse_attributes_attrs [OF xs assms(4)] fold_store_nth [OF attrs_types [OF xs] assms(4)]
    by (intro exI [of _ xs] exI [of _ "fold (store_attr mx) xs tb"]) auto
qed

theorem parse_attributes_correct_witness:
  "\<exists>tb'. parse_attributes linux_uapi [8, 0, 1, 0, 10, 0, 0, 1] [Some None, Some None] 1 0 8 = ret tb'"
  using parse_attributes_correct [of linux_uapi 0 8 "[8, 0, 1, 0, 10, 0, 0, 1]" "[Some None, Some None]" 1]
    linux_attr.attr_macros_axioms by auto

text \<open>
  \<open>parse_addr_entry\<close> clears its table of \<open>IFA_MAX+1\<close> pointers as if it had \<open>RTA_MAX+1\<close>: with header files
  in which \<open>RTA_MAX\<close> is larger, every address entry writes past the end of the table.
\<close>

lemma addr_entry_overflow:
  assumes "0 \<le> IFA_MAX U" and "IFA_MAX U < RTA_MAX U" and "nlmsg_len U m nlh = ret len"
    and "nlmsg_type U m nlh = ret (RTM_NEWADDR U)" and "RTM_NEWADDR U \<noteq> NLMSG_DONE U"
  shows "handle_message U [] (RTM_NEWADDR U) parse_addr_entry m nlh = fault OutOfBounds"
  using assms by (simp add: handle_message_def parse_addr_entry_def clear_table_def new_table_def)

lemma addr_entry_overflow_witness:
  "handle_message linux_uapi [] 20 parse_addr_entry [24, 0, 0, 0, 20, 0] 0 = fault OutOfBounds"
  using addr_entry_overflow [of linux_uapi "[24, 0, 0, 0, 20, 0]" 0 24] by (simp add: read_defs)

text \<open>
  \<open>parse_route_entry\<close> passes the length of the whole message as the length of its attributes, so the
  parser reads on behind the message: a route message without any attribute, followed in the
  buffer by the bytes of a gateway attribute, is printed with that gateway.
\<close>

lemma route_entry_overread:
  "parse_route_entry linux_uapi
     ([28, 0, 0, 0,  24, 0, 0, 0,  1, 0, 0, 0,  9, 0, 0, 0] @ [2, 0, 0, 0,  254, 0, 0, 0,  0, 0, 0, 0] @
      [8, 0, 5, 0,  g0, g1, g2, g3] @ [0, 0, 0, 0]) 0 =
   ret [OStr ''table='', OStr ''0    '', OStr '', dst='', OStr (pad_right 15 []), OStr '', gw='',
        OStr (pad_right 15 (dotted_text [g0, g1, g2, g3])), OStr '', oif='', OStr ''0    '', OStr '', prefsrc='',
        OStr (pad_right 10 []), newline]"
proof -
  let ?m = "([28, 0, 0, 0,  24, 0, 0, 0,  1, 0, 0, 0,  9, 0, 0, 0] @ [2, 0, 0, 0,  254, 0, 0, 0,  0, 0, 0, 0] @
      [8, 0, 5, 0,  g0, g1, g2, g3] @ [0, 0, 0, 0]) :: mem"
  have "attrs linux_uapi ?m 36 20 []"
    by (rule attrs.stop) (simp add: linux_uapi_def read_defs)
  then have "attrs linux_uapi ?m 28 28 [(5, 28)]"
    by (rule attrs.step [rotated 4])
      (simp_all add: linux_uapi_def read_defs align4_def)
  from parse_attributes_attrs [OF this, of "replicate 31 (Some None)" 30]
  have "parse_attributes linux_uapi ?m (replicate 31 (Some None)) 30 28 28 =
      ret ((replicate 31 (Some None))[5 := Some (Some 28)])"
    by (simp add: store_attr_def)
  moreover have "rd_int32 ?m 0 = ret 28" "rtm_table linux_uapi ?m 16 = ret 254"
    by (simp_all add: linux_uapi_def read_defs)
  moreover have "inet_ntop4 ?m 32 = ret (dotted_text [g0, g1, g2, g3])"
    by (simp add: inet_ntop4_def rd_bytes_def)
  moreover have "clear_table (new_table 31) 31 = ret (replicate 31 (Some None))"
    by (simp add: clear_table_def new_table_def)
  moreover have "pad_right 5 (int_text 0) = ''0    ''"
    by code_simp
  ultimately show ?thesis
    by (simp add: parse_route_entry_def Let_def attr_or_def entry_of_def nth_list_update)
qed

text \<open>
  The event monitor never gets past a message whose length field is below the header size or above
  the received bytes: it reports the same message for ever.
\<close>

lemma event_loop_stuck:
  assumes "sizeof_nlmsghdr U \<le> status" and "nlmsg_len U m h = ret len"
    and "len < sizeof_nlmsghdr U \<or> status < len"
  shows "event_loop U m h status os = None"
  using event_loop_invalid [of U m h status os] assms
  by (cases "event_loop U m h status os") auto

lemma event_loop_stuck_witness:
  "event_loop linux_uapi [5, 0, 0, 0, 16, 0, 0, 0, 0, 0, 0, 0, 0, 0, 0, 0] 0 16 [] = None"
  using event_loop_stuck [of linux_uapi 16 "[5, 0, 0, 0, 16, 0, 0, 0, 0, 0, 0, 0, 0, 0, 0, 0]" 0 5 "[]"]
  by (simp add: read_defs)

text \<open>
  A datagram of messages about routes, given by their lengths: the loop prints a line for each.
\<close>

fun route_news :: "uapi \<Rightarrow> mem \<Rightarrow> int \<Rightarrow> int list \<Rightarrow> bool" where
  "route_news U m h [] = True"
| "route_news U m h (len # ls) =
     (nlmsg_len U m h = ret len \<and> sizeof_nlmsghdr U \<le> len \<and> len \<le> NLMSG_ALIGN U len
      \<and> (nlmsg_type U m h = ret (RTM_NEWROUTE U) \<or> nlmsg_type U m h = ret (RTM_DELROUTE U))
      \<and> route_news U m (h + NLMSG_ALIGN U len) ls)"

definition route_lines :: "'a list \<Rightarrow> out list" where
  "route_lines ls = concat (map (\<lambda>_. [OStr ''Routing table was changed'', newline]) ls)"

lemma route_news_sum:
  "route_news U m h ls \<Longrightarrow> 0 < sizeof_nlmsghdr U \<Longrightarrow> 0 \<le> sum_list (map (NLMSG_ALIGN U) ls)"
  by (induction U m h ls rule: route_news.induct) auto

lemma event_loop_routes:
  "route_news U m h ls \<Longrightarrow> 0 < sizeof_nlmsghdr U \<Longrightarrow>
     event_loop U m h (sum_list (map (NLMSG_ALIGN U) ls)) os = ret (os @ route_lines ls)"
proof (induction U m h ls arbitrary: os rule: route_news.induct)
  case (1 U m h)
  then show ?case by (subst event_loop.simps) (simp add: route_lines_def)
next
  case (2 U m h len ls)
  then have "0 \<le> sum_list (map (NLMSG_ALIGN U) ls)" by (intro route_news_sum) auto
  with 2 show ?case by (subst event_loop.simps) (auto simp: route_lines_def)
qed

text \<open>A received datagram and what it is: news about routes, or something the loop does not get past.\<close>

definition news_datagram :: "uapi \<Rightarrow> nat \<Rightarrow> mem \<Rightarrow> int list \<Rightarrow> bool" where
  "news_datagram U n bs ls \<longleftrightarrow> length bs \<le> n \<and> int (length bs) = sum_list (map (NLMSG_ALIGN U) ls)
     \<and> (\<forall>rest. route_news U (bs @ rest) 0 ls)"

definition bad_datagram :: "uapi \<Rightarrow> nat \<Rightarrow> mem \<Rightarrow> bool" where
  "bad_datagram U n bs \<longleftrightarrow> length bs \<le> n \<and> sizeof_nlmsghdr U \<le> int (length bs)
     \<and> (\<forall>rest. \<exists>len. nlmsg_len U (bs @ rest) 0 = ret len \<and> (len < sizeof_nlmsghdr U \<or> int (length bs) < len))"

lemma event_loop_news:
  "news_datagram U n bs ls \<Longrightarrow> 0 < sizeof_nlmsghdr U \<Longrightarrow>
     event_loop U (bs @ rest) 0 (int (length bs)) [] = ret (route_lines ls)"
  using event_loop_routes [of U "bs @ rest" 0 ls "[]"] by (simp add: news_datagram_def)

lemma event_loop_bad: "bad_datagram U n bs \<Longrightarrow> event_loop U (bs @ rest) 0 (int (length bs)) os = None"
  using event_loop_stuck [of U "int (length bs)" "bs @ rest" 0] by (force simp: bad_datagram_def)

lemma fold_buffer_length:
  "list_all2 (news_datagram U n) dss lss \<Longrightarrow> length buf = n \<Longrightarrow>
     length (fold (\<lambda>bs buf. bs @ drop (length bs) buf) dss buf) = n"
  by (induction dss lss arbitrary: buf rule: list_all2_induct) (auto simp: news_datagram_def)

lemma event_rounds_news:
  assumes "0 < sizeof_nlmsghdr U"
  shows "list_all2 (news_datagram U n) dss lss \<Longrightarrow> length buf = n \<Longrightarrow>
    event_rounds False U err buf (map (EventData sizeof_sockaddr_nl) dss @ rs) =
      bnd (event_rounds False U err (fold (\<lambda>bs buf. bs @ drop (length bs) buf) dss buf) rs) (\<lambda>(os, st).
        ret (concat (map route_lines lss) @ os, st))"
proof (induction dss lss arbitrary: buf rule: list_all2_induct)
  case Nil
  then show ?case
    by (cases "event_rounds False U err buf rs") (auto simp: bnd_def split: sum.splits)
next
  case (Cons bs dss ls lss)
  then have "length (bs @ drop (length bs) buf) = n" by (auto simp: news_datagram_def)
  with Cons show ?case
    using event_loop_news [OF Cons.hyps(1) assms]
    by (auto simp: Let_def news_datagram_def bnd_assoc case_prod_unfold intro!: bnd_cong)
qed



end
