(* ===== verification/Rt_Dump.thy ===== *)
theory Rt_Dump
  imports Rt_Netlink
begin

text \<open>
  Whole runs of \<^verbatim>\<open>get_link.c\<close>, \<^verbatim>\<open>get_route.c\<close> and \<^verbatim>\<open>get_addr.c\<close> on the bytes of a dump: messages are
  encoded as the kernel sends them, with the layout of \<open>linux_uapi\<close>, put into datagrams, and the lines the
  programs print are those of the encoded entries.

  The programs pass the length of the whole message as the length of its attributes, so that the parser
  looks at up to 32 bytes behind the message. It does no harm as long as these bytes do not look like an
  attribute (\<open>stops\<close>), as is the case for the header of a further entry and for zeros.
\<close>

section \<open>Reading encoded bytes\<close>

lemma rd_bytes_at: "m = pre @ bs @ suf \<Longrightarrow> a = int (length pre) \<Longrightarrow> length bs = n \<Longrightarrow> rd_bytes m a n = ret bs"
  by (auto simp: rd_bytes_def)

lemma rd_u16_at: "m = pre @ le_enc 2 n @ suf \<Longrightarrow> a = int (length pre) \<Longrightarrow> n < 65536 \<Longrightarrow> rd_u16 m a = ret (int n)"
  using rd_bytes_at [of m pre "le_enc 2 n" suf a 2] le_nat_enc [of n 2] by (simp add: rd_u16_def)

lemma rd_int32_at: "m = pre @ bs @ suf \<Longrightarrow> a = int (length pre) \<Longrightarrow> length bs = 4 \<Longrightarrow> rd_int32 m a = ret (to_int (le_nat bs))"
  using rd_bytes_at [of m pre bs suf a 4] by (simp add: rd_int32_def to_int_def Let_def)

lemma cstr_at:
  assumes "m = pre @ name @ 0 # suf" and "a = int (length pre)" and "0 \<notin> set name"
  shows "cstr m a = ret (map char_of name)"
proof -
  have "cstr_list (name @ 0 # suf) = Some name" using assms(3) by (induction name) auto
  then show ?thesis using assms(1,2) by (simp add: cstr_def)
qed

text \<open>What behind the attributes does not look like one more.\<close>

fun stops :: "mem \<Rightarrow> bool" where
  "stops (b0 # b1 # r) = (b0 + 256 * b1 < 4 \<or> 32 < b0 + 256 * b1)"
| "stops _ = False"

fun spots :: "nat \<Rightarrow> (nat \<times> nat list) list \<Rightarrow> (int \<times> int) list" where
  "spots p [] = []"
| "spots p (x # as) = (int (fst x), int p) # spots (p + length (enc_attr x)) as"

abbreviation enc_attrs :: "(nat \<times> nat list) list \<Rightarrow> mem" where
  "enc_attrs as \<equiv> concat (map enc_attr as)"

lemma spots_append: "spots p (as @ bs) = spots p as @ spots (p + length (enc_attrs as)) bs"
  by (induction as arbitrary: p) (simp_all add: add.assoc)

lemma attrs_stop:
  assumes "stops suf" and "e \<le> 32"
  shows "attrs linux_uapi (pre @ suf) (int (length pre)) e []"
proof -
  obtain b0 b1 r where b: "suf = b0 # b1 # r" "b0 + 256 * b1 < 4 \<or> 32 < b0 + 256 * b1"
    using assms(1) by (cases suf rule: stops.cases) auto
  have "rd_u16 (pre @ suf) (int (length pre)) = ret (int (b0 + 256 * b1))"
    using rd_bytes_at [of "pre @ suf" pre "[b0, b1]" r _ 2] b(1) by (simp add: rd_u16_def)
  then show ?thesis using b(2) assms(2) by (intro attrs.stop) (auto simp: linux_uapi_def)
qed

lemma attrs_enc:
  "list_all attr_ok as \<Longrightarrow> stops suf \<Longrightarrow> 0 \<le> e \<Longrightarrow> e \<le> 32 \<Longrightarrow>
     attrs linux_uapi (pre @ enc_attrs as @ suf) (int (length pre)) (int (length (enc_attrs as)) + e) (spots (length pre) as)"
proof (induction as arbitrary: pre)
  case Nil
  then show ?case using attrs_stop [of suf e pre] by simp
next
  case (Cons x as)
  obtain t d where x: "x = (t, d)" by (cases x)
  let ?n = "4 + length d" and ?m = "pre @ enc_attrs (x # as) @ suf" and ?a = "int (length pre)"
  let ?len = "int (length (enc_attrs (x # as))) + e"
  have ok: "?n < 65536" "t < 65536" using Cons.prems(1) x by (auto simp: attr_ok_def)
  have len: "rd_u16 ?m ?a = ret (int ?n)"
    using ok by (intro rd_u16_at [of _ pre _ "drop 2 (enc_attr x) @ enc_attrs as @ suf"]) (simp_all add: x enc_attr_def)
  have ty: "rd_u16 ?m (?a + 2) = ret (int t)"
    using ok by (intro rd_u16_at [of _ "pre @ le_enc 2 ?n" _ "drop 4 (enc_attr x) @ enc_attrs as @ suf"]) (simp_all add: x enc_attr_def)
  have al: "align4 (int ?n) = int (length (enc_attr x))"
    by (simp add: align4_def length_enc_attr x zdiv_int add.commute)
  moreover have "int ?n \<le> align4 (int ?n)" by (simp add: align4_def)
  ultimately have "RTA_OK linux_uapi ?m ?a ?len = ret True"
    using len Cons.prems(3) by (simp add: linux_uapi_def)
  moreover have "RTA_NEXT linux_uapi ?m ?a ?len =
      ret (int (length (pre @ enc_attr x)), int (length (enc_attrs as)) + e)"
    using len al by (simp add: linux_uapi_def)
  moreover have "attrs linux_uapi ?m (int (length (pre @ enc_attr x))) (int (length (enc_attrs as)) + e)
      (spots (length (pre @ enc_attr x)) as)"
    using Cons.IH [of "pre @ enc_attr x"] Cons.prems by simp
  moreover have "rta_type linux_uapi ?m ?a = ret (int t)" using ty by (simp add: linux_uapi_def)
  ultimately have "attrs linux_uapi ?m ?a ?len ((int t, ?a) # spots (length (pre @ enc_attr x)) as)"
    by (intro attrs.step) simp_all
  then show ?case by (simp add: x)
qed

text \<open>Where an attribute that was encoded is found: the last one of its type.\<close>

lemma spots_lookup:
  "case map_of (rev as) t of
     None \<Rightarrow> map_of (rev (spots (length pre) as)) (int t) = None
   | Some d \<Rightarrow> \<exists>pre' suf'. pre @ enc_attrs as @ suf = pre' @ enc_attr (t, d) @ suf'
       \<and> map_of (rev (spots (length pre) as)) (int t) = Some (int (length pre'))"
proof (induction as arbitrary: suf rule: rev_induct)
  case (snoc x as)
  show ?case
  proof (cases "fst x = t")
    case True
    then have x: "x = (t, snd x)" by (cases x) simp
    have "\<exists>suf'. pre @ enc_attrs (as @ [x]) @ suf = (pre @ enc_attrs as) @ enc_attr (t, snd x) @ suf'"
      using x by (intro exI [of _ suf]) simp
    moreover have "map_of (rev (spots (length pre) (as @ [x]))) (int t) = Some (int (length (pre @ enc_attrs as)))"
      using True by (simp add: spots_append)
    moreover have "map_of (rev (as @ [x])) t = Some (snd x)" using True by (cases x) simp
    ultimately show ?thesis by (simp only: option.case) blast
  next
    case False
    with snoc [of "enc_attr x @ suf"] show ?thesis by (cases x) (auto simp: spots_append split: option.splits)
  qed
qed simp

text \<open>The table after the attributes were parsed, and what the program gets from it.\<close>

definition attr_of :: "(nat \<times> nat list) list \<Rightarrow> nat \<Rightarrow> nat list option" where
  "attr_of as t = map_of (rev as) t"

definition table_of :: "(nat \<times> nat list) list \<Rightarrow> mem \<Rightarrow> tbl \<Rightarrow> bool" where
  "table_of as m tb \<longleftrightarrow> (\<forall>t < 31. case attr_of as t of
     None \<Rightarrow> entry_of tb (int t) = ret None
   | Some d \<Rightarrow> \<exists>pre suf. m = pre @ enc_attr (t, d) @ suf \<and> entry_of tb (int t) = ret (Some (int (length pre))))"

lemma parse_enc:
  assumes "list_all attr_ok as" and "stops suf" and "0 \<le> e" and "e \<le> 32"
    and "m = pre @ enc_attrs as @ suf" and "a = int (length pre)" and "len = int (length (enc_attrs as)) + e"
    and "30 \<le> mx"
  shows "\<exists>tb tb'. clear_table (new_table (mx + 1)) 31 = ret tb \<and> parse_attributes linux_uapi m tb mx a len = ret tb'
    \<and> table_of as m tb'"
proof -
  let ?tb = "replicate 31 (Some None) @ replicate (nat (mx - 30)) None"
  have tb: "clear_table (new_table (mx + 1)) 31 = ret ?tb" "int (length ?tb) = mx + 1"
    using assms(8) by (simp_all add: clear_table_def new_table_def nat_diff_distrib')
  have at: "attrs linux_uapi m a len (spots (length pre) as)" using attrs_enc [OF assms(1-4), of pre] assms(5-7) by simp
  let ?tb' = "fold (store_attr mx) (spots (length pre) as) ?tb"
  have entry: "entry_of ?tb' (int t) = ret (map_of (rev (spots (length pre) as)) (int t))" if "t < 31" for t
    using fold_store_nth [OF attrs_types [OF at] tb(2), of t] that
    by (auto simp: entry_of_def rd_def nth_append split: option.splits)
  have "table_of as m ?tb'" unfolding table_of_def
  proof (intro allI impI)
    fix t :: nat
    assume "t < 31"
    from entry [OF this] spots_lookup [where t = t and as = as and pre = pre and suf = suf]
    show "case attr_of as t of None \<Rightarrow> entry_of ?tb' (int t) = ret None
      | Some d \<Rightarrow> \<exists>pre suf. m = pre @ enc_attr (t, d) @ suf \<and> entry_of ?tb' (int t) = ret (Some (int (length pre)))"
      unfolding attr_of_def assms(5) by (cases "map_of (rev as) t") (simp_all only: option.case, blast)
  qed
  then show ?thesis using parse_attributes_attrs [OF at tb(2)] tb(1) by auto
qed

text \<open>The data of an attribute lies four bytes behind its start.\<close>

lemma enc_attr_data:
  obtains hd rest where "pre @ enc_attr (t, d) @ suf = hd @ d @ rest" and "length hd = length pre + 4"
  by (rule that [of "pre @ le_enc 2 (4 + length d) @ le_enc 2 t"]) (simp_all add: enc_attr_def)

lemma attr_or_enc:
  assumes "table_of as m tb" and "t < 31" and "k = int t"
    and "\<And>d pre rest. attr_of as t = Some d \<Longrightarrow> m = pre @ d @ rest \<Longrightarrow> f (int (length pre)) = ret (g d)"
  shows "attr_or linux_uapi tb k old f = ret (case attr_of as t of None \<Rightarrow> old | Some d \<Rightarrow> g d)"
proof (cases "attr_of as t")
  case None
  have "entry_of tb (int t) = ret None" using assms(1) [unfolded table_of_def, rule_format, OF assms(2)] None by simp
  then show ?thesis using assms(3) None by (simp add: attr_or_def)
next
  case (Some d)
  then obtain pre suf where p: "m = pre @ enc_attr (t, d) @ suf" "entry_of tb (int t) = ret (Some (int (length pre)))"
    using assms(1) [unfolded table_of_def, rule_format, OF assms(2)] by auto
  obtain hd rest where "m = hd @ d @ rest" "length hd = length pre + 4"
    using enc_attr_data [of pre t d suf] p(1) by metis
  then show ?thesis using assms(4) [OF Some, of hd rest] p(2) assms(3) Some by (simp add: attr_or_def)
qed

section \<open>Messages\<close>

text \<open>A message: length, type, ten more bytes of the header, body.\<close>

definition nlmsg :: "nat \<Rightarrow> nat list \<Rightarrow> nat list \<Rightarrow> mem" where
  "nlmsg t x body = le_enc 4 (16 + length body) @ le_enc 2 t @ x @ body"

definition msg_ok :: "nat \<Rightarrow> nat list \<Rightarrow> nat list \<Rightarrow> bool" where
  "msg_ok t x body \<longleftrightarrow> t < 65536 \<and> length x = 10 \<and> 4 dvd length body \<and> length body < 65520"

lemma nlmsg_fields:
  assumes "msg_ok t x body" and "m = pre @ nlmsg t x body @ suf"
  shows "rd_int32 m (int (length pre)) = ret (int (16 + length body))"
    and "rd_u16 m (int (length pre) + 4) = ret (int t)"
    and "m = (pre @ le_enc 4 (16 + length body) @ le_enc 2 t @ x) @ body @ suf"
proof -
  let ?n = "16 + length body"
  have "le_nat (le_enc 4 ?n) = ?n" using assms(1) by (intro le_nat_enc) (simp add: msg_ok_def)
  then show "rd_int32 m (int (length pre)) = ret (int ?n)"
    using rd_int32_at [of m pre "le_enc 4 ?n" "le_enc 2 t @ x @ body @ suf"] assms
    by (simp add: nlmsg_def to_int_def msg_ok_def)
  show "rd_u16 m (int (length pre) + 4) = ret (int t)"
    using assms by (intro rd_u16_at [of _ "pre @ le_enc 4 ?n" _ "x @ body @ suf"]) (simp_all add: nlmsg_def msg_ok_def)
  show "m = (pre @ le_enc 4 ?n @ le_enc 2 t @ x) @ body @ suf" using assms(2) by (simp add: nlmsg_def)
qed

text \<open>The header of a message of more than 32 bytes does not look like an attribute.\<close>

lemma stops_nlmsg:
  assumes "msg_ok t x body" and "16 < length body"
  shows "stops (nlmsg t x body @ suf)"
proof -
  let ?n = "16 + length body"
  have "?n div 256 < 256" using assms(1) by (intro less_mult_imp_div_less) (simp add: msg_ok_def)
  then have n: "?n mod 256 + 256 * (?n div 256 mod 256) = ?n" by simp
  have four: "(4 :: nat) = Suc (Suc 2)" by simp
  have "nlmsg t x body @ suf =
      ?n mod 256 # ?n div 256 mod 256 # (le_enc 2 (?n div 256 div 256) @ le_enc 2 t @ x @ body @ suf)"
    unfolding nlmsg_def four le_enc.simps by simp
  moreover have "32 < ?n" using assms(2) by simp
  ultimately show ?thesis using n by (simp only: stops.simps simp_thms)
qed

text \<open>A handler prints \<open>out\<close> for the message \<open>msg\<close>, wherever it lies in the buffer.\<close>

definition prints :: "(mem \<Rightarrow> int \<Rightarrow> out list cres) \<Rightarrow> mem \<Rightarrow> out list \<Rightarrow> bool" where
  "prints h msg out \<longleftrightarrow> (\<exists>t x body. msg = nlmsg t x body \<and> msg_ok t x body)
     \<and> (\<forall>pre suf. stops suf \<longrightarrow> h (pre @ msg @ suf) (int (length pre)) = ret out)"

lemma message_loop_enc:
  "list_all2 (prints h) ms outs \<Longrightarrow> \<forall>msg \<in> set (tl ms). 32 < length msg \<Longrightarrow> stops suf \<Longrightarrow>
     message_loop linux_uapi h (pre @ concat ms @ suf) (int (length pre)) (int (length (concat ms))) os =
       ret (os @ concat outs)"
proof (induction ms outs arbitrary: pre os rule: list_all2_induct)
  case Nil
  then show ?case by (subst message_loop.simps) (simp add: linux_uapi_def)
next
  case (Cons msg ms out outs)
  let ?m = "pre @ concat (msg # ms) @ suf" and ?a = "int (length pre)"
  obtain t x body where msg: "msg = nlmsg t x body" "msg_ok t x body" using Cons.hyps(1) by (auto simp: prints_def)
  have len: "length msg = 16 + length body" using msg by (simp add: nlmsg_def msg_ok_def)
  have "stops (concat ms @ suf)"
  proof (cases ms)
    case Nil
    then show ?thesis using Cons.prems(2) by simp
  next
    case (Cons msg' ms')
    then obtain t' x' body' where "msg' = nlmsg t' x' body'" "msg_ok t' x' body'"
      using Cons.hyps(2) by (auto simp: prints_def list_all2_Cons1)
    moreover have "32 < length msg'" using Cons.prems(1) Cons by simp
    ultimately show ?thesis using stops_nlmsg [of t' x' body'] Cons by (simp add: nlmsg_def msg_ok_def)
  qed
  then have out: "h ?m ?a = ret out" using Cons.hyps(1) by (simp add: prints_def)
  have rd: "rd_int32 ?m ?a = ret (int (length msg))"
    using nlmsg_fields(1) [OF msg(2), of ?m pre "concat ms @ suf"] msg(1) len by simp
  have al: "align4 (int (length msg)) = int (length msg)"
    using msg(2) len by (auto simp: align4_def msg_ok_def)
  have "\<forall>msg \<in> set (tl ms). 32 < length msg" using Cons.prems(1) by (cases ms) auto
  then have "message_loop linux_uapi h ?m (?a + int (length msg)) (int (length (concat ms))) (os @ out) =
      ret (os @ concat (out # outs))"
    using Cons.IH [of "pre @ msg" "os @ out"] Cons.prems(2) by simp
  then show ?case
    using out rd al len by (subst message_loop.simps) (simp add: linux_uapi_def)
qed

section \<open>Entries\<close>

text \<open>
  A link: the first four bytes of \<^verbatim>\<open>ifinfomsg\<close>, index, flags, the change mask, the attributes; its name is
  the data of the last attribute \<^verbatim>\<open>IFLA_IFNAME\<close>.
\<close>

record link =
  lk_head :: "nat list"
  lk_index :: nat
  lk_flags :: nat
  lk_change :: "nat list"
  lk_attrs :: "(nat \<times> nat list) list"
  lk_name :: "nat list"

definition enc_link :: "link \<Rightarrow> nat list" where
  "enc_link l = lk_head l @ le_enc 4 (lk_index l) @ le_enc 4 (lk_flags l) @ lk_change l @ enc_attrs (lk_attrs l)"

definition link_ok :: "link \<Rightarrow> bool" where
  "link_ok l \<longleftrightarrow> length (lk_head l) = 4 \<and> lk_index l < 4294967296 \<and> lk_flags l < 4294967296
     \<and> length (lk_change l) = 4 \<and> list_all attr_ok (lk_attrs l)
     \<and> attr_of (lk_attrs l) 3 = Some (lk_name l @ [0]) \<and> 0 \<notin> set (lk_name l)"

definition link_line :: "link \<Rightarrow> out list" where
  "link_line l = [OStr ''Interface'', OInt (to_int (lk_index l)), OStr ''='', OStr (pad_right 10 (map char_of (lk_name l))),
     OStr '' state='', OStr (pad_right 5 (if odd (lk_flags l) then ''UP'' else ''DOWN'')),
     OStr '' running='', OStr (pad_right 10 (if odd (lk_flags l div 64) then ''RUNNING'' else ''NOT RUNNING'')), newline]"

lemma flag_bits: "(to_int n mod 2 = 1) = odd n" "(to_int n div 64 mod 2 = 1) = odd (n div 64)"
proof -
  have "(int k mod 2 = 1) = odd k" for k by presburger
  from this [of n] this [of "n div 64"]
  have n: "(int n mod 2 = 1) = odd n" "(int n div 64 mod 2 = 1) = odd (n div 64)" by (simp_all add: zdiv_int)
  have "(int n - 4294967296) div 64 = int n div 64 - 67108864"
    using div_mult_self1 [of 64 "int n" "- 67108864"] by simp
  moreover have "(i - 67108864) mod 2 = i mod 2" "(i - 4294967296) mod 2 = i mod 2" for i :: int by presburger+
  ultimately show "(to_int n mod 2 = 1) = odd n" "(to_int n div 64 mod 2 = 1) = odd (n div 64)"
    using n by (simp_all add: to_int_def)
qed

lemma linux_entries [simp]:
  "IFLA_MAX linux_uapi = 66" "IFLA_IFNAME linux_uapi = 3" "IFLA_RTA linux_uapi a = a + 16"
  "ifi_up linux_uapi m a = bnd (rd_int32 m (a + 8)) (\<lambda>f. ret (f mod 2 = 1))"
  "ifi_running linux_uapi m a = bnd (rd_int32 m (a + 8)) (\<lambda>f. ret (f div 64 mod 2 = 1))"
  "ifi_index linux_uapi m a = rd_int32 m (a + 4)"
  "rtm_table linux_uapi m a = bnd (rd_bytes m (a + 4) 1) (\<lambda>bs. ret (int (le_nat bs)))"
  "RTM_NEWLINK linux_uapi = 16" "RTM_NEWROUTE linux_uapi = 24"
  by (simp_all add: linux_uapi_def)

lemma link_entry:
  assumes "link_ok l" and "msg_ok 16 x (enc_link l)"
  shows "prints (handle_message linux_uapi [] 16 parse_link_entry) (nlmsg 16 x (enc_link l)) (link_line l)"
proof -
  have "handle_message linux_uapi [] 16 parse_link_entry m (int (length pre)) = ret (link_line l)"
    if suf: "stops suf" and m: "m = pre @ nlmsg 16 x (enc_link l) @ suf" for pre suf m
  proof -
    let ?a = "int (length pre)" and ?as = "lk_attrs l"
    let ?hd = "pre @ le_enc 4 (16 + length (enc_link l)) @ le_enc 2 16 @ x"
    note f = nlmsg_fields [OF assms(2) m]
    have hd: "length ?hd = length pre + 16" using assms(2) by (simp add: msg_ok_def)
    note ok = assms(1) [unfolded link_ok_def]
    have len: "16 + length (enc_link l) = length (enc_attrs ?as) + 32" using ok by (simp add: enc_link_def)
    have "\<exists>tb tb'. clear_table (new_table (66 + 1)) 31 = ret tb
        \<and> parse_attributes linux_uapi m tb 66 (32 + ?a) (int (length (enc_attrs ?as)) + 32) = ret tb' \<and> table_of ?as m tb'"
      using ok hd f(3) by (intro parse_enc [of ?as suf 32 m "?hd @ lk_head l @ le_enc 4 (lk_index l) @ le_enc 4 (lk_flags l) @ lk_change l"])
        (simp_all add: suf enc_link_def)
    then obtain tb0 tb where tb: "clear_table (new_table 67) 31 = ret tb0"
      "parse_attributes linux_uapi m tb0 66 (32 + ?a) (int (length (enc_attrs ?as)) + 32) = ret tb" "table_of ?as m tb" by auto
    then obtain p s where p: "m = p @ enc_attr (3, lk_name l @ [0]) @ s" "entry_of tb 3 = ret (Some (int (length p)))"
      using tb(3) [unfolded table_of_def, rule_format, of 3] ok by auto
    obtain h2 rest where h2: "m = h2 @ (lk_name l @ [0]) @ rest" "length h2 = length p + 4"
      using enc_attr_data [of p 3 "lk_name l @ [0]" s] p(1) by metis
    then have name: "cstr m (int (length p) + 4) = ret (map char_of (lk_name l))"
      using ok by (intro cstr_at [of m h2 _ rest]) auto
    have "rd_int32 m (20 + ?a) = ret (to_int (lk_index l))"
      using rd_int32_at [of m "?hd @ lk_head l" "le_enc 4 (lk_index l)" "le_enc 4 (lk_flags l) @ lk_change l @ enc_attrs ?as @ suf"]
        f(3) ok hd le_nat_enc [of "lk_index l" 4] by (simp add: enc_link_def add.commute)
    moreover have "rd_int32 m (24 + ?a) = ret (to_int (lk_flags l))"
      using rd_int32_at [of m "?hd @ lk_head l @ le_enc 4 (lk_index l)" "le_enc 4 (lk_flags l)" "lk_change l @ enc_attrs ?as @ suf"]
        f(3) ok hd le_nat_enc [of "lk_flags l" 4] by (simp add: enc_link_def add.commute)
    ultimately show ?thesis
      using f(1,2) tb(1,2) p(2) name len flag_bits [of "lk_flags l"] ok
      by (simp add: handle_message_def parse_link_entry_def link_line_def attr_or_def show_str_def Let_def)
  qed
  then show ?thesis using assms(2) unfolding prints_def by blast
qed

text \<open>
  A route: \<^verbatim>\<open>rtmsg\<close> with the table number in its fifth byte, and the attributes; the addresses and
  numbers the program shows have four bytes.
\<close>

record route =
  rr_head :: "nat list"
  rr_table :: nat
  rr_tail :: "nat list"
  rr_attrs :: "(nat \<times> nat list) list"

definition enc_route :: "route \<Rightarrow> nat list" where
  "enc_route r = rr_head r @ [rr_table r] @ rr_tail r @ enc_attrs (rr_attrs r)"

definition route_ok :: "route \<Rightarrow> bool" where
  "route_ok r \<longleftrightarrow> length (rr_head r) = 4 \<and> length (rr_tail r) = 7 \<and> list_all attr_ok (rr_attrs r)
     \<and> (\<forall>t \<in> {15, 5, 1, 4, 7}. \<forall>d. attr_of (rr_attrs r) t = Some d \<longrightarrow> length d = 4)"

definition addr_text :: "(nat \<times> nat list) list \<Rightarrow> nat \<Rightarrow> string" where
  "addr_text as t = (case attr_of as t of None \<Rightarrow> [] | Some d \<Rightarrow> dotted_text d)"

definition int_attr :: "(nat \<times> nat list) list \<Rightarrow> nat \<Rightarrow> int" where
  "int_attr as t = (case attr_of as t of None \<Rightarrow> 0 | Some d \<Rightarrow> to_int (le_nat d))"

definition route_line :: "route \<Rightarrow> out list" where
  "route_line r =
     (if rr_table r = 254
      then [OStr ''table='', OStr (pad_right 5 (int_text (int_attr (rr_attrs r) 15))),
            OStr '', dst='', OStr (pad_right 15 (addr_text (rr_attrs r) 1)),
            OStr '', gw='', OStr (pad_right 15 (addr_text (rr_attrs r) 5)),
            OStr '', oif='', OStr (pad_right 5 (int_text (int_attr (rr_attrs r) 4))),
            OStr '', prefsrc='', OStr (pad_right 10 (addr_text (rr_attrs r) 7)), newline]
      else [])"

lemma attr_or_addr:
  assumes "table_of as m tb" and "t < 31" and "\<forall>d. attr_of as t = Some d \<longrightarrow> length d = 4" and "k = int t"
  shows "attr_or linux_uapi tb k [] (inet_ntop4 m) = ret (addr_text as t)"
  unfolding addr_text_def using assms
  by (intro attr_or_enc) (auto simp: inet_ntop4_def rd_bytes_at [where bs = "_ :: nat list"])

lemma attr_or_int:
  assumes "table_of as m tb" and "t < 31" and "\<forall>d. attr_of as t = Some d \<longrightarrow> length d = 4" and "k = int t"
  shows "attr_or linux_uapi tb k 0 (rd_int32 m) = ret (int_attr as t)"
  unfolding int_attr_def using assms by (intro attr_or_enc) (auto intro: rd_int32_at)

lemma route_entry:
  assumes "route_ok r" and "msg_ok 24 x (enc_route r)"
  shows "prints (handle_message linux_uapi dt 24 parse_route_entry) (nlmsg 24 x (enc_route r)) (route_line r)"
proof -
  have "handle_message linux_uapi dt 24 parse_route_entry m (int (length pre)) = ret (route_line r)"
    if suf: "stops suf" and m: "m = pre @ nlmsg 24 x (enc_route r) @ suf" for pre suf m
  proof -
    let ?a = "int (length pre)" and ?as = "rr_attrs r"
    let ?hd = "pre @ le_enc 4 (16 + length (enc_route r)) @ le_enc 2 24 @ x"
    note f = nlmsg_fields [OF assms(2) m]
    have hd: "length ?hd = length pre + 16" using assms(2) by (simp add: msg_ok_def)
    note ok = assms(1) [unfolded route_ok_def]
    have len: "16 + length (enc_route r) = length (enc_attrs ?as) + 28" using ok by (simp add: enc_route_def)
    have "\<exists>tb tb'. clear_table (new_table (30 + 1)) 31 = ret tb
        \<and> parse_attributes linux_uapi m tb 30 (28 + ?a) (int (length (enc_attrs ?as)) + 28) = ret tb' \<and> table_of ?as m tb'"
      using ok hd f(3) by (intro parse_enc [of ?as suf 28 m "?hd @ rr_head r @ [rr_table r] @ rr_tail r"])
        (simp_all add: suf enc_route_def)
    then obtain tb0 tb where tb: "clear_table (new_table 31) 31 = ret tb0"
      "parse_attributes linux_uapi m tb0 30 (28 + ?a) (int (length (enc_attrs ?as)) + 28) = ret tb" "table_of ?as m tb" by auto
    have "rd_bytes m (20 + ?a) 1 = ret [rr_table r]"
      using rd_bytes_at [of m "?hd @ rr_head r" "[rr_table r]" "rr_tail r @ enc_attrs ?as @ suf" "20 + ?a" 1]
        f(3) ok hd by (simp add: enc_route_def)
    then show ?thesis
      using f(1,2) tb(1,2) len ok attr_or_addr [OF tb(3), of 1 1] attr_or_addr [OF tb(3), of 5 5] attr_or_addr [OF tb(3), of 7 7]
        attr_or_int [OF tb(3), of 15 15] attr_or_int [OF tb(3), of 4 4]
      by (simp add: handle_message_def parse_route_entry_def route_line_def Let_def)
  qed
  then show ?thesis using assms(2) unfolding prints_def by blast
qed

text \<open>The end of a dump: it prints \<open>dt\<close>.\<close>

lemma done_entry:
  "msg_ok 3 x body \<Longrightarrow> prints (handle_message linux_uapi dt wanted parse) (nlmsg 3 x body) dt"
  unfolding prints_def using nlmsg_fields(1,2) [of 3 x body] by (fastforce simp: handle_message_def)

section \<open>Datagrams\<close>

text \<open>
  A datagram of messages with what is printed for them. Behind the first, messages are longer than 32
  bytes. \<open>undisturbed\<close>: the datagrams fit into the buffer, and behind each of them lies something that does
  not look like an attribute.
\<close>

definition datagram :: "(mem \<Rightarrow> int \<Rightarrow> out list cres) \<Rightarrow> mem \<Rightarrow> out list \<Rightarrow> bool" where
  "datagram h bs out \<longleftrightarrow> (\<exists>ms os. bs = concat ms \<and> out = concat os \<and> list_all2 (prints h) ms os
     \<and> (\<forall>msg \<in> set (tl ms). 32 < length msg))"

fun undisturbed :: "mem \<Rightarrow> mem list \<Rightarrow> bool" where
  "undisturbed buf [] = True"
| "undisturbed buf (bs # ds) =
     (length bs \<le> length buf \<and> stops (drop (length bs) buf) \<and> undisturbed (bs @ drop (length bs) buf) ds)"

lemma recv_loop_datagrams:
  "list_all2 (datagram h) ds outs \<Longrightarrow> undisturbed buf ds \<Longrightarrow>
     recv_loop linux_uapi trace h sizeof_sockaddr_nl err buf (map Received ds) =
       ret (concat (map2 (\<lambda>bs out. trace (int (length bs)) @ out) ds outs))"
proof (induction ds outs arbitrary: buf rule: list_all2_induct)
  case (Cons bs ds out outs)
  obtain ms os where ms: "bs = concat ms" "out = concat os" "list_all2 (prints h) ms os" "\<forall>msg \<in> set (tl ms). 32 < length msg"
    using Cons.hyps(1) by (auto simp: datagram_def)
  have "message_loop linux_uapi h (bs @ drop (length bs) buf) 0 (int (length bs)) [] = ret out"
    using message_loop_enc [OF ms(3,4), of "drop (length bs) buf" "[]" "[]"] Cons.prems ms(1,2) by simp
  then show ?case using Cons.IH [of "bs @ drop (length bs) buf"] Cons.prems by (simp add: Let_def)
qed simp

text \<open>A datagram of links or routes, each with the ten header bytes between type and body.\<close>

definition link_msg :: "nat list \<times> link \<Rightarrow> mem" where
  "link_msg = (\<lambda>(x, l). nlmsg 16 x (enc_link l))"

definition link_msg_ok :: "nat list \<times> link \<Rightarrow> bool" where
  "link_msg_ok = (\<lambda>(x, l). link_ok l \<and> msg_ok 16 x (enc_link l))"

definition route_msg :: "nat list \<times> route \<Rightarrow> mem" where
  "route_msg = (\<lambda>(x, r). nlmsg 24 x (enc_route r))"

definition route_msg_ok :: "nat list \<times> route \<Rightarrow> bool" where
  "route_msg_ok = (\<lambda>(x, r). route_ok r \<and> msg_ok 24 x (enc_route r) \<and> 16 < length (enc_route r))"

lemma datagramI:
  assumes "\<forall>x \<in> set xs. prints h (msg x) (line x) \<and> 32 < length (msg x)"
  shows "datagram h (concat (map msg xs)) (concat (map line xs))"
  unfolding datagram_def
  using assms by (intro exI [of _ "map msg xs"] exI [of _ "map line xs"])
    (cases xs; auto simp: list_all2_map1 list_all2_map2 list.rel_refl_strong)

lemma link_datagram:
  assumes "list_all link_msg_ok ls"
  shows "datagram (handle_message linux_uapi [] 16 parse_link_entry) (concat (map link_msg ls)) (concat (map (link_line \<circ> snd) ls))"
proof (rule datagramI, rule ballI)
  fix y
  assume "y \<in> set ls"
  then obtain x l where y: "y = (x, l)" "link_ok l" "msg_ok 16 x (enc_link l)"
    using assms by (cases y) (auto simp: list_all_iff link_msg_ok_def)
  then obtain d where "attr_of (lk_attrs l) 3 = Some d" by (auto simp: link_ok_def)
  then obtain z as where "lk_attrs l = z # as" by (cases "lk_attrs l") (auto simp: attr_of_def)
  then have "4 \<le> length (enc_attrs (lk_attrs l))" by (simp add: length_enc_attr)
  moreover have "length (nlmsg 16 x (enc_link l)) = 32 + length (enc_attrs (lk_attrs l))"
    using y by (simp add: nlmsg_def msg_ok_def enc_link_def link_ok_def)
  ultimately have long: "32 < length (nlmsg 16 x (enc_link l))" by linarith
  show "prints (handle_message linux_uapi [] 16 parse_link_entry) (link_msg y) ((link_line \<circ> snd) y) \<and> 32 < length (link_msg y)"
    using y link_entry [of l x] long by (simp add: link_msg_def)
qed

lemma route_datagram:
  assumes "list_all route_msg_ok rs"
  shows "datagram (handle_message linux_uapi dt 24 parse_route_entry) (concat (map route_msg rs)) (concat (map (route_line \<circ> snd) rs))"
  using assms route_entry
  by (intro datagramI) (auto simp: list_all_iff route_msg_ok_def route_msg_def nlmsg_def msg_ok_def)

lemma done_datagram: "msg_ok 3 x body \<Longrightarrow> datagram (handle_message linux_uapi dt wanted parse) (nlmsg 3 x body) dt"
  unfolding datagram_def using done_entry [of x body dt wanted parse]
  by (intro exI [of _ "[nlmsg 3 x body]"] exI [of _ "[dt]"]) simp

section \<open>Whole runs\<close>

lemma concat_map_concat: "concat (map f (concat xss)) = concat (map (\<lambda>xs. concat (map f xs)) xss)"
  by (induction xss) auto

lemma linux_ok:
  "NLMSG_OK linux_uapi m a len = (if 16 \<le> len then bnd (rd_int32 m a) (\<lambda>l. ret (16 \<le> l \<and> l \<le> len)) else ret False)"
  by (simp add: linux_uapi_def)

lemma linux_requests:
  "RTM_GETLINK linux_uapi = 18" "RTM_GETROUTE linux_uapi = 26" "RTM_GETADDR linux_uapi = 22"
  "NLMSG_LENGTH linux_uapi n = n + 16" "sizeof_ifinfomsg linux_uapi = 16" "sizeof_rtmsg linux_uapi = 12"
  "sizeof_ifaddrmsg linux_uapi = 8" "NLM_F_DUMP_REQUEST linux_uapi = 773" "AF_INET linux_uapi = 2"
  by (simp_all add: linux_uapi_def)

definition link_request :: "nl_env \<Rightarrow> rt_request" where
  "link_request env = \<lparr>req_type = 18, req_len = 32, req_flags = 773, req_seq = 1, req_pid = own_pid env, req_family = 0, req_table = 0\<rparr>"

definition route_request :: "nl_env \<Rightarrow> rt_request" where
  "route_request env = \<lparr>req_type = 26, req_len = 28, req_flags = 773, req_seq = 1, req_pid = own_pid env, req_family = 2, req_table = 254\<rparr>"

text \<open>The datagrams of a dump, and its last one; what a program prints for them, with a line \<open>trace\<close> for each.\<close>

definition dump :: "('a \<Rightarrow> mem) \<Rightarrow> 'a list list \<Rightarrow> mem \<Rightarrow> mem list" where
  "dump msg xss last_msg = map (\<lambda>xs. concat (map msg xs)) xss @ [last_msg]"

lemma dump_printed:
  assumes "\<forall>xs \<in> set xss. datagram h (concat (map msg xs)) (concat (map line xs))" and "datagram h last_msg dt"
    and "undisturbed buf (dump msg xss last_msg)"
  shows "recv_loop linux_uapi trace h sizeof_sockaddr_nl err buf (map Received (dump msg xss last_msg)) =
    ret (concat (map (\<lambda>xs. trace (int (length (concat (map msg xs)))) @ concat (map line xs)) xss) @ trace (int (length last_msg)) @ dt)"
proof -
  have "list_all2 (datagram h) (dump msg xss last_msg) (map (\<lambda>xs. concat (map line xs)) xss @ [dt])"
    using assms(1,2) unfolding dump_def
    by (auto simp: list_all2_map1 list_all2_map2 intro!: list_all2_appendI list.rel_refl_strong)
  from recv_loop_datagrams [OF this assms(3), of trace err] show ?thesis
    by (simp add: dump_def zip_map_map zip_same_conv_map comp_def)
qed

section \<open>Properties\<close>


text \<open>The loopback interface, a default route, and an address.\<close>

definition lo :: link where
  "lo = \<lparr>lk_head = [0, 0, 4, 3], lk_index = 1, lk_flags = 73, lk_change = [0, 0, 0, 0], lk_attrs = [(3, [108, 111, 0])],
     lk_name = [108, 111]\<rparr>"

definition default_route :: route where
  "default_route = \<lparr>rr_head = [2, 0, 0, 0], rr_table = 254, rr_tail = [3, 0, 1, 0, 0, 0, 0],
     rr_attrs = [(15, [254, 0, 0, 0]), (5, [10, 0, 2, 2]), (4, [2, 0, 0, 0])]\<rparr>"

definition route_env :: "received list \<Rightarrow> nl_env" where
  "route_env rs = \<lparr>socket_ret = 3, bind_ret = 0, own_pid = 7, recvs = rs, err_text = []\<rparr>"

lemma le_enc_numeral: "le_enc (numeral k) n = n mod 256 # le_enc (pred_numeral k) (n div 256)"
  using le_enc.simps(2) [of "pred_numeral k" n] by (simp only: numeral_eq_Suc [symmetric])

lemma stops_zeros: "2 \<le> n \<Longrightarrow> stops (replicate n 0)"
  by (cases n; cases "n - 1") auto

lemma examples_undisturbed:
  "undisturbed (replicate 64 0) (dump link_msg [[(replicate 10 0, lo)]] (nlmsg 3 (replicate 10 0) [0, 0, 0, 0]))"
  "undisturbed (replicate 64 0) (dump route_msg [[(replicate 10 0, default_route)]] (nlmsg 3 (replicate 10 0) [0, 0, 0, 0]))"
  by (simp_all add: dump_def link_msg_def route_msg_def nlmsg_def enc_link_def enc_route_def lo_def default_route_def enc_attr_def le_enc_numeral stops_zeros)

lemma msg_okI: "t < 65536 \<Longrightarrow> length x = 10 \<Longrightarrow> length body = 4 * k \<Longrightarrow> k < 16380 \<Longrightarrow> msg_ok t x body"
  by (simp add: msg_ok_def)

lemma examples_ok: "link_msg_ok (replicate 10 0, lo)" "route_msg_ok (replicate 10 0, default_route)"
proof -
  have "msg_ok 16 (replicate 10 0) (enc_link lo)"
    by (rule msg_okI [where k = 6]) (simp_all add: enc_link_def lo_def length_enc_attr)
  moreover have "link_ok lo" by (simp add: link_ok_def lo_def attr_ok_def attr_of_def)
  ultimately show "link_msg_ok (replicate 10 0, lo)" by (simp add: link_msg_ok_def)
  have "msg_ok 24 (replicate 10 0) (enc_route default_route)"
    by (rule msg_okI [where k = 9]) (simp_all add: enc_route_def default_route_def length_enc_attr)
  moreover have "16 < length (enc_route default_route)" by (simp add: enc_route_def default_route_def length_enc_attr)
  moreover have "route_ok default_route" by (auto simp: route_ok_def default_route_def attr_ok_def attr_of_def)
  ultimately show "route_msg_ok (replicate 10 0, default_route)" by (simp add: route_msg_ok_def)
qed


end
