(* ===== verification/Netlink_Echo.thy ===== *)
theory Netlink_Echo
  imports C_Bytes
begin

text \<open>
  The user-defined netlink protocols: the echo module \<^verbatim>\<open>netlink_kernel.c\<close> with its clients
  \<^verbatim>\<open>netlink_vincent.c\<close> and \<^verbatim>\<open>netlink_vincent_malloc_ver.c\<close>, the module \<^verbatim>\<open>netfilter_kernel.c\<close> with its
  client \<^verbatim>\<open>netfilter_user.c\<close>, and the route monitor \<^verbatim>\<open>netlink_user.c\<close>.

  A message is the list of its bytes, \<open>None\<close> for a byte nobody has written. The netlink headers are not
  part of the repository: the record \<open>nlapi\<close> holds what the programs use of them and of the socket
  buffer functions of the kernel, and is an argument of every definition. The locale \<open>netlink_api\<close>
  states what their documentation promises; \<open>linux_nl\<close> is an instance.
\<close>

section \<open>Messages and the header files\<close>

datatype hfield = FLen | FType | FFlags | FSeq | FPid

record nlapi =
  HDRLEN :: nat                                        \<comment> \<open>\<^verbatim>\<open>NLMSG_HDRLEN\<close>, also the offset of \<^verbatim>\<open>NLMSG_DATA\<close>\<close>
  LENGTH :: "nat \<Rightarrow> nat"                                \<comment> \<open>\<^verbatim>\<open>NLMSG_LENGTH\<close>\<close>
  SPACE :: "nat \<Rightarrow> nat"                                 \<comment> \<open>\<^verbatim>\<open>NLMSG_SPACE\<close>\<close>
  MSG_OK :: "obuf \<Rightarrow> int \<Rightarrow> bool cres"                   \<comment> \<open>\<^verbatim>\<open>NLMSG_OK\<close>\<close>
  get_hdr :: "hfield \<Rightarrow> obuf \<Rightarrow> nat cres"
  set_hdr :: "hfield \<Rightarrow> nat \<Rightarrow> obuf \<Rightarrow> obuf cres"
  alloc_skb :: "nat \<Rightarrow> nat option"                      \<comment> \<open>the tail room of the new buffer\<close>
  nlmsg_put :: "nat \<Rightarrow> nat \<Rightarrow> nat \<Rightarrow> nat \<Rightarrow> nat \<Rightarrow> nat \<Rightarrow> obuf option"
    \<comment> \<open>tail room, port id, sequence number, type, payload size, flags; \<open>None\<close> is the null pointer\<close>
  RTM_NEWROUTE :: nat
  RTM_DELROUTE :: nat

definition data_str :: "nlapi \<Rightarrow> obuf \<Rightarrow> string cres" where
  "data_str A m = ostr (drop (HDRLEN A) m)"

text \<open>\<^verbatim>\<open>'%s'\<close>.\<close>

definition quoted :: "string \<Rightarrow> out" where
  "quoted s = OStr ([CHR 0x27] @ s @ [CHR 0x27])"

section \<open>The echo module\<close>

definition MAX_MSGSIZE :: nat where "MAX_MSGSIZE = 1024"
definition RESPONSE_MSG_TYPE :: nat where "RESPONSE_MSG_TYPE = 55"
definition NETLINK_VINCENT :: nat where "NETLINK_VINCENT = 31"

definition msg_from_kernel :: string where
  "msg_from_kernel = ''Hi This is the response from VINCENT module.''"

record echo_state =
  nl_sk :: bool            \<comment> \<open>whether the pointer is not null\<close>
  user_pid :: int
  kcount :: int

definition echo_initial :: echo_state where
  "echo_initial = \<lparr>nl_sk = False, user_pid = - 1, kcount = 0\<rparr>"

text \<open>
  What the module does besides changing its state: log lines, and the message it unicasts, with the
  port it goes to.
\<close>

definition send_msg_to_user :: "nlapi \<Rightarrow> int \<Rightarrow> (out list \<times> (int \<times> obuf) option) cres" where
  "send_msg_to_user A pid =
     (case alloc_skb A (SPACE A MAX_MSGSIZE) of
        None \<Rightarrow> ret ([OStr ''Failed to allocate memory for skb...''], None)
      | Some room \<Rightarrow>
          bnd (need NullDeref (nlmsg_put A room 0 0 0 MAX_MSGSIZE 0)) (\<lambda>nlh.
          bnd (set_hdr A FType RESPONSE_MSG_TYPE nlh) (\<lambda>nlh.
          bnd (strcpy_at nlh (HDRLEN A) msg_from_kernel) (\<lambda>nlh.
          bnd (data_str A nlh) (\<lambda>s.
            ret ([OStr ''Send message: '', quoted s, OStr '' to user. '', newline], Some (pid, nlh)))))))"

definition received_line :: "string \<Rightarrow> int \<Rightarrow> int \<Rightarrow> int \<Rightarrow> out list" where
  "received_line s pid len n =
     [OStr ''Received messge: '', quoted s, OStr '' from user pid:'', OInt pid, OStr '', len='', OInt len,
      OStr '' (count='', OInt n, OStr '')'', newline]"

definition recv_user_msg ::
    "nlapi \<Rightarrow> echo_state \<Rightarrow> obuf \<Rightarrow> (echo_state \<times> out list \<times> (int \<times> obuf) option) cres" where
  "recv_user_msg A st skb =
     bnd (get_hdr A FPid skb) (\<lambda>p.
     let st = st\<lparr>user_pid := to_int p\<rparr> in
     bnd (get_hdr A FLen skb) (\<lambda>len.
       if len < HDRLEN A \<or> length skb < len then ret (st, [], None)
       else bnd (ck (kcount st + 1)) (\<lambda>c.
            let st = st\<lparr>kcount := c\<rparr> in
            bnd (data_str A skb) (\<lambda>s.
            bnd (send_msg_to_user A (user_pid st)) (\<lambda>(os, reply).
              ret (st, received_line s (user_pid st) (to_int len) (kcount st) @ os, reply))))))"

text \<open>The module processes the messages of its queue one after the other.\<close>

fun recv_user_msgs ::
    "nlapi \<Rightarrow> echo_state \<Rightarrow> obuf list \<Rightarrow> (echo_state \<times> out list \<times> (int \<times> obuf) list) cres" where
  "recv_user_msgs A st [] = ret (st, [], [])"
| "recv_user_msgs A st (skb # skbs) =
     bnd (recv_user_msg A st skb) (\<lambda>(st, os, reply).
     bnd (recv_user_msgs A st skbs) (\<lambda>(st, os', replies).
       ret (st, os @ os', (case reply of None \<Rightarrow> [] | Some r \<Rightarrow> [r]) @ replies)))"

text \<open>\<open>created\<close>: whether \<^verbatim>\<open>netlink_kernel_create\<close> returns a socket.\<close>

definition netlink_init :: "bool \<Rightarrow> echo_state \<Rightarrow> echo_state \<times> out list \<times> int" where
  "netlink_init created st =
     (let st = st\<lparr>nl_sk := created\<rparr> in
      if \<not> nl_sk st
      then (st, [OStr ''Hellooooo'', newline, OStr ''Failed to create kernel netlink socket.'', newline], - 1)
      else (st, [OStr ''Hellooooo'', newline], 0))"

definition netlink_exit :: "echo_state \<Rightarrow> out list cres" where
  "netlink_exit st = (if nl_sk st then ret [OStr ''Goodbyeeeee'', newline] else fault NullDeref)"

section \<open>The netfilter module\<close>

definition NETFILTER_VINCENT :: nat where "NETFILTER_VINCENT = 30"

record nf_state = echo_state +
  nf_res :: int
  hooked :: bool           \<comment> \<open>whether \<^verbatim>\<open>icmp_ops\<close> is registered\<close>
  sk_open :: bool          \<comment> \<open>whether the netlink socket is open\<close>

definition nf_initial :: nf_state where
  "nf_initial = \<lparr>nl_sk = False, user_pid = - 1, kcount = 0, nf_res = 0, hooked = False, sk_open = False\<rparr>"

definition nf_recv_user_msg :: "nlapi \<Rightarrow> nf_state \<Rightarrow> obuf \<Rightarrow> (nf_state \<times> out list) cres" where
  "nf_recv_user_msg A st skb =
     bnd (get_hdr A FPid skb) (\<lambda>p.
     let st = st\<lparr>user_pid := to_int p\<rparr> in
     bnd (get_hdr A FLen skb) (\<lambda>len.
       if len < HDRLEN A \<or> length skb < len then ret (st, [])
       else bnd (ck (kcount st + 1)) (\<lambda>c.
            let st = st\<lparr>kcount := c\<rparr> in
            bnd (data_str A skb) (\<lambda>s.
              ret (st, received_line s (user_pid st) (to_int len) (kcount st))))))"

text \<open>The hook: the verdict for every packet that reaches it, as the number the kernel interprets.\<close>

definition get_icmp :: "'skb \<Rightarrow> nat \<times> out list" where
  "get_icmp skb = (0, [OStr ''Just for check''])"

definition netfilter_test_init :: "bool \<Rightarrow> int \<Rightarrow> nf_state \<Rightarrow> nf_state \<times> out list \<times> int" where
  "netfilter_test_init created hook_res st =
     (let st = st\<lparr>nl_sk := created, sk_open := created\<rparr>; hello = [OStr ''Hellooooo...'', newline] in
      if \<not> nl_sk st
      then (st, hello @ [OStr ''Failed to create kernel netlink socket.'', newline], - 1)
      else
        let st = st\<lparr>nf_res := hook_res, hooked := (hook_res = 0)\<rparr> in
        if nf_res st \<noteq> 0
        then (st, hello @ [OStr ''module is NOT loaded into the kernel'', newline], - 1)
        else (st, hello, 0))"

definition netfilter_test_exit :: "nf_state \<Rightarrow> (nf_state \<times> out list) cres" where
  "netfilter_test_exit st =
     (if nl_sk st
      then ret (st\<lparr>sk_open := False, hooked := False\<rparr>, [OStr ''Goodbyeeeee...'', newline])
      else fault NullDeref)"

section \<open>The clients\<close>

definition cli_msg :: string where
  "cli_msg = ''Hello! This is VINCENT from user space''"

definition VINCENT_HELLO :: nat where "VINCENT_HELLO = 5566"
definition VINCENT_HIHI :: nat where "VINCENT_HIHI = 55"
definition VINCENT_YAYA :: nat where "VINCENT_YAYA = 66"

text \<open>
  The answers of the system calls. \<open>csocket\<close> depends on the protocol asked for. A receive fails
  (\<open>True\<close>: \<^verbatim>\<open>EINTR\<close> or \<^verbatim>\<open>EAGAIN\<close>) or delivers the sender's address length and the bytes.
\<close>

datatype crecv = CErr bool | CData nat obuf

record client_env =
  csocket :: "nat \<Rightarrow> int"
  cbind :: int
  cpid :: nat
  csends :: "nat \<Rightarrow> int"
  crecvs :: "crecv list"
  cerr :: string

definition client_message :: "nlapi \<Rightarrow> nat \<Rightarrow> nat \<Rightarrow> obuf cres" where
  "client_message A sz pid =
     bnd (set_hdr A FPid pid (replicate sz None)) (\<lambda>buf.
     bnd (set_hdr A FLen sz buf) (\<lambda>buf.
     bnd (set_hdr A FType VINCENT_HELLO buf) (\<lambda>buf.
       strcpy_at buf (HDRLEN A) cli_msg)))"

text \<open>The datagram lands at the start of the buffer, cut to its size; the rest keeps its bytes.\<close>

definition fill :: "obuf \<Rightarrow> obuf \<Rightarrow> obuf" where
  "fill buf bs = take (length buf) bs @ drop (length bs) buf"

definition before_line :: "nlapi \<Rightarrow> string \<Rightarrow> obuf \<Rightarrow> out list cres" where
  "before_line A label buf =
     bnd (data_str A buf) (\<lambda>s. bnd (get_hdr A FType buf) (\<lambda>t. bnd (get_hdr A FLen buf) (\<lambda>l.
       ret [OStr label, OStr '' Message to kernel is '', quoted s, OStr '' , message type is '', OInt (int t),
            OStr '', length is '', OInt (to_int l), newline])))"

text \<open>The loop over the sends, one result per round; a failed send closes the socket and goes on.\<close>

fun send_loop :: "nlapi \<Rightarrow> string \<Rightarrow> obuf \<Rightarrow> int list \<Rightarrow> out list cres" where
  "send_loop A err buf [] = ret []"
| "send_loop A err buf (r # rs) =
     bnd (data_str A buf) (\<lambda>s.
     bnd (send_loop A err buf rs) (\<lambda>os.
       ret ([OStr ''Send message '', quoted s, OStr '' '', newline] @
            (if r < 0 then [OStr ''Failed to send message to kernel. Error is '', OStr err] else []) @ os)))"

definition response_name :: "nat \<Rightarrow> string" where
  "response_name t =
     (if t = VINCENT_HIHI then ''HIHI'' else if t = VINCENT_YAYA then ''YAYA'' else ''Nothing'')"

definition good_line :: "string \<Rightarrow> nat \<Rightarrow> nat \<Rightarrow> nat \<Rightarrow> nat \<Rightarrow> out list" where
  "good_line s t l h tot =
     [newline, OStr ''Receive message from kernel: '', quoted s, OStr '' '', newline, OStr ''type is '', OInt (int t),
      OStr '', payload length is '', OInt (to_int l), OStr '', header length is '', OInt (int h),
      OStr '', total length is '', OInt (int tot), newline]"

text \<open>One round of the receive loop: the new value of \<^verbatim>\<open>response_type\<close> and what is printed.\<close>

definition client_round ::
    "nlapi \<Rightarrow> obuf \<Rightarrow> int \<Rightarrow> string option \<Rightarrow> (string option \<times> out list) cres" where
  "client_round A buf status rtype =
     bnd (MSG_OK A buf status) (\<lambda>ok.
       if ok
       then bnd (get_hdr A FType buf) (\<lambda>t.
            bnd (data_str A buf) (\<lambda>s.
            bnd (get_hdr A FLen buf) (\<lambda>l.
              ret (Some (response_name t), good_line s t l (HDRLEN A) (LENGTH A l)))))
       else bnd (data_str A buf) (\<lambda>s.
            bnd (need NullDeref rtype) (\<lambda>r.
            bnd (get_hdr A FType buf) (\<lambda>t.
            bnd (get_hdr A FLen buf) (\<lambda>l.
              ret (rtype, [OStr ''Received message '', quoted s, OStr '' , type is '', quoted r, OStr '' ('',
                           OInt (int t), OStr ''), length is '', OInt (to_int l), newline]))))))"

fun client_loop :: "nlapi \<Rightarrow> obuf \<Rightarrow> string option \<Rightarrow> crecv list \<Rightarrow> out list cres" where
  "client_loop A buf rtype [] = ret []"
| "client_loop A buf rtype (CErr again # rs) =
     bnd (client_round A buf (- 1) rtype) (\<lambda>(rtype, o1).
     bnd (client_loop A buf rtype rs) (\<lambda>os. ret (o1 @ os)))"
| "client_loop A buf rtype (CData nl bs # rs) =
     (let buf' = fill buf bs in
      bnd (client_round A buf' (int (min (length buf) (length bs))) rtype) (\<lambda>(rtype, o1).
      bnd (client_loop A buf' rtype rs) (\<lambda>os. ret (o1 @ os))))"

text \<open>\<^verbatim>\<open>memset(nlh, 0, sizeof(nlh))\<close> clears as many bytes as a pointer has.\<close>

definition clear_ptr_bytes :: "obuf \<Rightarrow> obuf" where
  "clear_ptr_bytes buf = replicate 8 (Some 0) @ drop 8 buf"

text \<open>The exit status is \<open>None\<close> while the program waits for the next message.\<close>

definition netlink_vincent_main :: "nlapi \<Rightarrow> client_env \<Rightarrow> (out list \<times> int option) cres" where
  "netlink_vincent_main A env =
     (if csocket env NETLINK_VINCENT < 0 then ret ([OStr ''Failed to create socket'', newline], Some (- 1))
      else if cbind env < 0
      then ret ([OStr ''Failed to bind netlink socket: '', OStr (cerr env), newline], Some 1)
      else
        bnd (client_message A 1050 (cpid env)) (\<lambda>buf.
        bnd (before_line A ''[Before]'' buf) (\<lambda>o1.
        bnd (send_loop A (cerr env) buf (map (csends env) [0, 1, 2])) (\<lambda>o2.
        bnd (client_loop A (clear_ptr_bytes buf) None (crecvs env)) (\<lambda>o3.
          ret (o1 @ o2 @ o3, None))))))"

text \<open>\<^verbatim>\<open>netfilter_user.c\<close> is the same text.\<close>

definition netfilter_user_main :: "nlapi \<Rightarrow> client_env \<Rightarrow> (out list \<times> int option) cres" where
  "netfilter_user_main A env = netlink_vincent_main A env"

text \<open>
  \<^verbatim>\<open>netlink_vincent_malloc_ver.c\<close>: one send and one receive, into 1024 bytes. The program checks the
  result of the receive after it has printed the buffer.
\<close>

definition malloc_ver_main :: "nlapi \<Rightarrow> client_env \<Rightarrow> int \<Rightarrow> crecv \<Rightarrow> (out list \<times> int) cres" where
  "malloc_ver_main A env sent r =
     (if csocket env NETLINK_VINCENT < 0 then ret ([OStr ''Failed to create socket'', newline], - 1)
      else if cbind env < 0
      then ret ([OStr ''Failed to bind netlink socket: '', OStr (cerr env), newline], 1)
      else
        bnd (client_message A 1024 (cpid env)) (\<lambda>buf.
        bnd (before_line A ''[Before 1]'' buf) (\<lambda>o1.
        bnd (data_str A buf) (\<lambda>s.
        let o2 = [OStr ''Send message '', quoted s, OStr '' '', newline] @
              (if sent < 0 then [OStr ''Failed to send message to kernel. Error is '', OStr (cerr env)] else []) @
              [OStr ''[Before 2] Message to kernel is '', quoted s, OStr '' '', newline];
            buf = (case r of CErr _ \<Rightarrow> buf | CData _ bs \<Rightarrow> fill buf bs);
            namelen = (case r of CErr _ \<Rightarrow> 12 | CData nl _ \<Rightarrow> nl) in
        bnd (data_str A buf) (\<lambda>s.
        bnd (get_hdr A FType buf) (\<lambda>t.
        let o3 = [OStr ''[Before 3] Message to kernel is '', quoted s, OStr '' '', newline,
                  OStr ''[After] Message from kernel is '', OStr s, OStr '', type is '', OInt (int t), newline] in
        if (case r of CErr _ \<Rightarrow> True | CData _ _ \<Rightarrow> False)
        then ret (o1 @ o2 @ o3 @ [OStr ''Failed to receive message from kernel. Error is '', OStr (cerr env)], - 1)
        else if namelen \<noteq> 12
        then ret (o1 @ o2 @ o3 @ [OStr ''Invalid length of the sender address struct'', newline], - 1)
        else bnd (get_hdr A FPid buf) (\<lambda>p.
             ret (o1 @ o2 @ o3 @ [OStr ''Received message '', quoted s, OStr '' . Pid of kernel is '',
                    OInt (to_int p), OStr '', type is '', OInt (int t), newline], 0))))))))"

section \<open>The route monitor\<close>

text \<open>
  \<^verbatim>\<open>netlink_user.c\<close>. For a new route it prints \<^verbatim>\<open>(char*)msg.msg_iov\<close>, the bytes of the structure
  \<^verbatim>\<open>{iov_base, iov_len}\<close>: the address \<open>base\<close> of the buffer, then its size, as a string. The protocol
  \<^verbatim>\<open>NETLINK_ROUTE\<close> is 0.
\<close>

definition iov_bytes :: "nat \<Rightarrow> obuf" where
  "iov_bytes base = map Some (le_enc 8 base @ le_enc 8 8192)"

definition monitor_round :: "nlapi \<Rightarrow> nat \<Rightarrow> nat \<Rightarrow> obuf \<Rightarrow> int \<Rightarrow> nat \<Rightarrow> out list cres" where
  "monitor_round A base mypid buf status namelen =
     (if namelen \<noteq> 12 then ret [OStr ''Invalid length of the sender address struct'', newline]
      else
        bnd (get_hdr A FPid buf) (\<lambda>pid.
        bnd (get_hdr A FLen buf) (\<lambda>len.
        bnd (get_hdr A FType buf) (\<lambda>type.
        let o1 = [OStr ''Got message from kernel. my_pid='', OInt (int mypid), OStr '', pid='', OInt (to_int pid),
                  OStr '', status='', OInt status, OStr '', length='', OInt (to_int len),
                  OStr '', sizeof(nl_hdr)='', OInt (int (HDRLEN A)), OStr '', type='', OInt (int type), newline] in
        if type = RTM_NEWROUTE A
        then bnd (ostr (iov_bytes base)) (\<lambda>s.
               ret (o1 @ [OStr ''Got route add. message is: '', OStr s, newline]))
        else if type = RTM_DELROUTE A then ret (o1 @ [OStr ''Got route delete.'', newline])
        else ret o1))))"

fun monitor_loop :: "nlapi \<Rightarrow> nat \<Rightarrow> client_env \<Rightarrow> obuf \<Rightarrow> crecv list \<Rightarrow> out list cres" where
  "monitor_loop A base env buf [] = ret []"
| "monitor_loop A base env buf (CErr again # rs) =
     bnd (monitor_loop A base env buf rs) (\<lambda>os.
       ret ((if again then [] else [OStr ''Failed to read netlink: '', OStr (cerr env)]) @ os))"
| "monitor_loop A base env buf (CData nl bs # rs) =
     bnd (monitor_round A base (cpid env) (fill buf bs) (int (min (length buf) (length bs))) nl) (\<lambda>o1.
     bnd (monitor_loop A base env (fill buf bs) rs) (\<lambda>os. ret (o1 @ os)))"

definition netlink_user_main :: "nlapi \<Rightarrow> nat \<Rightarrow> client_env \<Rightarrow> (out list \<times> int option) cres" where
  "netlink_user_main A base env =
     (if csocket env 0 < 0 then ret ([OStr ''Failed to create socket'', newline], Some 1)
      else if cbind env < 0
      then ret ([OStr ''Failed to bind netlink socket: '', OStr (cerr env), newline], Some 1)
      else bnd (monitor_loop A base env (replicate 8192 None) (crecvs env)) (\<lambda>os.
             ret ([OStr ''Wait for message from kernel:'', newline] @ os, None)))"

section \<open>What the header files promise\<close>

text \<open>
  netlink(7) and netlink(3) of the header fields and macros, and the kernel documentation of
  \<^verbatim>\<open>alloc_skb\<close> and \<^verbatim>\<open>nlmsg_put\<close>.
\<close>

definition fits :: "hfield \<Rightarrow> nat \<Rightarrow> bool" where
  "fits f v \<longleftrightarrow> v < (if f = FType \<or> f = FFlags then 65536 else 4294967296)"

lemma c_string_msgs [simp]: "c_string cli_msg" "c_string msg_from_kernel"
  by (simp_all add: c_string_def cli_msg_def msg_from_kernel_def)

lemma length_msgs [simp]: "length cli_msg = 38" "length msg_from_kernel = 44"
  by (simp_all add: cli_msg_def msg_from_kernel_def)

locale netlink_api =
  fixes A :: nlapi
  assumes hdr_small: "HDRLEN A \<le> 16"
    and set_hdr_law: "HDRLEN A \<le> length m \<Longrightarrow> fits f v \<Longrightarrow>
      \<exists>m'. set_hdr A f v m = ret m' \<and> length m' = length m \<and> drop (HDRLEN A) m' = drop (HDRLEN A) m
        \<and> get_hdr A f m' = ret v \<and> (\<forall>g. g \<noteq> f \<longrightarrow> get_hdr A g m' = get_hdr A g m)"
    and get_hdr_law: "HDRLEN A \<le> length m \<Longrightarrow> HDRLEN A \<le> length m' \<Longrightarrow>
      take (HDRLEN A) m = take (HDRLEN A) m' \<Longrightarrow> get_hdr A f m = get_hdr A f m'"
    and ok_law: "HDRLEN A \<le> length m \<Longrightarrow> get_hdr A FLen m = ret l \<Longrightarrow>
      MSG_OK A m status = ret (int (HDRLEN A) \<le> status \<and> HDRLEN A \<le> l \<and> int l \<le> status)"
    and length_law: "LENGTH A n = HDRLEN A + n"
    and space_law: "HDRLEN A + n \<le> SPACE A n" "SPACE A n \<le> HDRLEN A + n + 3" "4 dvd n \<Longrightarrow> SPACE A n = HDRLEN A + n"
    and alloc_law: "alloc_skb A n = Some room \<Longrightarrow> n \<le> room"
    and put_law: "SPACE A n \<le> room \<Longrightarrow> fits FLen (HDRLEN A + n) \<Longrightarrow> fits FPid p \<Longrightarrow> fits FSeq q \<Longrightarrow>
      fits FType t \<Longrightarrow> fits FFlags fl \<Longrightarrow>
      \<exists>m. nlmsg_put A room p q t n fl = Some m \<and> length m = SPACE A n
        \<and> get_hdr A FLen m = ret (HDRLEN A + n) \<and> get_hdr A FType m = ret t
        \<and> get_hdr A FPid m = ret p"
begin

lemma strcpy_payload:
  assumes "HDRLEN A + length s + 1 \<le> length m" and "c_string s"
  shows "\<exists>m'. strcpy_at m (HDRLEN A) s = ret m' \<and> length m' = length m \<and> data_str A m' = ret s
    \<and> (\<forall>f. get_hdr A f m' = get_hdr A f m)"
proof -
  let ?m = "take (HDRLEN A) m @ str_bytes s @ drop (HDRLEN A + length s + 1) m"
  have "strcpy_at m (HDRLEN A) s = ret ?m" "length ?m = length m"
    using assms(1) by (simp_all add: strcpy_at_def)
  moreover have "data_str A ?m = ret s"
    using assms by (simp add: data_str_def ostr_str_bytes c_string_def list_all_iff)
  moreover have "get_hdr A f ?m = get_hdr A f m" for f
    by (rule get_hdr_law) (use assms(1) in simp_all)
  ultimately show ?thesis by blast
qed

lemma client_message_ok:
  assumes "55 \<le> sz" and "fits FLen sz" and "fits FPid pid"
  shows "\<exists>m. client_message A sz pid = ret m \<and> length m = sz \<and> data_str A m = ret cli_msg
    \<and> get_hdr A FLen m = ret sz \<and> get_hdr A FType m = ret VINCENT_HELLO \<and> get_hdr A FPid m = ret pid"
proof -
  have h: "HDRLEN A \<le> sz" using hdr_small assms(1) by simp
  obtain m1 where m1: "set_hdr A FPid pid (replicate sz None) = ret m1" "length m1 = sz"
    "get_hdr A FPid m1 = ret pid"
    using set_hdr_law [of "replicate sz None" FPid pid] h assms(3) by auto
  obtain m2 where m2: "set_hdr A FLen sz m1 = ret m2" "length m2 = sz"
    "get_hdr A FLen m2 = ret sz" "get_hdr A FPid m2 = ret pid"
    using set_hdr_law [of m1 FLen sz] h assms(2) m1 by auto
  have hello: "fits FType VINCENT_HELLO" by (simp add: fits_def VINCENT_HELLO_def)
  obtain m3 where m3: "set_hdr A FType VINCENT_HELLO m2 = ret m3" "length m3 = sz"
    "get_hdr A FLen m3 = ret sz" "get_hdr A FPid m3 = ret pid" "get_hdr A FType m3 = ret VINCENT_HELLO"
    using set_hdr_law [of m2 FType, OF _ hello] h m2 by auto
  show ?thesis
    using strcpy_payload [of cli_msg m3] m1 m2 m3 hdr_small assms(1)
    by (auto simp: client_message_def)
qed

lemma reply_ok:
  assumes "alloc_skb A (SPACE A MAX_MSGSIZE) = Some room"
  shows "\<exists>r. send_msg_to_user A pid =
      ret ([OStr ''Send message: '', quoted msg_from_kernel, OStr '' to user. '', newline], Some (pid, r))
    \<and> length r = HDRLEN A + 1024 \<and> data_str A r = ret msg_from_kernel
    \<and> get_hdr A FLen r = ret (HDRLEN A + 1024) \<and> get_hdr A FType r = ret 55 \<and> get_hdr A FPid r = ret 0"
proof -
  have sp: "SPACE A 1024 = HDRLEN A + 1024" by (rule space_law(3)) simp
  have room: "SPACE A 1024 \<le> room" using alloc_law [OF assms] by (simp add: MAX_MSGSIZE_def)
  obtain m where m: "nlmsg_put A room 0 0 0 1024 0 = Some m" "length m = HDRLEN A + 1024"
    "get_hdr A FLen m = ret (HDRLEN A + 1024)" "get_hdr A FPid m = ret 0"
    using put_law [OF room, of 0 0 0 0] hdr_small sp by (auto simp: fits_def)
  obtain m' where m': "set_hdr A FType 55 m = ret m'" "length m' = HDRLEN A + 1024"
    "get_hdr A FLen m' = ret (HDRLEN A + 1024)" "get_hdr A FPid m' = ret 0" "get_hdr A FType m' = ret 55"
    using set_hdr_law [of m FType 55] m by (auto simp: fits_def)
  show ?thesis
    using strcpy_payload [of msg_from_kernel m'] m m' assms
    by (auto simp: send_msg_to_user_def MAX_MSGSIZE_def RESPONSE_MSG_TYPE_def)
qed

lemma recv_accepts:
  assumes "get_hdr A FPid m = ret p" and "get_hdr A FLen m = ret len" and "data_str A m = ret s"
    and "HDRLEN A \<le> len" and "len \<le> length m" and "in_int (kcount st + 1)"
    and "send_msg_to_user A (to_int p) = ret (os, reply)"
  shows "recv_user_msg A st m =
    ret (st\<lparr>user_pid := to_int p, kcount := kcount st + 1\<rparr>,
         received_line s (to_int p) (to_int len) (kcount st + 1) @ os, reply)"
  using assms by (simp add: recv_user_msg_def Let_def)

lemma fill_message:
  assumes "length r \<le> length buf" and "HDRLEN A \<le> length r" and "data_str A r = ret s"
  shows "length (fill buf r) = length buf" "get_hdr A f (fill buf r) = get_hdr A f r"
    "data_str A (fill buf r) = ret s"
  using assms get_hdr_law [of "fill buf r" r f]
  by (auto simp: fill_def data_str_def ostr_append)

lemma client_loop_replies:
  assumes "length r \<le> length buf" and "HDRLEN A \<le> length r" and "data_str A r = ret s"
    and "get_hdr A FType r = ret t" and "get_hdr A FLen r = ret (length r)"
  shows "client_loop A buf rt (replicate n (CData 12 r)) =
    ret (concat (replicate n (good_line s t (length r) (HDRLEN A) (HDRLEN A + length r))))"
  using assms(1)
proof (induction n arbitrary: buf rt)
  case (Suc n)
  note f = fill_message [OF Suc.prems assms(2,3)]
  have "MSG_OK A (fill buf r) (int (length r)) = ret True"
    using ok_law [of "fill buf r" "length r" "int (length r)"] f assms(2,5) Suc.prems by simp
  then have "client_round A (fill buf r) (int (min (length buf) (length r))) rt =
      ret (Some (response_name t), good_line s t (length r) (HDRLEN A) (HDRLEN A + length r))"
    using f assms(4,5) Suc.prems by (simp add: client_round_def length_law min_absorb2)
  with Suc.IH [of "fill buf r"] f(1) Suc.prems show ?case by (simp add: Let_def)
qed simp

end

section \<open>The Linux header files\<close>

fun layout :: "hfield \<Rightarrow> nat \<times> nat" where
  "layout FLen = (0, 4)"
| "layout FType = (4, 2)"
| "layout FFlags = (6, 2)"
| "layout FSeq = (8, 4)"
| "layout FPid = (12, 4)"

definition get_bytes :: "nat \<Rightarrow> nat \<Rightarrow> obuf \<Rightarrow> nat cres" where
  "get_bytes a n m =
     (if length m < a + n then fault OutOfBounds
      else if None \<in> set (take n (drop a m)) then fault Uninit
      else ret (le_nat (map the (take n (drop a m)))))"

definition set_bytes :: "nat \<Rightarrow> nat \<Rightarrow> nat \<Rightarrow> obuf \<Rightarrow> obuf cres" where
  "set_bytes a n v m =
     (if length m < a + n then fault OutOfBounds
      else ret (take a m @ map Some (le_enc n v) @ drop (a + n) m))"

definition linux_get :: "hfield \<Rightarrow> obuf \<Rightarrow> nat cres" where
  "linux_get f = get_bytes (fst (layout f)) (snd (layout f))"

definition linux_space :: "nat \<Rightarrow> nat" where
  "linux_space n = (16 + n + 3) div 4 * 4"

definition linux_header :: "nat \<Rightarrow> nat \<Rightarrow> nat \<Rightarrow> nat \<Rightarrow> nat \<Rightarrow> obuf" where
  "linux_header len t fl q p =
     map Some (le_enc 4 len @ le_enc 2 t @ le_enc 2 fl @ le_enc 4 q @ le_enc 4 p)"

definition linux_nl :: nlapi where
  "linux_nl = \<lparr>HDRLEN = 16, LENGTH = (\<lambda>n. 16 + n), SPACE = linux_space,
     MSG_OK = (\<lambda>m status. if status < 16 then ret False
                 else bnd (linux_get FLen m) (\<lambda>l. ret (16 \<le> l \<and> int l \<le> status))),
     get_hdr = linux_get, set_hdr = (\<lambda>f. set_bytes (fst (layout f)) (snd (layout f))),
     alloc_skb = Some,
     nlmsg_put = (\<lambda>room p q t n fl.
       if linux_space n \<le> room
       then Some (linux_header (16 + n) t fl q p @ replicate n None @ replicate (linux_space n - 16 - n) (Some 0))
       else None),
     RTM_NEWROUTE = 24, RTM_DELROUTE = 25\<rparr>"

lemma linux_nl_fields [simp]:
  "HDRLEN linux_nl = 16" "get_hdr linux_nl = linux_get" "SPACE linux_nl = linux_space"
  "alloc_skb linux_nl = Some" "LENGTH linux_nl n = 16 + n"
  by (simp_all add: linux_nl_def)

lemma get_set_bytes_same:
  "a + n \<le> length m \<Longrightarrow> v < 256 ^ n \<Longrightarrow>
     get_bytes a n (take a m @ map Some (le_enc n v) @ drop (a + n) m) = ret v"
  by (auto simp: get_bytes_def le_nat_enc comp_def)

lemma get_set_bytes_other:
  assumes "a + n \<le> length m" and "b + k \<le> a \<or> a + n \<le> b"
  shows "get_bytes b k (take a m @ map Some (le_enc n v) @ drop (a + n) m) = get_bytes b k m"
proof -
  let ?m = "take a m @ map Some (le_enc n v) @ drop (a + n) m"
  have "length ?m = length m" using assms(1) by simp
  moreover have "take k (drop b ?m) = take k (drop b m)"
    using assms by (auto simp: drop_append take_append drop_take min_def)
  ultimately show ?thesis by (simp add: get_bytes_def)
qed

lemma layout_disjoint:
  "f \<noteq> g \<Longrightarrow> fst (layout g) + snd (layout g) \<le> fst (layout f) \<or> fst (layout f) + snd (layout f) \<le> fst (layout g)"
  by (cases f; cases g) simp_all

lemma layout_in_header: "fst (layout f) + snd (layout f) \<le> 16"
  by (cases f) simp_all

lemma fits_layout: "fits f v \<Longrightarrow> v < 256 ^ snd (layout f)"
  by (cases f) (simp_all add: fits_def)

lemma linux_get_cong:
  "16 \<le> length m \<Longrightarrow> 16 \<le> length m' \<Longrightarrow> take 16 m = take 16 m' \<Longrightarrow> linux_get f m = linux_get f m'"
proof -
  assume a: "16 \<le> length m" "16 \<le> length m'" "take 16 m = take 16 m'"
  have "take n (drop b m) = take n (drop b m')" if "b + n \<le> 16" for b n
    using arg_cong [OF a(3), of "\<lambda>x. take n (drop b x)"] that by (simp add: drop_take min_absorb1)
  then show ?thesis
    using layout_in_header [of f] a(1,2) by (simp add: linux_get_def get_bytes_def)
qed

lemma linux_get_header:
  assumes "fits FLen len" "fits FType t" "fits FPid p"
  shows "linux_get FLen (linux_header len t fl q p @ r) = ret len"
    "linux_get FType (linux_header len t fl q p @ r) = ret t"
    "linux_get FPid (linux_header len t fl q p @ r) = ret p"
  using assms le_nat_enc [of len 4] le_nat_enc [of t 2] le_nat_enc [of p 4]
  by (auto simp: linux_get_def get_bytes_def linux_header_def fits_def comp_def)

interpretation linux: netlink_api linux_nl
proof unfold_locales
  fix m :: obuf and f v
  assume "HDRLEN linux_nl \<le> length m" "fits f v"
  then have *: "fst (layout f) + snd (layout f) \<le> length m" "16 \<le> length m" "v < 256 ^ snd (layout f)"
    using layout_in_header [of f] fits_layout by auto
  let ?m = "take (fst (layout f)) m @ map Some (le_enc (snd (layout f)) v) @ drop (fst (layout f) + snd (layout f)) m"
  have "set_hdr linux_nl f v m = ret ?m" using *(1) by (simp add: linux_nl_def set_bytes_def)
  moreover have "linux_get f ?m = ret v" using * by (simp add: linux_get_def get_set_bytes_same)
  moreover have "linux_get g ?m = linux_get g m" if "g \<noteq> f" for g
    using get_set_bytes_other [OF *(1)] layout_disjoint that by (simp add: linux_get_def)
  moreover have "drop 16 ?m = drop 16 m" "length ?m = length m"
    using *(1,2) layout_in_header [of f] by (auto simp: drop_append)
  ultimately show "\<exists>m'. set_hdr linux_nl f v m = ret m' \<and> length m' = length m
      \<and> drop (HDRLEN linux_nl) m' = drop (HDRLEN linux_nl) m \<and> get_hdr linux_nl f m' = ret v
      \<and> (\<forall>g. g \<noteq> f \<longrightarrow> get_hdr linux_nl g m' = get_hdr linux_nl g m)"
    by (intro exI [of _ ?m]) auto
next
  fix n room p q t fl
  assume "SPACE linux_nl n \<le> room" and f: "fits FLen (HDRLEN linux_nl + n)" "fits FPid p" "fits FType t"
  then show "\<exists>m. nlmsg_put linux_nl room p q t n fl = Some m \<and> length m = SPACE linux_nl n
      \<and> get_hdr linux_nl FLen m = ret (HDRLEN linux_nl + n) \<and> get_hdr linux_nl FType m = ret t
      \<and> get_hdr linux_nl FPid m = ret p"
    by (auto simp: linux_nl_def linux_get_header) (simp add: linux_header_def linux_space_def; linarith)
next
  fix n :: nat
  assume "4 dvd n"
  then show "SPACE linux_nl n = HDRLEN linux_nl + n" by (auto simp: linux_space_def elim!: dvdE)
next
  fix m m' :: obuf and f
  assume "HDRLEN linux_nl \<le> length m" "HDRLEN linux_nl \<le> length m'"
    "take (HDRLEN linux_nl) m = take (HDRLEN linux_nl) m'"
  then show "get_hdr linux_nl f m = get_hdr linux_nl f m'"
    unfolding linux_nl_fields by (rule linux_get_cong)
next
  fix n
  show "HDRLEN linux_nl + n \<le> SPACE linux_nl n" "SPACE linux_nl n \<le> HDRLEN linux_nl + n + 3"
    unfolding linux_nl_fields linux_space_def by linarith+
qed (simp_all add: linux_nl_def)

section \<open>Accounting of the module\<close>

definition accepted :: "nlapi \<Rightarrow> obuf \<Rightarrow> bool" where
  "accepted A m \<longleftrightarrow> (case get_hdr A FLen m of Some (Inr len) \<Rightarrow> HDRLEN A \<le> len \<and> len \<le> length m | _ \<Rightarrow> False)"

definition sender :: "nlapi \<Rightarrow> obuf \<Rightarrow> int" where
  "sender A m = (case get_hdr A FPid m of Some (Inr p) \<Rightarrow> to_int p | _ \<Rightarrow> 0)"

lemma send_msg_port:
  "send_msg_to_user A pid = ret (os, reply) \<Longrightarrow>
     (case alloc_skb A (SPACE A MAX_MSGSIZE) of None \<Rightarrow> reply = None | Some _ \<Rightarrow> \<exists>r. reply = Some (pid, r))"
  by (auto simp: send_msg_to_user_def elim!: bnd_eq_ret_E split: option.splits)

lemma recv_user_msg_effect:
  assumes "recv_user_msg A st m = ret (st', os, reply)"
  shows "user_pid st' = sender A m \<and> nl_sk st' = nl_sk st \<and>
    (if accepted A m
     then kcount st' = kcount st + 1 \<and>
       (case alloc_skb A (SPACE A MAX_MSGSIZE) of None \<Rightarrow> reply = None | Some _ \<Rightarrow> \<exists>r. reply = Some (sender A m, r))
     else kcount st' = kcount st \<and> os = [] \<and> reply = None)"
proof -
  from assms obtain p len where pl: "get_hdr A FPid m = ret p" "get_hdr A FLen m = ret len"
    by (auto simp: recv_user_msg_def Let_def elim!: bnd_eq_ret_E)
  then have acc: "accepted A m \<longleftrightarrow> \<not> (len < HDRLEN A \<or> length m < len)" "sender A m = to_int p"
    by (auto simp: accepted_def sender_def)
  show ?thesis
  proof (cases "accepted A m")
    case False
    then show ?thesis using assms pl acc by (auto simp: recv_user_msg_def Let_def)
  next
    case True
    then obtain c os' where *: "ck (kcount st + 1) = ret c" "send_msg_to_user A (to_int p) = ret (os', reply)"
      "st' = st\<lparr>user_pid := to_int p, kcount := c\<rparr>"
      using assms pl acc by (auto simp: recv_user_msg_def Let_def elim!: bnd_eq_ret_E)
    then show ?thesis using True send_msg_port [OF *(2)] unfolding acc(2) by simp
  qed
qed

section \<open>Properties\<close>

text \<open>
  C2: The echo protocol end to end. For every netlink header that keeps its documentation, the message the
  client builds is accepted by the module; three of them advance the counter by three and are
  answered by three replies to the client's port; and the client that receives these replies prints
  the module's text with type 55 three times. (It prints the length of the whole message as payload
  length, and adds the header once more for the total.)
\<close>

theorem echo_exchange:
  assumes "netlink_api A" and "alloc_skb A (SPACE A MAX_MSGSIZE) = Some room" and "pid < 2147483648"
    and "0 \<le> kcount st" and "kcount st + 3 \<le> INT_MAX"
  shows "\<exists>m r os before. client_message A 1050 pid = ret m
    \<and> recv_user_msgs A st [m, m, m] =
        ret (st\<lparr>user_pid := int pid, kcount := kcount st + 3\<rparr>, os, replicate 3 (int pid, r))
    \<and> before_line A ''[Before]'' m = ret before
    \<and> netlink_vincent_main A \<lparr>csocket = (\<lambda>_. 3), cbind = 0, cpid = pid, csends = (\<lambda>_. 1050),
          crecvs = replicate 3 (CData 12 r), cerr = []\<rparr> =
        ret (before @ concat (replicate 3 [OStr ''Send message '', quoted cli_msg, OStr '' '', newline]) @
             concat (replicate 3 (good_line msg_from_kernel 55 (HDRLEN A + 1024) (HDRLEN A) (HDRLEN A + (HDRLEN A + 1024)))),
             None)"
proof -
  note api = assms(1)
  obtain m where m: "client_message A 1050 pid = ret m" "length m = 1050" "data_str A m = ret cli_msg"
    "get_hdr A FLen m = ret 1050" "get_hdr A FType m = ret VINCENT_HELLO" "get_hdr A FPid m = ret pid"
    using netlink_api.client_message_ok [OF api, of 1050 pid] assms(3) by (auto simp: fits_def)
  obtain o1 r where r: "send_msg_to_user A (int pid) = ret (o1, Some (int pid, r))" "length r = HDRLEN A + 1024"
    "data_str A r = ret msg_from_kernel" "get_hdr A FLen r = ret (HDRLEN A + 1024)" "get_hdr A FType r = ret 55"
    using netlink_api.reply_ok [OF api assms(2), of "int pid"] by auto
  have h: "HDRLEN A \<le> 16" by (rule netlink_api.hdr_small [OF api])
  have step: "\<exists>os. recv_user_msg A s m = ret (s\<lparr>user_pid := int pid, kcount := kcount s + 1\<rparr>, os, Some (int pid, r))"
    if "in_int (kcount s + 1)" for s :: echo_state
    using netlink_api.recv_accepts [OF api m(6,4,3) _ _ that] m(2) h r(1) assms(3) by (auto simp: to_int_def)
  have run: "\<exists>os. recv_user_msgs A st [m, m, m] =
      ret (st\<lparr>user_pid := int pid, kcount := kcount st + 3\<rparr>, os, replicate 3 (int pid, r))"
    using step [of st] step [of "st\<lparr>user_pid := int pid, kcount := kcount st + 1\<rparr>"]
      step [of "st\<lparr>user_pid := int pid, kcount := 2 + kcount st\<rparr>"] assms(4,5)
    by (auto simp: int_range_defs numeral_eq_Suc add.commute [of "kcount st" 3])
  obtain before where b: "before_line A ''[Before]'' m = ret before" using m by (auto simp: before_line_def)
  have "client_loop A (clear_ptr_bytes m) None (replicate 3 (CData 12 r)) =
      ret (concat (replicate 3 (good_line msg_from_kernel 55 (length r) (HDRLEN A) (HDRLEN A + length r))))"
    by (rule netlink_api.client_loop_replies [OF api _ _ r(3,5)])
      (use r h m(2) in \<open>auto simp: clear_ptr_bytes_def\<close>)
  with run m b r show ?thesis
    by (auto simp: netlink_vincent_main_def numeral_eq_Suc)
qed

theorem echo_exchange_witness:
  "\<exists>m os r. client_message linux_nl 1050 77 = ret m
     \<and> recv_user_msgs linux_nl echo_initial [m, m, m] = ret (\<lparr>nl_sk = False, user_pid = 77, kcount = 3\<rparr>, os, replicate 3 (77, r))"
  using echo_exchange [OF linux.netlink_api_axioms, of 1040 77 echo_initial]
  by (auto simp: echo_initial_def linux_space_def MAX_MSGSIZE_def INT_MAX_def)

text \<open>
  C28: On any sequence of messages the module counts exactly the messages whose length field covers the
  header and stays inside the buffer, and, while buffers can be allocated, answers each of these
  once, in order, to the port written in the message. The recorded port is that of the last
  message, also when its length was refused.
\<close>

theorem echo_accounting:
  assumes "recv_user_msgs A st ms = ret (st', os, rs)"
  shows "kcount st' = kcount st + int (length (filter (accepted A) ms))
    \<and> (alloc_skb A (SPACE A MAX_MSGSIZE) \<noteq> None \<longrightarrow> map fst rs = map (sender A) (filter (accepted A) ms))
    \<and> user_pid st' = (if ms = [] then user_pid st else sender A (last ms))"
  using assms
proof (induction ms arbitrary: st os rs)
  case (Cons m ms)
  then obtain st1 o1 r1 o2 r2 where s: "recv_user_msg A st m = ret (st1, o1, r1)"
    "recv_user_msgs A st1 ms = ret (st', o2, r2)"
    "rs = (case r1 of None \<Rightarrow> [] | Some r \<Rightarrow> [r]) @ r2"
    by (auto elim!: bnd_eq_ret_E)
  show ?case
    using recv_user_msg_effect [OF s(1)] Cons.IH [OF s(2)] s(3)
    by (cases "accepted A m"; cases "alloc_skb A (SPACE A MAX_MSGSIZE)"; cases ms) auto
qed simp

theorem echo_accounting_witness:
  "recv_user_msgs linux_nl echo_initial [linux_header 15 0 0 0 9] =
     ret (\<lparr>nl_sk = False, user_pid = 9, kcount = 0\<rparr>, [], []) \<and>
   (0 :: int) = 0 + int (length (filter (accepted linux_nl) [linux_header 15 0 0 0 9]))"
proof -
  have "recv_user_msgs linux_nl echo_initial [linux_header 15 0 0 0 9] =
     ret (\<lparr>nl_sk = False, user_pid = 9, kcount = 0\<rparr>, [], [])"
    using linux_get_header [of 15 0 9 0 0 "[]"]
    by (simp add: recv_user_msg_def Let_def echo_initial_def to_int_def fits_def)
  from this echo_accounting [OF this] show ?thesis by (simp add: echo_initial_def)
qed



text \<open>
  The netfilter module: once loaded, its hook drops every packet (verdict 0), whatever it is; its
  client asks for protocol 31 while the module serves protocol 30, so on a system where only this
  module is loaded it stops with an error; and when the hook cannot be registered the load fails
  but leaves the netlink socket open.
\<close>

lemma netfilter_module:
  "fst (get_icmp skb) = 0
   \<and> ((\<forall>p. csocket env p = (if p = NETFILTER_VINCENT then 3 else - 1)) \<longrightarrow>
        netfilter_user_main A env = ret ([OStr ''Failed to create socket'', newline], Some (- 1)))
   \<and> (e \<noteq> 0 \<longrightarrow> (\<exists>st os. netfilter_test_init True e nf_initial = (st, os, - 1) \<and> sk_open st \<and> \<not> hooked st))
   \<and> (\<exists>st os st' os'. netfilter_test_init True 0 nf_initial = (st, os, 0) \<and> sk_open st \<and> hooked st
        \<and> netfilter_test_exit st = ret (st', os') \<and> \<not> sk_open st' \<and> \<not> hooked st')"
  by (simp add: get_icmp_def netfilter_user_main_def netlink_vincent_main_def NETFILTER_VINCENT_def
      NETLINK_VINCENT_def netfilter_test_init_def netfilter_test_exit_def nf_initial_def Let_def)


end
