(* ===== verification/Nf_Hooks.thy ===== *)
theory Nf_Hooks
  imports C_Prelude
begin

text \<open>
  What the two kernel modules use of netfilter: the description of a hook and the places of the
  packet path where the kernel calls it. The kernel calls a registered hook for the packets of its
  protocol family at its place, and for no others.
\<close>

record 'f nf_hook_ops =
  hook :: 'f
  pf :: nat
  hooknum :: nat
  priority :: int

definition NFPROTO_IPV4 :: nat where "NFPROTO_IPV4 = 2"
definition NFPROTO_IPV6 :: nat where "NFPROTO_IPV6 = 10"

definition NF_INET_PRE_ROUTING :: nat where "NF_INET_PRE_ROUTING = 0"
definition NF_INET_LOCAL_IN :: nat where "NF_INET_LOCAL_IN = 1"
definition NF_INET_POST_ROUTING :: nat where "NF_INET_POST_ROUTING = 4"

definition NF_IP_PRI_FILTER :: int where "NF_IP_PRI_FILTER = 0"
definition NF_IP_PRI_LAST :: int where "NF_IP_PRI_LAST = INT_MAX"

definition called_at :: "'f nf_hook_ops \<Rightarrow> nat \<Rightarrow> nat \<Rightarrow> bool" where
  "called_at ops family place \<longleftrightarrow> pf ops = family \<and> hooknum ops = place"

lemmas nf_numbers = NFPROTO_IPV4_def NFPROTO_IPV6_def NF_INET_PRE_ROUTING_def NF_INET_LOCAL_IN_def
  NF_INET_POST_ROUTING_def

end
