(* ===== verification/Netfilter_Run.thy ===== *)
theory Netfilter_Run
  imports Netlink_Echo Nf_Hooks
begin

text \<open>
  Runs of the module \<^verbatim>\<open>netfilter_kernel.c\<close>: loading, unloading, messages from user space and packets
  that arrive, in any order. The kernel keeps what the module registered and did not give back: a
  socket that a failed load has left open is counted in \<open>orphans\<close>.
\<close>

section \<open>The module in the kernel\<close>

datatype nf_event =
    Load bool int       \<comment> \<open>whether the socket can be created, the result of the registration\<close>
  | Unload
  | UserMessage obuf
  | Packet nat nat      \<comment> \<open>protocol family and place in the packet path\<close>

record nf_sys =
  nf_module :: nf_state
  loaded :: bool
  orphans :: nat
  verdicts :: "nat list"    \<comment> \<open>what happened to the packets, 0 is \<^verbatim>\<open>NF_DROP\<close>, 1 is \<^verbatim>\<open>NF_ACCEPT\<close>\<close>

definition nf_start :: nf_sys where
  "nf_start = \<lparr>nf_module = nf_initial, loaded = False, orphans = 0, verdicts = []\<rparr>"

definition icmp_ops :: "(unit \<Rightarrow> nat \<times> out list) nf_hook_ops" where
  "icmp_ops = \<lparr>hook = get_icmp, pf = NFPROTO_IPV4, hooknum = NF_INET_PRE_ROUTING, priority = NF_IP_PRI_FILTER - 1\<rparr>"

text \<open>While the hook is registered, packets of its family at its place go through it; all others pass.\<close>

definition packet_verdict :: "nat \<Rightarrow> nat \<Rightarrow> nf_sys \<Rightarrow> nat" where
  "packet_verdict family place s =
     (if hooked (nf_module s) \<and> called_at icmp_ops family place then fst (hook icmp_ops ()) else 1)"

text \<open>The function the kernel calls for a message to the module's socket.\<close>

record netlink_kernel_cfg =
  input :: "nlapi \<Rightarrow> nf_state \<Rightarrow> obuf \<Rightarrow> (nf_state \<times> out list) cres"

definition test_cfg :: netlink_kernel_cfg where
  "test_cfg = \<lparr>input = nf_recv_user_msg\<rparr>"

text \<open>A load starts with the initial values of the module's variables.\<close>

inductive nf_reach :: "nlapi \<Rightarrow> nf_event list \<Rightarrow> nf_sys \<Rightarrow> bool" for A where
  nf_begin: "nf_reach A [] nf_start"
| nf_load: "nf_reach A evs s \<Longrightarrow> \<not> loaded s \<Longrightarrow> netfilter_test_init created res nf_initial = (st, os, r) \<Longrightarrow>
     nf_reach A (evs @ [Load created res])
       (s\<lparr>nf_module := st, loaded := (r = 0), orphans := orphans s + (if r \<noteq> 0 \<and> sk_open st then 1 else 0)\<rparr>)"
| nf_unload: "nf_reach A evs s \<Longrightarrow> loaded s \<Longrightarrow> netfilter_test_exit (nf_module s) = ret (st, os) \<Longrightarrow>
     nf_reach A (evs @ [Unload]) (s\<lparr>nf_module := st, loaded := False\<rparr>)"
| nf_message: "nf_reach A evs s \<Longrightarrow> loaded s \<Longrightarrow> input test_cfg A (nf_module s) skb = ret (st, os) \<Longrightarrow>
     nf_reach A (evs @ [UserMessage skb]) (s\<lparr>nf_module := st\<rparr>)"
| nf_packet: "nf_reach A evs s \<Longrightarrow> 
     nf_reach A (evs @ [Packet family place]) (s\<lparr>verdicts := verdicts s @ [packet_verdict family place s]\<rparr>)"

section \<open>What the events amount to\<close>

text \<open>
  The abstract module: whether it is loaded, the messages counted since the last load, the
  sockets left open, the verdicts.
\<close>

record nf_view =
  v_loaded :: bool
  v_count :: int
  v_orphans :: nat
  v_verdicts :: "nat list"

fun view_step :: "nlapi \<Rightarrow> nf_event \<Rightarrow> nf_view \<Rightarrow> nf_view" where
  "view_step A (Load created res) v =
     v\<lparr>v_loaded := created \<and> res = 0, v_count := 0, v_orphans := v_orphans v + (if created \<and> res \<noteq> 0 then 1 else 0)\<rparr>"
| "view_step A Unload v = v\<lparr>v_loaded := False\<rparr>"
| "view_step A (UserMessage skb) v = v\<lparr>v_count := v_count v + (if accepted A skb then 1 else 0)\<rparr>"
| "view_step A (Packet family place) v =
     v\<lparr>v_verdicts := v_verdicts v @
        [if v_loaded v \<and> family = NFPROTO_IPV4 \<and> place = NF_INET_PRE_ROUTING then 0 else 1]\<rparr>"

definition view_of :: "nf_sys \<Rightarrow> nf_view" where
  "view_of s = \<lparr>v_loaded = loaded s, v_count = kcount (nf_module s), v_orphans = orphans s, v_verdicts = verdicts s\<rparr>"

definition view_start :: nf_view where
  "view_start = \<lparr>v_loaded = False, v_count = 0, v_orphans = 0, v_verdicts = []\<rparr>"

definition nf_inv :: "nf_sys \<Rightarrow> bool" where
  "nf_inv s \<longleftrightarrow> hooked (nf_module s) = loaded s \<and> (loaded s \<longrightarrow> nl_sk (nf_module s) \<and> sk_open (nf_module s))"

lemma nf_recv_effect:
  assumes "nf_recv_user_msg A st skb = ret (st', os)"
  shows "kcount st' = kcount st + (if accepted A skb then 1 else 0) \<and> hooked st' = hooked st
    \<and> nl_sk st' = nl_sk st \<and> sk_open st' = sk_open st"
  using assms by (auto simp: nf_recv_user_msg_def accepted_def Let_def split: if_splits elim!: bnd_eq_ret_E)

lemma nf_reach_inv: "nf_reach A evs s \<Longrightarrow> nf_inv s"
proof (induction rule: nf_reach.induct)
  case nf_begin
  then show ?case by (simp add: nf_inv_def nf_start_def nf_initial_def)
next
  case (nf_load evs s created res st os r)
  then show ?case by (auto simp: nf_inv_def netfilter_test_init_def nf_initial_def Let_def split: if_splits)
next
  case (nf_unload evs s st os)
  then show ?case by (auto simp: nf_inv_def netfilter_test_exit_def split: if_splits)
next
  case (nf_message evs s skb st os)
  then show ?case using nf_recv_effect [of A "nf_module s" skb st os] by (auto simp: nf_inv_def test_cfg_def)
next
  case (nf_packet evs s)
  then show ?case by (simp add: nf_inv_def)
qed

lemma nf_reach_view: "nf_reach A evs s \<Longrightarrow> fold (view_step A) evs view_start = view_of s"
proof (induction rule: nf_reach.induct)
  case nf_begin
  then show ?case by (simp add: view_of_def view_start_def nf_start_def nf_initial_def)
next
  case (nf_load evs s created res st os r)
  then show ?case
    by (auto simp: view_of_def netfilter_test_init_def nf_initial_def Let_def split: if_splits)
next
  case (nf_unload evs s st os)
  then show ?case by (auto simp: view_of_def netfilter_test_exit_def split: if_splits)
next
  case (nf_message evs s skb st os)
  then show ?case using nf_recv_effect [of A "nf_module s" skb st os] by (auto simp: view_of_def test_cfg_def)
next
  case (nf_packet evs s family place)
  then show ?case using nf_reach_inv [OF nf_packet.hyps]
    by (auto simp: view_of_def nf_inv_def packet_verdict_def icmp_ops_def called_at_def get_icmp_def)
qed

section \<open>Properties\<close>

text \<open>
  C29: Every run of the netfilter module follows the abstract one: while the module is loaded every
  IPv4 packet is dropped when it arrives, before routing, and at no other time and place is a packet dropped; the well-formed messages since the last
  load are counted; the hook is registered exactly while the module is loaded, and unloading it
  works. Each load that fails at the registration of the hook leaves its netlink socket open.
\<close>

theorem netfilter_module_runs:
  assumes "nf_reach A evs s"
  shows "view_of s = fold (view_step A) evs view_start
    \<and> hooked (nf_module s) = loaded s
    \<and> (loaded s \<longrightarrow> (\<exists>st os. netfilter_test_exit (nf_module s) = ret (st, os) \<and> \<not> sk_open st \<and> \<not> hooked st))"
  using nf_reach_view [OF assms] nf_reach_inv [OF assms]
  by (auto simp: nf_inv_def netfilter_test_exit_def)

theorem netfilter_module_runs_witness:
  "\<exists>s. nf_reach linux_nl [Load True 5, Load True 0, Packet NFPROTO_IPV4 NF_INET_PRE_ROUTING] s \<and> orphans s = 1 \<and> verdicts s = [0]"
proof -
  let ?s1 = "nf_start\<lparr>nf_module := nf_initial\<lparr>nl_sk := True, sk_open := True, nf_res := 5, hooked := False\<rparr>, loaded := False, orphans := 1\<rparr>"
  let ?s2 = "?s1\<lparr>nf_module := nf_initial\<lparr>nl_sk := True, sk_open := True, nf_res := 0, hooked := True\<rparr>, loaded := True\<rparr>"
  let ?s3 = "?s2\<lparr>verdicts := verdicts ?s2 @ [packet_verdict NFPROTO_IPV4 NF_INET_PRE_ROUTING ?s2]\<rparr>"
  have "nf_reach linux_nl ([] @ [Load True 5]) ?s1"
    using nf_load [OF nf_begin, where created = True and res = 5 and st = "nf_module ?s1"] by (simp add: nf_start_def netfilter_test_init_def nf_initial_def)
  then have "nf_reach linux_nl (([] @ [Load True 5]) @ [Load True 0]) ?s2"
    using nf_load [where evs = "[Load True 5]" and s = ?s1 and created = True and res = 0 and st = "nf_module ?s2" and A = linux_nl] by (simp add: nf_start_def netfilter_test_init_def nf_initial_def)
  from nf_packet [OF this] have r: "nf_reach linux_nl [Load True 5, Load True 0, Packet NFPROTO_IPV4 NF_INET_PRE_ROUTING] ?s3" by simp
  have "view_of ?s3 = \<lparr>v_loaded = True, v_count = 0, v_orphans = 1, v_verdicts = [0]\<rparr>"
    using netfilter_module_runs [OF r] by (simp add: view_start_def)
  then show ?thesis using r by (auto simp: view_of_def)
qed

end
