(* ===== verification/Bpf_Endian.thy ===== *)
theory Bpf_Endian
  imports "HOL-Library.Word"
begin

text \<open>
  The byte-order macros of \<^verbatim>\<open>src/bpf/include/bpf_endian.h\<close>. The preprocessor picks one of two
  sets of macros by the target's byte order, and every public macro picks between a variant for
  constants and one for the compiler's builtin. Here the byte order is an argument, so is the value
  of \<^verbatim>\<open>__builtin_constant_p(x)\<close>. The builtins reverse the bytes of their argument; the functions
  \<^verbatim>\<open>___constant_swab16\<close>, \<open>32\<close> and \<open>64\<close> come from \<^verbatim>\<open>linux/swab.h\<close>, which is not part of the
  repository, and are a parameter.
\<close>

unbundle bit_operations_syntax

section \<open>Bytes of a word\<close>

text \<open>The bytes of an \<open>n\<close>-byte word from the lowest to the highest, and back.\<close>

definition le_bytes :: "nat \<Rightarrow> 'a :: len word \<Rightarrow> 8 word list" where
  "le_bytes n x = map (\<lambda>i. ucast (drop_bit (8 * i) x)) [0..<n]"

fun of_le_bytes :: "8 word list \<Rightarrow> 'a :: len word" where
  "of_le_bytes [] = 0"
| "of_le_bytes (b # bs) = ucast b OR push_bit 8 (of_le_bytes bs)"

datatype byte_order = Little | Big

text \<open>What a store of an \<open>n\<close>-byte word puts at ascending addresses.\<close>

definition mem_bytes :: "byte_order \<Rightarrow> nat \<Rightarrow> 'a :: len word \<Rightarrow> 8 word list" where
  "mem_bytes order n x = (case order of Little \<Rightarrow> le_bytes n x | Big \<Rightarrow> rev (le_bytes n x))"

definition builtin_bswap16 :: "16 word \<Rightarrow> 16 word" where
  "builtin_bswap16 x = of_le_bytes (rev (le_bytes 2 x))"

definition builtin_bswap32 :: "32 word \<Rightarrow> 32 word" where
  "builtin_bswap32 x = of_le_bytes (rev (le_bytes 4 x))"

definition builtin_bswap64 :: "64 word \<Rightarrow> 64 word" where
  "builtin_bswap64 x = of_le_bytes (rev (le_bytes 8 x))"

section \<open>The macros\<close>

record swab_ops =
  constant_swab16 :: "16 word \<Rightarrow> 16 word"
  constant_swab32 :: "32 word \<Rightarrow> 32 word"
  constant_swab64 :: "64 word \<Rightarrow> 64 word"

text \<open>The macros with two underscores, one set for each byte order.\<close>

definition raw_ntohs :: "byte_order \<Rightarrow> 16 word \<Rightarrow> 16 word" where
  "raw_ntohs order x = (case order of Little \<Rightarrow> builtin_bswap16 x | Big \<Rightarrow> x)"

definition raw_htons :: "byte_order \<Rightarrow> 16 word \<Rightarrow> 16 word" where
  "raw_htons order x = (case order of Little \<Rightarrow> builtin_bswap16 x | Big \<Rightarrow> x)"

definition raw_constant_ntohs :: "swab_ops \<Rightarrow> byte_order \<Rightarrow> 16 word \<Rightarrow> 16 word" where
  "raw_constant_ntohs S order x = (case order of Little \<Rightarrow> constant_swab16 S x | Big \<Rightarrow> x)"

definition raw_constant_htons :: "swab_ops \<Rightarrow> byte_order \<Rightarrow> 16 word \<Rightarrow> 16 word" where
  "raw_constant_htons S order x = (case order of Little \<Rightarrow> constant_swab16 S x | Big \<Rightarrow> x)"

definition raw_ntohl :: "byte_order \<Rightarrow> 32 word \<Rightarrow> 32 word" where
  "raw_ntohl order x = (case order of Little \<Rightarrow> builtin_bswap32 x | Big \<Rightarrow> x)"

definition raw_htonl :: "byte_order \<Rightarrow> 32 word \<Rightarrow> 32 word" where
  "raw_htonl order x = (case order of Little \<Rightarrow> builtin_bswap32 x | Big \<Rightarrow> x)"

definition raw_constant_ntohl :: "swab_ops \<Rightarrow> byte_order \<Rightarrow> 32 word \<Rightarrow> 32 word" where
  "raw_constant_ntohl S order x = (case order of Little \<Rightarrow> constant_swab32 S x | Big \<Rightarrow> x)"

definition raw_constant_htonl :: "swab_ops \<Rightarrow> byte_order \<Rightarrow> 32 word \<Rightarrow> 32 word" where
  "raw_constant_htonl S order x = (case order of Little \<Rightarrow> constant_swab32 S x | Big \<Rightarrow> x)"

definition raw_be64_to_cpu :: "byte_order \<Rightarrow> 64 word \<Rightarrow> 64 word" where
  "raw_be64_to_cpu order x = (case order of Little \<Rightarrow> builtin_bswap64 x | Big \<Rightarrow> x)"

definition raw_cpu_to_be64 :: "byte_order \<Rightarrow> 64 word \<Rightarrow> 64 word" where
  "raw_cpu_to_be64 order x = (case order of Little \<Rightarrow> builtin_bswap64 x | Big \<Rightarrow> x)"

definition raw_constant_be64_to_cpu :: "swab_ops \<Rightarrow> byte_order \<Rightarrow> 64 word \<Rightarrow> 64 word" where
  "raw_constant_be64_to_cpu S order x = (case order of Little \<Rightarrow> constant_swab64 S x | Big \<Rightarrow> x)"

definition raw_constant_cpu_to_be64 :: "swab_ops \<Rightarrow> byte_order \<Rightarrow> 64 word \<Rightarrow> 64 word" where
  "raw_constant_cpu_to_be64 S order x = (case order of Little \<Rightarrow> constant_swab64 S x | Big \<Rightarrow> x)"

text \<open>The public macros; \<open>c\<close> is the value of \<^verbatim>\<open>__builtin_constant_p(x)\<close>.\<close>

definition bpf_htons :: "swab_ops \<Rightarrow> byte_order \<Rightarrow> bool \<Rightarrow> 16 word \<Rightarrow> 16 word" where
  "bpf_htons S order c x = (if c then raw_constant_htons S order x else raw_htons order x)"

definition bpf_ntohs :: "swab_ops \<Rightarrow> byte_order \<Rightarrow> bool \<Rightarrow> 16 word \<Rightarrow> 16 word" where
  "bpf_ntohs S order c x = (if c then raw_constant_ntohs S order x else raw_ntohs order x)"

definition bpf_htonl :: "swab_ops \<Rightarrow> byte_order \<Rightarrow> bool \<Rightarrow> 32 word \<Rightarrow> 32 word" where
  "bpf_htonl S order c x = (if c then raw_constant_htonl S order x else raw_htonl order x)"

definition bpf_ntohl :: "swab_ops \<Rightarrow> byte_order \<Rightarrow> bool \<Rightarrow> 32 word \<Rightarrow> 32 word" where
  "bpf_ntohl S order c x = (if c then raw_constant_ntohl S order x else raw_ntohl order x)"

definition bpf_cpu_to_be64 :: "swab_ops \<Rightarrow> byte_order \<Rightarrow> bool \<Rightarrow> 64 word \<Rightarrow> 64 word" where
  "bpf_cpu_to_be64 S order c x =
     (if c then raw_constant_cpu_to_be64 S order x else raw_cpu_to_be64 order x)"

definition bpf_be64_to_cpu :: "swab_ops \<Rightarrow> byte_order \<Rightarrow> bool \<Rightarrow> 64 word \<Rightarrow> 64 word" where
  "bpf_be64_to_cpu S order c x =
     (if c then raw_constant_be64_to_cpu S order x else raw_be64_to_cpu order x)"

lemmas raw_defs = raw_ntohs_def raw_htons_def raw_constant_ntohs_def raw_constant_htons_def
  raw_ntohl_def raw_htonl_def raw_constant_ntohl_def raw_constant_htonl_def
  raw_be64_to_cpu_def raw_cpu_to_be64_def raw_constant_be64_to_cpu_def raw_constant_cpu_to_be64_def

lemmas macro_defs = bpf_htons_def bpf_ntohs_def bpf_htonl_def bpf_ntohl_def bpf_cpu_to_be64_def
  bpf_be64_to_cpu_def raw_defs

section \<open>Reversing bytes\<close>

lemma length_le_bytes [simp]: "length (le_bytes n x) = n"
  by (simp add: le_bytes_def)

lemma bit_le_bytes: "i < n \<Longrightarrow> bit (le_bytes n x ! i) k \<longleftrightarrow> k < 8 \<and> bit x (8 * i + k)"
  by (simp add: le_bytes_def bit_simps)

lemma bit_of_le_bytes:
  "8 * length bs \<le> LENGTH('a) \<Longrightarrow>
     bit (of_le_bytes bs :: 'a :: len word) k \<longleftrightarrow> k < 8 * length bs \<and> bit (bs ! (k div 8)) (k mod 8)"
proof (induction bs arbitrary: k)
  case (Cons b bs)
  show ?case
  proof (cases "k < 8")
    case True
    then show ?thesis using Cons.prems by (auto simp: bit_simps)
  next
    case False
    then obtain j where k: "k = 8 + j" by (metis le_Suc_ex not_less)
    have "\<not> bit b k" using False bit_imp_le_length [of b k] by auto
    moreover have "(8 + j) div 8 - Suc 0 = j div 8" by (simp add: div_add_self1)
    ultimately show ?thesis using Cons.IH [of j] Cons.prems k by (auto simp: bit_simps)
  qed
qed simp

text \<open>A word is its bytes, when its length is a number of bytes.\<close>

lemma le_bytes_of_le_bytes:
  assumes "8 * length bs \<le> LENGTH('a)"
  shows "le_bytes (length bs) (of_le_bytes bs :: 'a :: len word) = bs"
proof (rule nth_equalityI)
  fix i assume i: "i < length (le_bytes (length bs) (of_le_bytes bs :: 'a word))"
  show "le_bytes (length bs) (of_le_bytes bs :: 'a word) ! i = bs ! i"
  proof (rule bit_word_eqI)
    fix k assume "k < LENGTH(8)"
    moreover from this i have "8 * i + k < 8 * length bs" by simp
    ultimately show "bit (le_bytes (length bs) (of_le_bytes bs :: 'a word) ! i) k = bit (bs ! i) k"
      using i bit_of_le_bytes [OF assms, of "8 * i + k"] by (simp add: bit_le_bytes)
  qed
qed simp

lemma of_le_bytes_le_bytes:
  assumes "LENGTH('a) = 8 * n"
  shows "of_le_bytes (le_bytes n x) = (x :: 'a :: len word)"
proof (rule bit_word_eqI)
  fix k assume "k < LENGTH('a)"
  then have "k div 8 < n" using assms by simp
  then show "bit (of_le_bytes (le_bytes n x) :: 'a word) k = bit x k"
    using bit_of_le_bytes [of "le_bytes n x" k, where 'a = 'a] assms \<open>k < LENGTH('a)\<close>
    by (simp add: bit_le_bytes)
qed

lemma le_bytes_inj:
  assumes "LENGTH('a) = 8 * n" and "le_bytes n x = le_bytes n (y :: 'a :: len word)"
  shows "x = y"
  using assms of_le_bytes_le_bytes by metis

lemma builtin_bswap_bytes:
  "le_bytes 2 (builtin_bswap16 x) = rev (le_bytes 2 x)"
  "le_bytes 4 (builtin_bswap32 y) = rev (le_bytes 4 y)"
  "le_bytes 8 (builtin_bswap64 z) = rev (le_bytes 8 z)"
  using le_bytes_of_le_bytes [of "rev (le_bytes 2 x)", where 'a = 16]
    le_bytes_of_le_bytes [of "rev (le_bytes 4 y)", where 'a = 32]
    le_bytes_of_le_bytes [of "rev (le_bytes 8 z)", where 'a = 64]
  by (simp_all add: builtin_bswap16_def builtin_bswap32_def builtin_bswap64_def)

section \<open>The swap functions of the kernel header\<close>

text \<open>What \<^verbatim>\<open>linux/swab.h\<close> documents: a byteswapped value.\<close>

locale swab_header =
  fixes S :: swab_ops
  assumes swab16_bytes: "le_bytes 2 (constant_swab16 S x) = rev (le_bytes 2 x)"
    and swab32_bytes: "le_bytes 4 (constant_swab32 S y) = rev (le_bytes 4 y)"
    and swab64_bytes: "le_bytes 8 (constant_swab64 S z) = rev (le_bytes 8 z)"
begin

lemma swab_eq_builtin:
  "constant_swab16 S x = builtin_bswap16 x"
  "constant_swab32 S y = builtin_bswap32 y"
  "constant_swab64 S z = builtin_bswap64 z"
  by (rule le_bytes_inj [of 2] le_bytes_inj [of 4] le_bytes_inj [of 8];
      simp add: swab16_bytes swab32_bytes swab64_bytes builtin_bswap_bytes)+

end

text \<open>Two reversals give back the word.\<close>

lemma bswap_involution [simp]:
  "builtin_bswap16 (builtin_bswap16 x) = x"
  "builtin_bswap32 (builtin_bswap32 y) = y"
  "builtin_bswap64 (builtin_bswap64 z) = z"
  by (rule le_bytes_inj [of 2] le_bytes_inj [of 4] le_bytes_inj [of 8];
      simp add: builtin_bswap_bytes)+

text \<open>Functions that meet the documented behaviour, written with shifts and masks.\<close>

definition shift_swabs :: swab_ops where
  "shift_swabs =
     \<lparr>constant_swab16 = \<lambda>x. push_bit 8 (x AND 0x00FF) OR drop_bit 8 (x AND 0xFF00),
      constant_swab32 = \<lambda>x. push_bit 24 (x AND 0x000000FF) OR push_bit 8 (x AND 0x0000FF00)
         OR drop_bit 8 (x AND 0x00FF0000) OR drop_bit 24 (x AND 0xFF000000),
      constant_swab64 = \<lambda>x. push_bit 56 (x AND 0x00000000000000FF)
         OR push_bit 40 (x AND 0x000000000000FF00) OR push_bit 24 (x AND 0x0000000000FF0000)
         OR push_bit 8 (x AND 0x00000000FF000000) OR drop_bit 8 (x AND 0x000000FF00000000)
         OR drop_bit 24 (x AND 0x0000FF0000000000) OR drop_bit 40 (x AND 0x00FF000000000000)
         OR drop_bit 56 (x AND 0xFF00000000000000)\<rparr>"

text \<open>Bits of a mask of eight ones that starts at bit \<open>m\<close>.\<close>

lemma bit_byte_mask: "bit (push_bit m (mask 8) :: 'a :: len word) k \<longleftrightarrow> k < LENGTH('a) \<and> m \<le> k \<and> k < m + 8"
  by (auto simp: bit_simps)

lemma byte_masks:
  "(0xFF :: 'a :: len word) = push_bit 0 (mask 8)"
  "(0xFF00 :: 'a :: len word) = push_bit 8 (mask 8)"
  "(0xFF0000 :: 'a :: len word) = push_bit 16 (mask 8)"
  "(0xFF000000 :: 'a :: len word) = push_bit 24 (mask 8)"
  "(0xFF00000000 :: 'a :: len word) = push_bit 32 (mask 8)"
  "(0xFF0000000000 :: 'a :: len word) = push_bit 40 (mask 8)"
  "(0xFF000000000000 :: 'a :: len word) = push_bit 48 (mask 8)"
  "(0xFF00000000000000 :: 'a :: len word) = push_bit 56 (mask 8)"
  by (simp_all add: mask_eq_exp_minus_1 push_bit_eq_mult)

lemma shift_swab16: "le_bytes 2 (constant_swab16 shift_swabs x) = rev (le_bytes 2 x)"
  by (auto simp: shift_swabs_def le_bytes_def upt_conv_Cons byte_masks bit_simps intro!: bit_word_eqI)

lemma shift_swab32: "le_bytes 4 (constant_swab32 shift_swabs x) = rev (le_bytes 4 x)"
  by (auto simp: shift_swabs_def le_bytes_def upt_conv_Cons byte_masks bit_simps intro!: bit_word_eqI)

lemma shift_swab64: "le_bytes 8 (constant_swab64 shift_swabs x) = rev (le_bytes 8 x)"
  by (auto simp: shift_swabs_def le_bytes_def upt_conv_Cons byte_masks bit_simps intro!: bit_word_eqI)

interpretation shift: swab_header shift_swabs
  by unfold_locales (rule shift_swab16 shift_swab32 shift_swab64)+

section \<open>Properties\<close>

context swab_header
begin

lemma network_bytes:
  "mem_bytes order 2 (bpf_htons S order c x) = rev (le_bytes 2 x)"
  "mem_bytes order 4 (bpf_htonl S order c y) = rev (le_bytes 4 y)"
  "mem_bytes order 8 (bpf_cpu_to_be64 S order c z) = rev (le_bytes 8 z)"
  by (simp_all add: macro_defs mem_bytes_def swab_eq_builtin builtin_bswap_bytes split: byte_order.split)

lemma there_and_back:
  "bpf_ntohs S order d (bpf_htons S order c x) = x"
  "bpf_ntohl S order d (bpf_htonl S order c y) = y"
  "bpf_be64_to_cpu S order d (bpf_cpu_to_be64 S order c z) = z"
  by (simp_all add: macro_defs swab_eq_builtin split: byte_order.split)

end

text \<open>
  C33: On a target of either byte order, for constants and for other operands, storing the result of
  \<^verbatim>\<open>bpf_htons\<close>, \<^verbatim>\<open>bpf_htonl\<close> or \<^verbatim>\<open>bpf_cpu_to_be64\<close> puts the bytes of the value in network order
  (the highest first), and the macro of the other direction, whichever variant it selects, gives
  back the value. The functions of \<^verbatim>\<open>linux/swab.h\<close> are assumed to reverse the bytes.
\<close>

theorem byte_order_macros:
  assumes "\<And>x. le_bytes 2 (constant_swab16 S x) = rev (le_bytes 2 x)"
    and "\<And>y. le_bytes 4 (constant_swab32 S y) = rev (le_bytes 4 y)"
    and "\<And>z. le_bytes 8 (constant_swab64 S z) = rev (le_bytes 8 z)"
  shows "mem_bytes order 2 (bpf_htons S order c x) = rev (le_bytes 2 x)
    \<and> mem_bytes order 4 (bpf_htonl S order c y) = rev (le_bytes 4 y)
    \<and> mem_bytes order 8 (bpf_cpu_to_be64 S order c z) = rev (le_bytes 8 z)
    \<and> bpf_ntohs S order d (bpf_htons S order c x) = x
    \<and> bpf_ntohl S order d (bpf_htonl S order c y) = y
    \<and> bpf_be64_to_cpu S order d (bpf_cpu_to_be64 S order c z) = z"
proof -
  have "swab_header S" using assms by (rule swab_header.intro)
  then show ?thesis by (simp add: swab_header.network_bytes swab_header.there_and_back)
qed

theorem byte_order_macros_witness:
  "mem_bytes Little 2 (bpf_htons shift_swabs Little True 0x0800) = [0x08, 0x00]
   \<and> bpf_ntohl shift_swabs Big False (bpf_htonl shift_swabs Big True 0x7F000001) = 0x7F000001"
proof -
  have "rev (le_bytes 2 (0x0800 :: 16 word)) = [0x08, 0x00]" by code_simp
  then show ?thesis
    using byte_order_macros [OF shift_swab16 shift_swab32 shift_swab64, where order = Little and c = True and x = "0x0800"]
      byte_order_macros [OF shift_swab16 shift_swab32 shift_swab64, where order = Big and c = True and y = "0x7F000001" and d = False]
    by simp
qed

text \<open>
  \<^verbatim>\<open>bpf_htons\<close> on a little-endian target, as arithmetic on natural numbers.
\<close>

lemma bpf_htons_nat:
  assumes "swab_header S"
  shows "unat (bpf_htons S Little c (word_of_nat x)) = x mod 256 * 256 + x div 256 mod 256"
proof -
  have "push_bit 8 (take_bit 8 x) + take_bit 8 (drop_bit 8 x)
      = push_bit 8 (take_bit 8 x) OR take_bit 8 (drop_bit 8 x)"
    by (rule disjunctive_add_eq_or, rule bit_eqI) (auto simp: bit_simps)
  also have "\<dots> = unat (builtin_bswap16 (word_of_nat x))"
    by (rule bit_eqI) (auto simp: builtin_bswap16_def le_bytes_def upt_conv_Cons bit_simps)
  finally have "unat (builtin_bswap16 (word_of_nat x)) = x mod 256 * 256 + x div 256 mod 256"
    by (simp add: push_bit_eq_mult take_bit_eq_mod drop_bit_eq_div)
  then show ?thesis by (simp add: macro_defs swab_header.swab_eq_builtin [OF assms])
qed

end
