(* ===== verification/Bpf_Xdp.thy ===== *)
theory Bpf_Xdp
  imports C_Prelude Bpf_Endian "HOL-Library.Sublist"
begin

unbundle bit_operations_syntax

text \<open>
  The XDP program \<^verbatim>\<open>src/bpf/xdp_prog.c\<close>, which drops ICMP packets and counts them per pair of addresses,
  and its loader \<^verbatim>\<open>src/bpf/prog_loader.c\<close>, which attaches it and prints the counters.

  The kernel's hash map is not part of the repository: its operations are the record \<open>bpf_map\<close>, an
  argument of the definitions, and \<open>bpf_hash\<close> states what the helper documentation in
  \<^verbatim>\<open>src/bpf/include/bpf_helper_defs.h\<close> says of them. \<open>hash_map\<close> is an instance. Likewise the calls
  of the loader into libbpf are the record \<open>loader_env\<close>.
\<close>

section \<open>The filter\<close>

datatype xdp_action = XDP_ABORTED | XDP_DROP | XDP_PASS

record KEY =
  src :: "32 word"
  dst :: "32 word"

record VALUE =
  drop_bytes :: int
  drop_counts :: int

record 'm bpf_map =
  lookup_elem :: "'m \<Rightarrow> KEY \<Rightarrow> VALUE option"
  update_elem :: "'m \<Rightarrow> KEY \<Rightarrow> VALUE \<Rightarrow> 'm"   \<comment> \<open>\<^verbatim>\<open>bpf_map_update_elem(..., BPF_ANY)\<close>\<close>
  poke_elem :: "'m \<Rightarrow> KEY \<Rightarrow> VALUE \<Rightarrow> 'm"     \<comment> \<open>a write through the pointer a lookup returned\<close>

text \<open>The attributes of a map, \<^verbatim>\<open>bpf_helpers.h\<close>, and the map of the filter; flags that are not given are 0.\<close>

datatype bpf_map_type = BPF_MAP_TYPE_HASH

record bpf_map_def =
  map_type :: bpf_map_type
  key_size :: nat
  value_size :: nat
  max_elems :: nat
  map_flags :: nat

definition sizeof_KEY :: nat where "sizeof_KEY = 4 + 4"
definition sizeof_VALUE :: nat where "sizeof_VALUE = 8 + 8"

definition drop_icmp_map :: bpf_map_def where
  "drop_icmp_map = \<lparr>map_type = BPF_MAP_TYPE_HASH, key_size = sizeof_KEY, value_size = sizeof_VALUE,
     max_elems = 256, map_flags = 0\<rparr>"

definition max_entries :: nat where "max_entries = max_elems drop_icmp_map"

lemma max_entries_eq: "max_entries = 256"
  by (simp add: max_entries_def drop_icmp_map_def)

definition ck_long :: "int \<Rightarrow> int cres" where
  "ck_long x = (if - (2 ^ 63) \<le> x \<and> x < 2 ^ 63 then ret x else fault SignedOverflow)"

text \<open>
  \<^verbatim>\<open>bpf_htons\<close> on the little-endian target the program is built for, on the natural numbers that the
  packet's fields are read as; it is the macro of \<open>Bpf_Endian\<close>.
\<close>

definition htons_le :: "nat \<Rightarrow> nat" where
  "htons_le x = x mod 256 * 256 + x div 256 mod 256"

lemma htons_le_macro: "unat (bpf_htons shift_swabs Little c (word_of_nat x)) = htons_le x"
  by (simp add: htons_le_def bpf_htons_nat [OF shift.swab_header_axioms])

definition sizeof_ethhdr :: int where "sizeof_ethhdr = 14"
definition sizeof_iphdr :: int where "sizeof_iphdr = 20"
definition ETH_P_IP :: nat where "ETH_P_IP = 2048"
definition IPPROTO_ICMP :: nat where "IPPROTO_ICMP = 1"

lemmas wire_defs = sizeof_ethhdr_def sizeof_iphdr_def ETH_P_IP_def IPPROTO_ICMP_def

text \<open>
  The packet is the bytes between \<^verbatim>\<open>data\<close> and \<^verbatim>\<open>data_end\<close>. The result is the verdict, the map afterwards and
  the trace output.
\<close>

definition drop_icmp :: "'m bpf_map \<Rightarrow> 'm \<Rightarrow> nat list \<Rightarrow> (xdp_action \<times> 'm \<times> out list) cres" where
  "drop_icmp M mp pkt =
     (let data_end = int (length pkt) in
      if sizeof_ethhdr > data_end then ret (XDP_ABORTED, mp, [])
      else bnd (rd_bytes pkt 12 2) (\<lambda>h_proto.
        if le_nat h_proto = htons_le ETH_P_IP
        then let iph = sizeof_ethhdr in
          if iph + sizeof_iphdr > data_end then ret (XDP_ABORTED, mp, [])
          else bnd (rd_bytes pkt (iph + 9) 1) (\<lambda>protocol.
            if le_nat protocol = IPPROTO_ICMP
            then bnd (rd_bytes pkt (iph + 12) 4) (\<lambda>saddr.
                 bnd (rd_bytes pkt (iph + 16) 4) (\<lambda>daddr.
                 let key = \<lparr>src = word_of_nat (le_nat saddr), dst = word_of_nat (le_nat daddr)\<rparr>;
                     os = [OStr ''Drop ICMP packet sent from '',
                           OInt (uint (src key AND 0xFF)), OStr ''.'',
                           OInt (uint (drop_bit 8 (src key) AND 0xFF)), OStr ''.'',
                           OInt (uint (drop_bit 16 (src key) AND 0xFF)), newline,
                           OStr ''.'', OInt (uint (drop_bit 24 (src key) AND 0xFF)), newline];
                     bytes = data_end in
                 case lookup_elem M mp key of
                   None \<Rightarrow> ret (XDP_DROP, update_elem M mp key \<lparr>drop_bytes = bytes, drop_counts = 1\<rparr>, os)
                 | Some value \<Rightarrow>
                     bnd (ck_long (drop_bytes value + bytes)) (\<lambda>b.
                     bnd (ck_long (drop_counts value + 1)) (\<lambda>c.
                       ret (XDP_DROP, poke_elem M mp key \<lparr>drop_bytes = b, drop_counts = c\<rparr>,
                            os @ [OStr ''Drop #'', OInt c, OStr '' ICMP packet, total drop '', OInt b,
                                  OStr '' bytes'', newline])))))
            else ret (XDP_PASS, mp, []))
        else ret (XDP_PASS, mp, [])))"

text \<open>Packets one after the other.\<close>

fun run_packets :: "'m bpf_map \<Rightarrow> 'm \<Rightarrow> nat list list \<Rightarrow> 'm cres" where
  "run_packets M mp [] = ret mp"
| "run_packets M mp (p # ps) = bnd (drop_icmp M mp p) (\<lambda>(_, mp, _). run_packets M mp ps)"

section \<open>The loader\<close>

text \<open>
  \<open>None\<close> in \<open>prog_load\<close> is a failed \<^verbatim>\<open>bpf_prog_load_xattr\<close>, otherwise the file descriptor. The return values
  of the calls are the ones of one run.
\<close>

record loader_env =
  prog_pinned :: bool              \<comment> \<open>\<^verbatim>\<open>access(prog_path, F_OK) == 0\<close>\<close>
  map_pinned :: bool
  obj_get_prog :: int
  obj_get_map :: int
  prog_load :: "int option"
  pin_prog_fails :: bool
  find_map_fd :: int
  pin_map_fails :: bool
  wlan0_index :: int
  attach_fails :: bool

text \<open>\<^verbatim>\<open>obj\<close> is set by \<^verbatim>\<open>bpf_prog_load_xattr\<close> only; \<open>False\<close> in the third component: not initialised.\<close>

definition load_prog :: "loader_env \<Rightarrow> out list \<times> int option \<times> bool" where
  "load_prog env =
     (if prog_pinned env
      then ([OStr ''Reuse XDP program fd: '', OInt (obj_get_prog env), newline], Some (obj_get_prog env), False)
      else case prog_load env of
        None \<Rightarrow> ([OStr ''Failed to load BPF program'', newline], None, False)
      | Some fd \<Rightarrow>
          if fd = 0 then ([OStr ''There is no BPF program fd exists'', newline], None, True)
          else ([OStr ''Loading XDP program (fd: '', OInt fd, OStr '') into kernel done.'', newline] @
                (if pin_prog_fails env then [OStr ''Program already exists'', newline] else []) @
                [OStr ''Pin XDP program to '', OStr [CHR 0x27], OStr ''/sys/fs/bpf/prog_drop_icmp'', OStr [CHR 0x27], OStr '' done'', newline],
                Some fd, True))"

definition load_map :: "loader_env \<Rightarrow> bool \<Rightarrow> (out list \<times> int option) cres" where
  "load_map env obj_ready =
     (if map_pinned env
      then ret ([OStr ''Reuse map fd: '', OInt (obj_get_map env), newline], Some (obj_get_map env))
      else if \<not> obj_ready then fault Uninit
      else if find_map_fd env = 0 then ret ([OStr ''There is no BPF map fd exists'', newline], None)
      else ret ([OStr ''Get map fd : '', OInt (find_map_fd env), newline] @
                (if pin_map_fails env then [OStr ''Map already exists'', newline] else []) @
                [OStr ''Pin map to '', OStr [CHR 0x27], OStr ''/sys/fs/bpf/map_drop_icmp'', OStr [CHR 0x27], OStr '' done'', newline],
                Some (find_map_fd env)))"

text \<open>Everything before the polling loop; \<open>None\<close> as result: exit status -1, otherwise the descriptor of the map.\<close>

definition loader_setup :: "loader_env \<Rightarrow> (out list \<times> int option) cres" where
  "loader_setup env =
     (let (os1, prog_fd, obj_ready) = load_prog env in
      if prog_fd = None then ret (os1, None)
      else bnd (load_map env obj_ready) (\<lambda>(os2, map_fd).
        if map_fd = None then ret (os1 @ os2, None)
        else if wlan0_index env = 0
        then ret (os1 @ os2 @ [OStr ''Failed to get interface index'', newline], None)
        else if attach_fails env
        then ret (os1 @ os2 @ [OStr ''Failed to attach BPF program'', newline], None)
        else ret (os1 @ os2 @ [OStr ''Attach XDP program done'', newline], map_fd)))"

text \<open>The dotted text of an address in network byte order.\<close>

definition dotted :: "32 word \<Rightarrow> out list" where
  "dotted w = [OInt (uint (w AND 0xFF)), OStr ''.'', OInt (uint (drop_bit 8 w AND 0xFF)), OStr ''.'',
               OInt (uint (drop_bit 16 w AND 0xFF)), OStr ''.'', OInt (uint (drop_bit 24 w AND 0xFF))]"

text \<open>
  One round of the polling loop. \<open>next_key\<close> is \<^verbatim>\<open>bpf_map_get_next_key\<close>, \<open>None\<close> when there is no further key.
  A lookup that finds nothing leaves \<^verbatim>\<open>value\<close> as it is, which is indeterminate in the first round.
\<close>

partial_function (option) dump_loop ::
    "(KEY \<Rightarrow> KEY option) \<Rightarrow> (KEY \<Rightarrow> VALUE option) \<Rightarrow> KEY \<Rightarrow> VALUE option \<Rightarrow> out list \<Rightarrow> out list cres" where
  "dump_loop next_key look current_key value os =
     (case next_key current_key of
        None \<Rightarrow> ret os
      | Some k \<Rightarrow>
          let value = (case look k of Some v \<Rightarrow> Some v | None \<Rightarrow> value) in
          bnd (need Uninit value) (\<lambda>v.
            dump_loop next_key look k value
              (os @ [OStr ''src=''] @ dotted (src k) @ [OStr '', dst=''] @ dotted (dst k) @
               [OStr '', already dropped '', OInt (drop_counts v), OStr '' packets ('', OInt (drop_bytes v),
                OStr '' bytes)'', newline])))"

definition dump_round :: "(KEY \<Rightarrow> KEY option) \<Rightarrow> (KEY \<Rightarrow> VALUE option) \<Rightarrow> out list cres" where
  "dump_round next_key look =
     dump_loop next_key look \<lparr>src = 0, dst = 0\<rparr> None [OStr ''Start searching...'', newline]"

text \<open>
  The programs attached to interfaces, by interface index. The handler of \<^verbatim>\<open>SIGINT\<close> and \<^verbatim>\<open>SIGTERM\<close> detaches
  whatever is attached to \<^verbatim>\<open>ifindex\<close>, a global variable that is 0 until \<^verbatim>\<open>main\<close> has looked the interface up,
  and ends the process with status 0.
\<close>

type_synonym xdp_links = "int \<Rightarrow> int option"

definition int_exit :: "int \<Rightarrow> xdp_links \<Rightarrow> xdp_links \<times> out list \<times> int" where
  "int_exit ifindex links = (links(ifindex := None), [OStr ''stopping'', newline], 0)"

fun dump_rounds :: "((KEY \<Rightarrow> KEY option) \<times> (KEY \<Rightarrow> VALUE option)) list \<Rightarrow> out list cres" where
  "dump_rounds [] = ret []"
| "dump_rounds ((nk, look) # rs) = bnd (dump_round nk look) (\<lambda>o1. bnd (dump_rounds rs) (\<lambda>os. ret (o1 @ os)))"

text \<open>A run of the loader that is ended by a signal after the polling rounds \<open>rounds\<close>.\<close>

definition loader_main ::
    "loader_env \<Rightarrow> ((KEY \<Rightarrow> KEY option) \<times> (KEY \<Rightarrow> VALUE option)) list \<Rightarrow> xdp_links \<Rightarrow> (xdp_links \<times> out list \<times> int) cres" where
  "loader_main env rounds links =
     bnd (loader_setup env) (\<lambda>(o1, map_fd).
       if map_fd = None then ret (links, o1, - 1)
       else
         let links = links(wlan0_index env := fst (snd (load_prog env))) in
         bnd (dump_rounds rounds) (\<lambda>o2.
           let (links, o3, status) = int_exit (wlan0_index env) links in ret (links, o1 @ o2 @ o3, status)))"

section \<open>Classification\<close>

text \<open>The packets the filter is meant to drop, and the key and size it accounts them under.\<close>

definition is_icmp :: "nat list \<Rightarrow> bool" where
  "is_icmp pkt \<longleftrightarrow> 34 \<le> length pkt \<and> pkt ! 12 = 8 \<and> pkt ! 13 = 0 \<and> pkt ! 23 = 1"

definition key_of :: "nat list \<Rightarrow> KEY" where
  "key_of pkt = \<lparr>src = word_of_nat (le_nat (take 4 (drop 26 pkt))), dst = word_of_nat (le_nat (take 4 (drop 30 pkt)))\<rparr>"

definition bytes_ok :: "nat list \<Rightarrow> bool" where
  "bytes_ok pkt \<longleftrightarrow> (\<forall>b \<in> set pkt. b < 256)"

definition verdict :: "nat list \<Rightarrow> xdp_action" where
  "verdict pkt =
     (if length pkt < 14 then XDP_ABORTED
      else if \<not> (pkt ! 12 = 8 \<and> pkt ! 13 = 0) then XDP_PASS
      else if length pkt < 34 then XDP_ABORTED
      else if pkt ! 23 = 1 then XDP_DROP else XDP_PASS)"

lemma take_two: "k + 1 < length xs \<Longrightarrow> take 2 (drop k xs) = [xs ! k, xs ! Suc k]"
  by (simp add: numeral_2_eq_2 take_Suc_conv_app_nth Cons_nth_drop_Suc [symmetric] nth_append)

lemma take_one: "k < length xs \<Longrightarrow> take 1 (drop k xs) = [xs ! k]"
  by (simp add: take_Suc_conv_app_nth)

lemma eth_proto: "bytes_ok pkt \<Longrightarrow> 14 \<le> length pkt \<Longrightarrow>
    le_nat (take 2 (drop 12 pkt)) = htons_le ETH_P_IP \<longleftrightarrow> pkt ! 12 = 8 \<and> pkt ! 13 = 0"
proof -
  assume ok: "bytes_ok pkt" and len: "14 \<le> length pkt"
  then have "pkt ! 12 < 256" "pkt ! 13 < 256" by (simp_all add: bytes_ok_def)
  moreover have "take 2 (drop 12 pkt) = [pkt ! 12, pkt ! 13]" using len take_two [of 12 pkt] by simp
  moreover have "x + 256 * y = 8 \<longleftrightarrow> x = 8 \<and> y = 0" if "x < 256" for x y :: nat
    using that by (cases y) auto
  ultimately show ?thesis by (simp add: htons_le_def ETH_P_IP_def)
qed

text \<open>One packet: the verdict depends on the packet only, and only dropped packets touch the map.\<close>

lemma drop_icmp_other:
  assumes "bytes_ok pkt" and "\<not> is_icmp pkt"
  shows "drop_icmp M mp pkt = ret (verdict pkt, mp, [])"
proof (cases "14 \<le> length pkt")
  case False
  then show ?thesis by (simp add: drop_icmp_def verdict_def wire_defs)
next
  case True
  have proto: "rd_bytes pkt 12 2 = ret (take 2 (drop 12 pkt))" using True by (simp add: rd_bytes_ret)
  show ?thesis
  proof (cases "34 \<le> length pkt")
    case False
    then show ?thesis using True proto eth_proto [OF assms(1) True]
      by (auto simp: drop_icmp_def verdict_def wire_defs)
  next
    case long: True
    have "rd_bytes pkt 23 1 = ret [pkt ! 23]" using long take_one [of 23 pkt] by (simp add: rd_bytes_ret)
    with True long proto eth_proto [OF assms(1) True] assms(2) show ?thesis
      by (auto simp: drop_icmp_def verdict_def wire_defs is_icmp_def)
  qed
qed

definition counted :: "VALUE option \<Rightarrow> int \<Rightarrow> VALUE" where
  "counted old n = (case old of None \<Rightarrow> \<lparr>drop_bytes = n, drop_counts = 1\<rparr>
     | Some v \<Rightarrow> \<lparr>drop_bytes = drop_bytes v + n, drop_counts = drop_counts v + 1\<rparr>)"

definition fits :: "VALUE \<Rightarrow> bool" where
  "fits v \<longleftrightarrow> \<bar>drop_bytes v\<bar> < 2 ^ 63 \<and> \<bar>drop_counts v\<bar> < 2 ^ 63"

lemma drop_icmp_icmp:
  assumes "bytes_ok pkt" and "is_icmp pkt" and "fits (counted (lookup_elem M mp (key_of pkt)) (int (length pkt)))"
  shows "\<exists>os. drop_icmp M mp pkt = ret (XDP_DROP,
    (case lookup_elem M mp (key_of pkt) of None \<Rightarrow> update_elem M mp | Some _ \<Rightarrow> poke_elem M mp)
      (key_of pkt) (counted (lookup_elem M mp (key_of pkt)) (int (length pkt))), os)"
proof -
  have len: "34 \<le> length pkt" and b: "pkt ! 12 = 8" "pkt ! 13 = 0" "pkt ! 23 = 1"
    using assms(2) by (auto simp: is_icmp_def)
  have proto: "rd_bytes pkt 12 2 = ret (take 2 (drop 12 pkt))"
    and p: "rd_bytes pkt 23 1 = ret [pkt ! 23]"
    and s: "rd_bytes pkt 26 4 = ret (take 4 (drop 26 pkt))"
    and d: "rd_bytes pkt 30 4 = ret (take 4 (drop 30 pkt))"
    using len take_one [of 23 pkt] by (simp_all add: rd_bytes_ret)
  have e: "le_nat (take 2 (drop 12 pkt)) = htons_le ETH_P_IP"
    using eth_proto [OF assms(1)] len b by simp
  show ?thesis
  proof (cases "lookup_elem M mp (key_of pkt)")
    case None
    then show ?thesis using len proto p s d e b
      by (simp add: drop_icmp_def Let_def wire_defs key_of_def counted_def)
  next
    case (Some v)
    with assms(3) have "ck_long (drop_bytes v + int (length pkt)) = ret (drop_bytes v + int (length pkt))"
      "ck_long (drop_counts v + 1) = ret (drop_counts v + 1)"
      by (auto simp: fits_def counted_def ck_long_def)
    with Some show ?thesis using len proto p s d e b
      by (simp add: drop_icmp_def Let_def wire_defs key_of_def counted_def)
  qed
qed

section \<open>Accounting\<close>

text \<open>The totals the counters should hold after the packets \<open>ps\<close>.\<close>

definition hits :: "KEY \<Rightarrow> nat list list \<Rightarrow> nat list list" where
  "hits k ps = filter (\<lambda>p. is_icmp p \<and> key_of p = k) ps"

definition totals :: "nat list list \<Rightarrow> KEY \<Rightarrow> VALUE option" where
  "totals ps k = (if hits k ps = [] then None
     else Some \<lparr>drop_bytes = sum_list (map (\<lambda>p. int (length p)) (hits k ps)), drop_counts = int (length (hits k ps))\<rparr>)"

definition keys_of :: "nat list list \<Rightarrow> KEY set" where
  "keys_of ps = key_of ` {p \<in> set ps. is_icmp p}"

lemma dom_totals: "dom (totals ps) = keys_of ps"
  by (auto simp: totals_def hits_def keys_of_def filter_empty_conv split: if_splits)

lemma totals_snoc:
  "totals (ps @ [p]) = (if is_icmp p then (totals ps)(key_of p \<mapsto> counted (totals ps (key_of p)) (int (length p)))
     else totals ps)"
  by (rule ext) (auto simp: totals_def hits_def counted_def)

lemma run_packets_append:
  "run_packets M mp (ps @ qs) = bnd (run_packets M mp ps) (\<lambda>mp. run_packets M mp qs)"
  by (induction ps arbitrary: mp) (auto simp: bnd_assoc intro!: bnd_cong)

definition small :: "nat list list \<Rightarrow> bool" where
  "small ps \<longleftrightarrow> int (length ps) + sum_list (map (\<lambda>p. int (length p)) ps) < 2 ^ 63"

lemma small_snoc: "small (ps @ [p]) \<Longrightarrow> small ps"
  by (auto simp: small_def)

lemma keys_of_prefix: "card (keys_of (ps @ qs)) \<le> n \<Longrightarrow> card (keys_of ps) \<le> n"
  by (rule order_trans [OF card_mono]) (auto simp: keys_of_def)

lemma small_prefix: "small (ps @ qs) \<Longrightarrow> small ps"
  by (induction qs rule: rev_induct) (auto simp flip: append_assoc dest: small_snoc)

lemma hits_bounds:
  "int (length (hits k ps)) \<le> int (length ps)"
  "sum_list (map (\<lambda>p. int (length p)) (hits k ps)) \<le> sum_list (map (\<lambda>p. int (length p)) ps)"
  "0 \<le> sum_list (map (\<lambda>p. int (length p)) ps)"
proof -
  show "int (length (hits k ps)) \<le> int (length ps)" by (simp add: hits_def)
  show "sum_list (map (\<lambda>p. int (length p)) (hits k ps)) \<le> sum_list (map (\<lambda>p. int (length p)) ps)"
    by (induction ps) (auto simp: hits_def)
  show "0 \<le> sum_list (map (\<lambda>p. int (length p)) ps)" by (induction ps) auto
qed

lemma small_fits: "small ps \<Longrightarrow> totals ps k = Some v \<Longrightarrow> fits v"
  using hits_bounds(1) [of k ps] hits_bounds(2) [of k ps] hits_bounds(3) [of "hits k ps"]
    hits_bounds(3) [of ps]
  by (auto simp: totals_def fits_def small_def split: if_splits)

text \<open>
  What the map helpers promise: the map has room for a bounded number of elements; a write to an
  element that exists replaces it; an update creates or replaces an element unless the map is
  full; a full map stays as it is when a new key comes.
\<close>

locale bpf_hash =
  fixes M :: "'m bpf_map"
  assumes bounded: "finite (dom (lookup_elem M mp))" "card (dom (lookup_elem M mp)) \<le> max_entries"
    and poke_law: "lookup_elem M mp k \<noteq> None \<Longrightarrow> lookup_elem M (poke_elem M mp k v) = (lookup_elem M mp)(k \<mapsto> v)"
    and update_law: "k \<in> dom (lookup_elem M mp) \<or> card (dom (lookup_elem M mp)) < max_entries \<Longrightarrow>
      lookup_elem M (update_elem M mp k v) = (lookup_elem M mp)(k \<mapsto> v)"
    and full_law: "k \<notin> dom (lookup_elem M mp) \<Longrightarrow> card (dom (lookup_elem M mp)) = max_entries \<Longrightarrow>
      lookup_elem M (update_elem M mp k v) = lookup_elem M mp"
begin

lemma account_step:
  assumes mp: "lookup_elem M mp = totals ps" and ok: "bytes_ok p"
    and room: "card (keys_of (ps @ [p])) \<le> max_entries" and small: "small (ps @ [p])"
  shows "\<exists>mp' os. drop_icmp M mp p = ret (verdict p, mp', os) \<and> lookup_elem M mp' = totals (ps @ [p])"
proof (cases "is_icmp p")
  case False
  then show ?thesis using mp drop_icmp_other [OF ok False, of M mp] by (simp add: totals_snoc)
next
  case True
  let ?k = "key_of p" and ?v = "counted (totals ps (key_of p)) (int (length p))"
  have fin: "finite (keys_of (ps @ [p]))" by (simp add: keys_of_def)
  have sub: "keys_of ps \<subseteq> keys_of (ps @ [p])" by (auto simp: keys_of_def)
  have "totals (ps @ [p]) ?k = Some ?v" using True by (simp add: totals_snoc)
  then have "fits ?v" using small_fits [OF small] by blast
  then obtain os where run: "drop_icmp M mp p = ret (XDP_DROP,
      (case totals ps ?k of None \<Rightarrow> update_elem M mp | Some _ \<Rightarrow> poke_elem M mp) ?k ?v, os)"
    using drop_icmp_icmp [OF ok True, of M mp] mp by auto
  have "lookup_elem M ((case totals ps ?k of None \<Rightarrow> update_elem M mp | Some _ \<Rightarrow> poke_elem M mp) ?k ?v)
      = (totals ps)(?k \<mapsto> ?v)"
  proof (cases "totals ps ?k")
    case (Some v)
    then show ?thesis using mp by (simp add: poke_law)
  next
    case None
    then have "?k \<notin> keys_of ps" by (simp add: dom_totals [symmetric] domIff)
    moreover have "?k \<in> keys_of (ps @ [p])" using True by (simp add: keys_of_def)
    ultimately have "card (keys_of ps) < card (keys_of (ps @ [p]))"
      using sub fin by (intro psubset_card_mono) auto
    then have "card (dom (lookup_elem M mp)) < max_entries"
      using room mp by (simp add: dom_totals)
    then show ?thesis using None mp by (simp add: update_law)
  qed
  moreover have "verdict p = XDP_DROP" using True by (simp add: verdict_def is_icmp_def)
  ultimately show ?thesis using True run by (auto simp: totals_snoc simp del: fun_upd_apply)
qed

lemma accounting:
  assumes empty: "lookup_elem M mp = Map.empty"
  shows "\<forall>p \<in> set ps. bytes_ok p \<Longrightarrow> card (keys_of ps) \<le> max_entries \<Longrightarrow> small ps \<Longrightarrow>
    \<exists>mp'. run_packets M mp ps = ret mp' \<and> lookup_elem M mp' = totals ps"
proof (induction ps rule: rev_induct)
  case Nil
  then show ?case using empty by (auto simp: totals_def hits_def)
next
  case (snoc p ps)
  then obtain mp1 where mp1: "run_packets M mp ps = ret mp1" "lookup_elem M mp1 = totals ps"
    using keys_of_prefix [of ps "[p]"] small_snoc by auto
  then show ?case
    using account_step [OF mp1(2), of p] snoc.prems by (auto simp: run_packets_append)
qed

end

section \<open>An instance of the map, and the dump\<close>

definition hash_norm :: "(KEY \<rightharpoonup> VALUE) \<Rightarrow> KEY \<rightharpoonup> VALUE" where
  "hash_norm m = (if finite (dom m) \<and> card (dom m) \<le> max_entries then m else Map.empty)"

definition hash_map :: "(KEY \<rightharpoonup> VALUE) bpf_map" where
  "hash_map = \<lparr>lookup_elem = hash_norm,
     update_elem = (\<lambda>m k v. if k \<in> dom (hash_norm m) \<or> card (dom (hash_norm m)) < max_entries
       then (hash_norm m)(k \<mapsto> v) else hash_norm m),
     poke_elem = (\<lambda>m k v. (hash_norm m)(k \<mapsto> v))\<rparr>"

lemma hash_norm_idem: "finite (dom m) \<Longrightarrow> card (dom m) \<le> max_entries \<Longrightarrow> hash_norm m = m"
  by (simp add: hash_norm_def)

lemma hash_norm_dom: "finite (dom (hash_norm m))" "card (dom (hash_norm m)) \<le> max_entries"
  by (simp_all add: hash_norm_def)

lemma hash_norm_upd:
  "k \<in> dom (hash_norm m) \<or> card (dom (hash_norm m)) < max_entries \<Longrightarrow>
     hash_norm ((hash_norm m)(k \<mapsto> v)) = (hash_norm m)(k \<mapsto> v)"
  using hash_norm_dom [of m] by (intro hash_norm_idem) (auto simp: card_insert_if)

interpretation hash: bpf_hash hash_map
proof -
  have idem: "hash_norm (hash_norm m) = hash_norm m" for m
    using hash_norm_dom [of m] by (rule hash_norm_idem)
  show "bpf_hash hash_map"
    by unfold_locales
      (use hash_norm_dom hash_norm_upd idem in \<open>auto simp: hash_map_def domIff\<close>)
qed

text \<open>\<open>steps_through nk ks\<close>: from a key that is no element, the iteration runs through \<open>ks\<close>.\<close>

fun steps_through :: "(KEY \<Rightarrow> KEY option) \<Rightarrow> KEY \<Rightarrow> KEY list \<Rightarrow> bool" where
  "steps_through nk k [] = (nk k = None)"
| "steps_through nk k (l # ks) = (nk k = Some l \<and> steps_through nk l ks)"

definition dump_line :: "KEY \<Rightarrow> VALUE \<Rightarrow> out list" where
  "dump_line k v = [OStr ''src=''] @ dotted (src k) @ [OStr '', dst=''] @ dotted (dst k) @
     [OStr '', already dropped '', OInt (drop_counts v), OStr '' packets ('', OInt (drop_bytes v),
      OStr '' bytes)'', newline]"

lemma dump_loop_steps:
  "steps_through nk k ks \<Longrightarrow> set ks \<subseteq> dom look \<Longrightarrow>
     dump_loop nk look k val os = ret (os @ concat (map (\<lambda>k. dump_line k (the (look k))) ks))"
proof (induction ks arbitrary: k val os)
  case Nil
  then show ?case by (subst dump_loop.simps) simp
next
  case (Cons l ks)
  then obtain v where "look l = Some v" by auto
  with Cons show ?case by (subst dump_loop.simps) (simp add: dump_line_def)
qed

lemma uint_of_nat32: "n < 2 ^ 32 \<Longrightarrow> uint (word_of_nat n :: 32 word) = int n"
  by (simp add: unsigned_of_nat take_bit_nat_eq_self)

lemma uint_byte: "k \<le> 24 \<Longrightarrow> uint (drop_bit k (w :: 32 word) AND 0xFF) = uint w div 2 ^ k mod 256"
proof -
  assume k: "k \<le> 24"
  have "(0xFF :: 32 word) = mask 8" by (simp add: mask_eq_exp_minus_1)
  then have "uint (drop_bit k w AND 0xFF) = uint (take_bit 8 (drop_bit k w))" by (simp only: take_bit_eq_mask)
  also have "\<dots> = take_bit 8 (drop_bit k (uint w))"
    by (simp only: unsigned_take_bit_eq unsigned_drop_bit_eq)  (use k in \<open>simp add: take_bit_drop_bit min_def\<close>)
  finally show ?thesis by (simp add: take_bit_eq_mod drop_bit_eq_div)
qed

lemma le_four_bytes:
  fixes b0 :: nat
  assumes "b0 < 256" "b1 < 256" "b2 < 256" "b3 < 256" and n: "n = b0 + 256 * (b1 + 256 * (b2 + 256 * b3))"
  shows "n mod 256 = b0" "n div 256 mod 256 = b1" "n div 65536 mod 256 = b2" "n div 16777216 mod 256 = b3" "n < 2 ^ 32"
proof -
  have dm: "(b + 256 * r) div 256 = r" "(b + 256 * r) mod 256 = b" if "b < 256" for b r :: nat
    using that by auto
  have 1: "n div 256 = b1 + 256 * (b2 + 256 * b3)" "n mod 256 = b0" unfolding n using dm assms(1) by blast+
  have 2: "n div 65536 = b2 + 256 * b3" using 1(1) dm assms(2) div_mult2_eq [of n 256 256] by simp
  have 3: "n div 16777216 = b3" using 2 assms(3) dm div_mult2_eq [of n 65536 256] by simp
  show "n mod 256 = b0" by (rule 1(2))
  show "n div 256 mod 256 = b1" unfolding 1(1) using dm(2) assms(2) by blast
  show "n div 65536 mod 256 = b2" unfolding 2 using dm(2) assms(3) by blast
  show "n div 16777216 mod 256 = b3" using 3 assms(4) by simp
  show "n < 2 ^ 32" using assms by simp
qed

lemma dotted_bytes:
  assumes "b0 < 256" "b1 < 256" "b2 < 256" "b3 < 256"
  shows "dotted (word_of_nat (le_nat [b0, b1, b2, b3])) =
    [OInt (int b0), OStr ''.'', OInt (int b1), OStr ''.'', OInt (int b2), OStr ''.'', OInt (int b3)]"
proof -
  define n where "n = le_nat [b0, b1, b2, b3]"
  have "n = b0 + 256 * (b1 + 256 * (b2 + 256 * b3))" by (simp add: n_def)
  note bytes = le_four_bytes [OF assms this]
  have "uint (drop_bit k (word_of_nat n :: 32 word) AND 0xFF) = int (n div 2 ^ k mod 256)" if "k \<le> 24" for k
    using uint_byte [OF that] uint_of_nat32 [OF bytes(5)] by (simp add: zdiv_int zmod_int)
  from this [of 0] this [of 8] this [of 16] this [of 24] bytes show ?thesis
    unfolding n_def [symmetric] by (simp add: dotted_def)
qed

section \<open>Iterating over the map\<close>

text \<open>
  \<^verbatim>\<open>bpf_map_get_next_key\<close> on a map whose elements come in the order \<open>ks\<close>: the element behind the
  given key, or the first one when the key is no element; \<open>None\<close> when there is none.
\<close>

definition next_in :: "KEY list \<Rightarrow> KEY \<Rightarrow> KEY option" where
  "next_in ks k = (let rest = (if k \<in> set ks then tl (dropWhile (\<lambda>l. l \<noteq> k) ks) else ks) in
     case rest of [] \<Rightarrow> None | l # _ \<Rightarrow> Some l)"

text \<open>The keys an iteration that starts at \<open>k\<close> visits.\<close>

definition visited :: "KEY list \<Rightarrow> KEY \<Rightarrow> KEY list" where
  "visited ks k = (if k \<in> set ks then tl (dropWhile (\<lambda>l. l \<noteq> k) ks) else ks)"

lemma tl_dropWhile: "k \<notin> set us \<Longrightarrow> tl (dropWhile (\<lambda>l. l \<noteq> k) (us @ k # vs)) = vs"
  by (induction us) auto

lemma next_in_split: "distinct (us @ k # vs) \<Longrightarrow> next_in (us @ k # vs) k = (case vs of [] \<Rightarrow> None | l # _ \<Rightarrow> Some l)"
  by (simp add: next_in_def tl_dropWhile)

lemma next_in_steps: "distinct (us @ k # vs) \<Longrightarrow> steps_through (next_in (us @ k # vs)) k vs"
proof (induction vs arbitrary: us k)
  case Nil
  then show ?case using next_in_split [of us k "[]"] by simp
next
  case (Cons l vs)
  then show ?case using Cons.IH [of "us @ [k]" l] next_in_split [of us k "l # vs"] by simp
qed

lemma visited_steps:
  assumes "distinct ks"
  shows "steps_through (next_in ks) k (visited ks k)"
proof (cases "k \<in> set ks")
  case True
  then obtain us vs where ks: "ks = us @ k # vs" "k \<notin> set us" using split_list_first by metis
  then have "visited ks k = vs" by (simp add: visited_def tl_dropWhile)
  then show ?thesis using next_in_steps [of us k vs] assms ks by simp
next
  case False
  show ?thesis
  proof (cases ks)
    case Nil
    then show ?thesis by (simp add: visited_def next_in_def)
  next
    case (Cons l ls)
    then show ?thesis using False next_in_steps [of "[]" l ls] assms by (simp add: visited_def next_in_def)
  qed
qed

lemma set_visited: "set (visited ks k) \<subseteq> set ks"
  using set_dropWhileD [of _ "\<lambda>l. l \<noteq> k" ks]
  by (cases "dropWhile (\<lambda>l. l \<noteq> k) ks") (auto simp: visited_def)

text \<open>What a polling round prints when the packets \<open>ps\<close> have come and the map's keys have the order \<open>ks\<close>.\<close>

definition report :: "nat list list \<Rightarrow> KEY list \<Rightarrow> out list" where
  "report ps ks = [OStr ''Start searching...'', newline] @
     concat (map (\<lambda>k. dump_line k (the (totals ps k))) (visited ks \<lparr>src = 0, dst = 0\<rparr>))"

definition reports :: "nat list list \<Rightarrow> out list \<Rightarrow> bool" where
  "reports ps os \<longleftrightarrow> (\<exists>ks. distinct ks \<and> set ks = keys_of ps \<and> os = report ps ks)"

text \<open>
  The filter and the loader at work on one map: packets and polling rounds in any order. The state
  is the packets that came, the map, and a log of the rounds, each with the packets before it. A
  round is one step: no packet comes while the loader walks through the map.
\<close>

inductive xdp_reach ::
    "'m bpf_map \<Rightarrow> ('m \<Rightarrow> KEY \<Rightarrow> KEY option) \<Rightarrow> nat list list \<Rightarrow> 'm \<Rightarrow> (nat list list \<times> out list) list \<Rightarrow> bool"
  for M next_key where
  start: "lookup_elem M mp = Map.empty \<Longrightarrow> xdp_reach M next_key [] mp []"
| packet: "xdp_reach M next_key ps mp log \<Longrightarrow> drop_icmp M mp p = ret (a, mp', os) \<Longrightarrow>
     xdp_reach M next_key (ps @ [p]) mp' log"
| poll: "xdp_reach M next_key ps mp log \<Longrightarrow> dump_round (next_key mp) (lookup_elem M mp) = ret os \<Longrightarrow>
     xdp_reach M next_key ps mp (log @ [(ps, os)])"

text \<open>A map with the iteration of the loader.\<close>

locale bpf_hash_iter = bpf_hash M for M :: "'m bpf_map" +
  fixes next_key :: "'m \<Rightarrow> KEY \<Rightarrow> KEY option"
  assumes next_key_law: "\<exists>ks. distinct ks \<and> set ks = dom (lookup_elem M mp) \<and> next_key mp = next_in ks"
begin

lemma round_reports:
  assumes "lookup_elem M mp = totals ps"
  shows "\<exists>os. dump_round (next_key mp) (lookup_elem M mp) = ret os \<and> reports ps os"
proof -
  obtain ks where ks: "distinct ks" "set ks = dom (totals ps)" "next_key mp = next_in ks"
    using next_key_law [of mp] assms by auto
  have "set (visited ks \<lparr>src = 0, dst = 0\<rparr>) \<subseteq> dom (totals ps)"
    using set_visited ks(2) by blast
  with visited_steps [OF ks(1)] have
    "dump_loop (next_in ks) (totals ps) \<lparr>src = 0, dst = 0\<rparr> None [OStr ''Start searching...'', newline] =
      ret (report ps ks)" unfolding report_def by (rule dump_loop_steps)
  with ks show ?thesis unfolding dump_round_def reports_def assms dom_totals by auto
qed

lemma reachable:
  assumes "xdp_reach M next_key ps mp log"
  shows "\<forall>p \<in> set ps. bytes_ok p \<Longrightarrow> card (keys_of ps) \<le> max_entries \<Longrightarrow> small ps \<Longrightarrow>
    lookup_elem M mp = totals ps \<and> (\<forall>(qs, os) \<in> set log. prefix qs ps \<and> reports qs os)"
  using assms
proof (induction rule: xdp_reach.induct)
  case (start mp)
  then show ?case by (auto simp: totals_def hits_def)
next
  case (packet ps mp log p a mp' os)
  have IH: "lookup_elem M mp = totals ps" "\<forall>(qs, os) \<in> set log. prefix qs ps \<and> reports qs os"
    using packet.IH packet.prems keys_of_prefix small_prefix by auto
  then show ?case using account_step [OF IH(1), of p] packet by fastforce
next
  case (poll ps mp log os)
  then show ?case using round_reports by fastforce
qed

end

text \<open>The instance iterates in ascending order of the addresses.\<close>

definition key_num :: "KEY \<Rightarrow> int" where
  "key_num k = uint (src k) * 2 ^ 32 + uint (dst k)"

definition num_key :: "int \<Rightarrow> KEY" where
  "num_key n = \<lparr>src = word_of_int (n div 2 ^ 32), dst = word_of_int n\<rparr>"

definition hash_order :: "(KEY \<rightharpoonup> VALUE) \<Rightarrow> KEY list" where
  "hash_order m = map num_key (sorted_list_of_set (key_num ` dom (hash_norm m)))"

lemma num_key_num [simp]: "num_key (key_num k) = k"
proof -
  have d: "0 \<le> uint (dst k)" "uint (dst k) < 2 ^ 32" using unsigned_less [of "dst k"] by simp_all
  have "(uint (src k) * 2 ^ 32 + uint (dst k)) div 2 ^ 32 = uint (src k)" using d by simp
  moreover have z: "(4294967296 :: 32 word) = 0" by (rule word_uint_eqI) simp
  have "src k * 4294967296 = 0" by (simp only: z mult_zero_right)
  then have "word_of_int (uint (src k) * 2 ^ 32 + uint (dst k)) = dst k" by simp
  ultimately show ?thesis by (simp add: num_key_def key_num_def)
qed

lemma hash_order: "distinct (hash_order m)" "set (hash_order m) = dom (hash_norm m)"
proof -
  have "inj_on num_key (key_num ` A)" for A by (auto simp: inj_on_def)
  then show "distinct (hash_order m)" using hash_norm_dom [of m] by (simp add: hash_order_def distinct_map)
  show "set (hash_order m) = dom (hash_norm m)"
    using hash_norm_dom [of m] by (simp add: hash_order_def image_image)
qed

interpretation hash: bpf_hash_iter hash_map "\<lambda>m. next_in (hash_order m)"
  by unfold_locales (use hash_order in \<open>auto simp: hash_map_def intro!: exI [of _ "hash_order _"]\<close>)

section \<open>Properties\<close>



text \<open>
  C3: Accounting: after any sequence of packets with at most 256 different pairs of addresses, starting
  from an empty map, the map holds for every pair exactly the number and the total length of its
  dropped packets, and nothing else.
\<close>

theorem drop_icmp_accounting:
  assumes "bpf_hash M" and "lookup_elem M mp = Map.empty" and "\<forall>p \<in> set ps. bytes_ok p"
    and "card (keys_of ps) \<le> max_entries" and "small ps"
  shows "\<exists>mp'. run_packets M mp ps = ret mp' \<and> lookup_elem M mp' = totals ps"
  using bpf_hash.accounting [OF assms] .

theorem drop_icmp_accounting_witness:
  "\<exists>mp'. run_packets hash_map Map.empty
      [replicate 12 0 @ [8, 0] @ replicate 9 0 @ [1] @ replicate 10 7] = ret mp'
     \<and> lookup_elem hash_map mp' \<noteq> Map.empty"
proof -
  let ?p = "replicate 12 0 @ [8, 0] @ replicate 9 0 @ [1] @ replicate 10 7"
  have icmp: "is_icmp ?p" by (simp add: is_icmp_def nth_append)
  have "lookup_elem hash_map Map.empty = Map.empty" by (simp add: hash_map_def hash_norm_def)
  moreover have "bytes_ok ?p" by (auto simp: bytes_ok_def)
  moreover have "keys_of [?p] = {key_of ?p}" unfolding keys_of_def using icmp by auto
  then have "card (keys_of [?p]) \<le> max_entries" by (simp add: max_entries_eq)
  moreover have "small [?p]" by (simp add: small_def)
  ultimately obtain mp' where "run_packets hash_map Map.empty [?p] = ret mp'"
    "lookup_elem hash_map mp' = totals [?p]"
    using drop_icmp_accounting [OF hash.bpf_hash_axioms, of Map.empty "[?p]"] by auto
  moreover have "totals [?p] (key_of ?p) \<noteq> None" using icmp by (simp add: totals_def hits_def)
  ultimately show ?thesis by auto
qed



text \<open>
  When the program is pinned but the map is not, the loader looks the map up in an object handle
  that was never initialised.
\<close>

lemma loader_uninitialised_object:
  assumes "prog_pinned env" and "\<not> map_pinned env"
  shows "loader_setup env = fault Uninit"
  using assms by (simp add: loader_setup_def load_prog_def load_map_def)

lemma loader_uninitialised_object_witness:
  "loader_setup \<lparr>prog_pinned = True, map_pinned = False, obj_get_prog = 3, obj_get_map = 4,
     prog_load = None, pin_prog_fails = False, find_map_fd = 4, pin_map_fails = False,
     wlan0_index = 2, attach_fails = False\<rparr> = fault Uninit"
  by (rule loader_uninitialised_object) simp_all

text \<open>
  The loader touches no interface but its own: after a signal nothing is attached to it and the
  others are as before; when the setup fails, nothing has changed at all.
\<close>

lemma loader_main_links:
  assumes "loader_main env rounds links = ret (links', os, status)"
  shows "links' = (if status = 0 then links(wlan0_index env := None) else links) \<and> (status = 0 \<or> status = - 1)"
  using assms by (auto simp: loader_main_def int_exit_def Let_def split: if_splits elim!: bnd_eq_ret_E)

lemma dump_rounds_end:
  "\<forall>(nk, look) \<in> set rounds. \<exists>ks. steps_through nk \<lparr>src = 0, dst = 0\<rparr> ks \<and> set ks \<subseteq> dom look \<Longrightarrow> \<exists>os. dump_rounds rounds = ret os"
proof (induction rounds rule: dump_rounds.induct)
  case (2 nk look rs)
  then obtain ks where "steps_through nk \<lparr>src = 0, dst = 0\<rparr> ks" "set ks \<subseteq> dom look" by auto
  then have "\<exists>o1. dump_round nk look = ret o1" by (simp add: dump_round_def dump_loop_steps)
  then show ?case using 2 by auto
qed simp

lemma loader_main_ends:
  assumes "\<forall>(nk, look) \<in> set rounds. \<exists>ks. steps_through nk \<lparr>src = 0, dst = 0\<rparr> ks \<and> set ks \<subseteq> dom look"
    and "prog_pinned env \<longrightarrow> map_pinned env"
  shows "\<exists>r. loader_main env rounds links = ret r"
proof -
  obtain os where "dump_rounds rounds = ret os" using dump_rounds_end [OF assms(1)] by blast
  then show ?thesis
    using assms(2) by (auto simp: loader_main_def loader_setup_def load_prog_def load_map_def int_exit_def Let_def split: option.splits)
qed

end
