(* ===== verification/Drop_Udp.thy ===== *)
theory Drop_Udp
  imports Nf_Hooks C_Bytes "HOL-Library.Word"
begin

text \<open>
  The kernel module \<^verbatim>\<open>src/kernel_module/packet_related_using_netfilter/drop_UDP_packet/drop_UDP.c\<close>: a
  netfilter hook that counts UDP bytes, a proc file that shows the count and one that takes a port
  number. The module's global variables are a record; the kernel services it calls answer through
  arguments: the result of \<^verbatim>\<open>kmalloc\<close>, of \<^verbatim>\<open>copy_from_user\<close> and of the registrations.

  The module's life is a state machine (\<open>udp_run\<close>): loading and removing the module, packets at any
  place of the packet path and accesses to the files come in any order.
\<close>

section \<open>State and packets\<close>

text \<open>
  \<open>port_p\<close>: the pointer \<^verbatim>\<open>port\<close>; \<open>None\<close> is null, \<open>Some None\<close> an allocated cell that was not written.
  \<open>lost\<close> counts the cells no pointer refers to any more.
\<close>

record module_state =
  count_v :: "32 word"
  port_p :: "32 word option option"
  lost :: nat
  hook_on :: bool
  proc_dir :: bool
  count_file :: bool
  port_file :: bool

definition initial_state :: module_state where
  "initial_state = \<lparr>count_v = 0, port_p = None, lost = 0, hook_on = False, proc_dir = False,
     count_file = False, port_file = False\<rparr>"

datatype nf_verdict = NF_DROP | NF_ACCEPT

record sk_buff =
  len_f :: "32 word"
  mac_len :: "32 word"
  protocol :: nat
  saddr :: "32 word"
  daddr :: "32 word"
  source :: nat       \<comment> \<open>the ports, in host order\<close>
  dest :: nat

definition IPPROTO_UDP :: nat where "IPPROTO_UDP = 17"

datatype printk =
    Hook "32 word" nat "32 word" nat int int   \<comment> \<open>addresses, ports, \<^verbatim>\<open>skb->len\<close>, \<^verbatim>\<open>skb->mac_len\<close>\<close>
  | Text string
  | Error int

section \<open>Operations\<close>

text \<open>The headers are located and read before \<^verbatim>\<open>skb\<close> is compared with null.\<close>

definition vincent_drop_udp_output ::
    "module_state \<Rightarrow> sk_buff option \<Rightarrow> (module_state \<times> nf_verdict \<times> printk list) cres" where
  "vincent_drop_udp_output st skb =
     bnd (need NullDeref skb) (\<lambda>skb.
       if protocol skb = IPPROTO_UDP
       then ret (st\<lparr>count_v := count_v st + len_f skb\<rparr>, NF_ACCEPT,
                 [Hook (saddr skb) (source skb) (daddr skb) (dest skb) (sint (len_f skb)) (sint (mac_len skb))])
       else ret (st, NF_ACCEPT, []))"

text \<open>\<^verbatim>\<open>seq_printf(sf, "%d\n", count)\<close>: the unsigned counter is printed as a signed int.\<close>

definition drop_count_show :: "module_state \<Rightarrow> out list" where
  "drop_count_show st = [OInt (sint (count_v st)), newline]"

definition port_show :: "module_state \<Rightarrow> out list cres" where
  "port_show st =
     bnd (need NullDeref (port_p st)) (\<lambda>cell.
     bnd (need Uninit cell) (\<lambda>p. ret [OInt (uint p), newline]))"

definition EFAULT :: int where "EFAULT = 14"

text \<open>
  \<^verbatim>\<open>sscanf(buf, "%u", port)\<close>: white space is skipped, then digits are read up to the first other
  character; the number is stored modulo \<open>2^32\<close>. \<open>None\<close>: there is no number.
\<close>

definition is_space :: "nat \<Rightarrow> bool" where
  "is_space b \<longleftrightarrow> 9 \<le> b \<and> b \<le> 13 \<or> b = 32 \<or> b = 160"

definition is_digit :: "nat \<Rightarrow> bool" where
  "is_digit b \<longleftrightarrow> 48 \<le> b \<and> b \<le> 57"

fun read_number :: "obuf \<Rightarrow> nat \<Rightarrow> nat cres" where
  "read_number [] acc = fault OutOfBounds"
| "read_number (None # bs) acc = fault Uninit"
| "read_number (Some b # bs) acc = (if is_digit b then read_number bs (acc * 10 + (b - 48)) else ret acc)"

fun sscanf_u :: "obuf \<Rightarrow> 32 word option cres" where
  "sscanf_u [] = fault OutOfBounds"
| "sscanf_u (None # bs) = fault Uninit"
| "sscanf_u (Some b # bs) =
     (if is_space b then sscanf_u bs
      else if is_digit b then bnd (read_number (Some b # bs) 0) (\<lambda>n. ret (Some (word_of_nat n)))
      else ret None)"

text \<open>
  \<^verbatim>\<open>port_write\<close>. \<open>bytes\<close> is the user's buffer and \<open>pos\<close> the position in the file; \<open>mem_ok\<close> and \<open>copy_ok\<close> are the
  answers of \<^verbatim>\<open>kmalloc\<close> and \<^verbatim>\<open>copy_from_user\<close>. The kernel buffer has 128 bytes and is not initialised, so
  \<^verbatim>\<open>sscanf\<close> and \<^verbatim>\<open>strlen\<close> may come to bytes nobody has written.
\<close>

definition port_write ::
    "bool \<Rightarrow> bool \<Rightarrow> module_state \<Rightarrow> nat list \<Rightarrow> int \<Rightarrow> (module_state \<times> int \<times> int) cres" where
  "port_write mem_ok copy_ok st bytes pos =
     (let st = st\<lparr>port_p := (if mem_ok then Some None else None),
                  lost := lost st + (if port_p st = None then 0 else 1)\<rparr> in
      if pos > 0 \<or> length bytes > 1024 then ret (st, pos, - EFAULT)
      else if length bytes > 128 then fault OutOfBounds
      else if \<not> copy_ok then ret (st, pos, - EFAULT)
      else
        let buf = map Some bytes @ replicate (128 - length bytes) None in
        bnd (sscanf_u buf) (\<lambda>num.
          case num of
            None \<Rightarrow> ret (st, pos, - EFAULT)
          | Some v \<Rightarrow>
              if \<not> mem_ok then fault NullDeref
              else let st = st\<lparr>port_p := Some (Some v)\<rparr> in
                bnd (ostr buf) (\<lambda>s. ret (st, int (length s), int (length s)))))"

section \<open>Files and hook\<close>

text \<open>
  \<^verbatim>\<open>single_open\<close> attaches the function that shows the content to the open file, or fails for want of
  memory; reading the file calls this function. \<open>f_write\<close> is \<open>None\<close> for a file that cannot be written.
\<close>

type_synonym show_fn = "module_state \<Rightarrow> out list cres"
type_synonym write_fn = "bool \<Rightarrow> bool \<Rightarrow> module_state \<Rightarrow> nat list \<Rightarrow> int \<Rightarrow> (module_state \<times> int \<times> int) cres"

record file_operations =
  f_open :: "bool \<Rightarrow> show_fn option \<times> int"
  f_write :: "write_fn option"

definition ENOMEM :: int where "ENOMEM = 12"
definition EIO :: int where "EIO = 5"

definition single_open :: "bool \<Rightarrow> show_fn \<Rightarrow> show_fn option \<times> int" where
  "single_open mem show = (if mem then (Some show, 0) else (None, - ENOMEM))"

text \<open>\<^verbatim>\<open>DEFINE_SHOW_ATTRIBUTE(drop_count)\<close>\<close>

definition drop_count_fops :: file_operations where
  "drop_count_fops = \<lparr>f_open = (\<lambda>mem. single_open mem (\<lambda>st. ret (drop_count_show st))), f_write = None\<rparr>"

definition port_open :: "bool \<Rightarrow> show_fn option \<times> int" where
  "port_open mem = single_open mem port_show"

definition port_fops :: file_operations where
  "port_fops = \<lparr>f_open = port_open, f_write = Some port_write\<rparr>"

definition vincent_drop_udp_ops ::
    "(module_state \<Rightarrow> sk_buff option \<Rightarrow> (module_state \<times> nf_verdict \<times> printk list) cres) nf_hook_ops" where
  "vincent_drop_udp_ops = \<lparr>hook = vincent_drop_udp_output, pf = NFPROTO_IPV4, hooknum = NF_INET_POST_ROUTING,
     priority = NF_IP_PRI_LAST\<rparr>"

section \<open>Loading and removing\<close>

text \<open>Loading: \<open>err\<close> is the result of registering the hook, the others say whether the files could be made.\<close>

definition vincent_drop_udp_init ::
    "int \<Rightarrow> bool \<Rightarrow> bool \<Rightarrow> bool \<Rightarrow> module_state \<Rightarrow> module_state \<times> int \<times> printk list" where
  "vincent_drop_udp_init err dir_ok count_ok port_ok st =
     (let os = [Text ''Enter vincent_drop_UDP_init''] in
      if err < 0 then (st, err, os @ [Error err])
      else let st = st\<lparr>hook_on := True\<rparr> in
      if \<not> dir_ok then (st, 1, os @ [Text ''Fail to create drop udp dir''])
      else let st = st\<lparr>proc_dir := True\<rparr> in
      if \<not> count_ok then (st, 1, os @ [Text ''Fail to create file: drop_file''])
      else let st = st\<lparr>count_file := True\<rparr> in
      if \<not> port_ok then (st, 1, os @ [Text ''Fail to create file: port_file''])
      else (st\<lparr>port_file := True\<rparr>, 0, os))"

definition vincent_drop_udp_deinit :: "module_state \<Rightarrow> module_state \<times> printk list" where
  "vincent_drop_udp_deinit st =
     (st\<lparr>hook_on := False, proc_dir := False, count_file := False, port_file := False\<rparr>,
      [Text ''Enter vincent_drop_UDP_deinit''])"

section \<open>The life of the module\<close>

text \<open>
  The kernel's side. A file is opened and read to its end; it is opened and bytes are written to it, at
  the position \<open>pos\<close> that earlier writes have left. A packet passes the hook when it is registered.
\<close>

datatype proc_name = DropCount | DropPort

fun fops_of :: "proc_name \<Rightarrow> file_operations" where
  "fops_of DropCount = drop_count_fops"
| "fops_of DropPort = port_fops"

fun exists_file :: "proc_name \<Rightarrow> module_state \<Rightarrow> bool" where
  "exists_file DropCount st = count_file st"
| "exists_file DropPort st = port_file st"

definition read_file :: "file_operations \<Rightarrow> bool \<Rightarrow> module_state \<Rightarrow> (out list \<times> int) cres" where
  "read_file fops mem st =
     (case f_open fops mem of (None, e) \<Rightarrow> ret ([], e) | (Some show, _) \<Rightarrow> bnd (show st) (\<lambda>os. ret (os, 0)))"

definition write_file ::
    "file_operations \<Rightarrow> bool \<Rightarrow> bool \<Rightarrow> bool \<Rightarrow> module_state \<Rightarrow> nat list \<Rightarrow> int \<Rightarrow> (module_state \<times> int \<times> int) cres" where
  "write_file fops mem mem_ok copy_ok st bytes pos =
     (case f_open fops mem of
        (None, e) \<Rightarrow> ret (st, pos, e)
      | (Some _, _) \<Rightarrow> (case f_write fops of
            None \<Rightarrow> ret (st, pos, - EIO) | Some write_fn \<Rightarrow> write_fn mem_ok copy_ok st bytes pos))"

definition pass_packet :: "nat \<Rightarrow> nat \<Rightarrow> module_state \<Rightarrow> sk_buff \<Rightarrow> (module_state \<times> nf_verdict \<times> printk list) cres" where
  "pass_packet family place st skb =
     (if hook_on st \<and> called_at vincent_drop_udp_ops family place
      then hook vincent_drop_udp_ops st (Some skb) else ret (st, NF_ACCEPT, []))"

text \<open>
  Events, with what is observed of them: the verdict on a packet, the text of a file, the result of a
  write. A module whose initialisation returns a negative number is thrown away; for a positive
  number the kernel writes a warning and keeps the module.
\<close>

datatype event =
    LoadModule int bool bool bool
  | UnloadModule
  | Packet nat nat sk_buff nf_verdict
  | ReadFile proc_name "out list" int
  | WriteFile proc_name "nat list" int

record udp_sys =
  mod_st :: module_state
  mod_loaded :: bool

inductive udp_run :: "event list \<Rightarrow> udp_sys \<Rightarrow> bool" where
  start: "udp_run [] \<lparr>mod_st = initial_state, mod_loaded = False\<rparr>"
| load: "udp_run es s \<Longrightarrow> \<not> mod_loaded s \<Longrightarrow>
     vincent_drop_udp_init err dir_ok count_ok port_ok initial_state = (st, r, ps) \<Longrightarrow>
     udp_run (es @ [LoadModule err dir_ok count_ok port_ok]) \<lparr>mod_st = st, mod_loaded = (0 \<le> r)\<rparr>"
| unload: "udp_run es s \<Longrightarrow> mod_loaded s \<Longrightarrow> vincent_drop_udp_deinit (mod_st s) = (st, ps) \<Longrightarrow>
     udp_run (es @ [UnloadModule]) \<lparr>mod_st = st, mod_loaded = False\<rparr>"
| packet: "udp_run es s \<Longrightarrow> pass_packet family place (mod_st s) skb = ret (st, v, ps) \<Longrightarrow>
     udp_run (es @ [Packet family place skb v]) (s\<lparr>mod_st := st\<rparr>)"
| read_it: "udp_run es s \<Longrightarrow> exists_file f (mod_st s) \<Longrightarrow> read_file (fops_of f) mem (mod_st s) = ret (os, r) \<Longrightarrow>
     udp_run (es @ [ReadFile f os r]) s"
| write_it: "udp_run es s \<Longrightarrow> exists_file f (mod_st s) \<Longrightarrow>
     write_file (fops_of f) mem mem_ok copy_ok (mod_st s) bytes pos = ret (st, pos', r) \<Longrightarrow>
     udp_run (es @ [WriteFile f bytes r]) (s\<lparr>mod_st := st\<rparr>)"

text \<open>What the events amount to: whether the module is loaded, and the UDP bytes it saw since then.\<close>

record udp_view =
  u_loaded :: bool
  u_bytes :: nat

fun view_event :: "event \<Rightarrow> udp_view \<Rightarrow> udp_view" where
  "view_event (LoadModule err _ _ _) v = \<lparr>u_loaded = (0 \<le> err), u_bytes = 0\<rparr>"
| "view_event UnloadModule v = v\<lparr>u_loaded := False\<rparr>"
| "view_event (Packet family place skb _) v =
     (if u_loaded v \<and> family = NFPROTO_IPV4 \<and> place = NF_INET_POST_ROUTING \<and> protocol skb = IPPROTO_UDP
      then v\<lparr>u_bytes := u_bytes v + unat (len_f skb)\<rparr> else v)"
| "view_event _ v = v"

definition view_of :: "event list \<Rightarrow> udp_view" where
  "view_of es = fold view_event es \<lparr>u_loaded = False, u_bytes = 0\<rparr>"

lemma view_of_Nil [simp]: "view_of [] = \<lparr>u_loaded = False, u_bytes = 0\<rparr>"
  by (simp add: view_of_def)

lemma view_of_snoc [simp]: "view_of (es @ [e]) = view_event e (view_of es)"
  by (simp add: view_of_def)

section \<open>The invariant\<close>

text \<open>The variables the invariant is about.\<close>

definition core :: "module_state \<Rightarrow> 32 word \<times> bool" where
  "core st = (count_v st, hook_on st)"

lemma init_core:
  "vincent_drop_udp_init err dir_ok count_ok port_ok initial_state = (st, r, ps) \<Longrightarrow>
     core st = (0, 0 \<le> r) \<and> (0 \<le> r \<longleftrightarrow> 0 \<le> err)"
  by (auto simp: vincent_drop_udp_init_def initial_state_def core_def Let_def split: if_splits)

lemma write_core:
  "write_file (fops_of f) mem mem_ok copy_ok st bytes pos = ret (st', pos', r) \<Longrightarrow> core st' = core st"
  by (cases f) (auto simp: write_file_def drop_count_fops_def port_fops_def port_open_def single_open_def
      port_write_def core_def Let_def split: if_splits option.splits elim!: bnd_eq_ret_E)

lemma packet_core:
  "pass_packet family place st skb = ret (st', v, ps) \<Longrightarrow>
     v = NF_ACCEPT \<and> hook_on st' = hook_on st \<and>
     count_v st' = count_v st + (if hook_on st \<and> family = NFPROTO_IPV4 \<and> place = NF_INET_POST_ROUTING
       \<and> protocol skb = IPPROTO_UDP then len_f skb else 0)"
  by (auto simp: pass_packet_def called_at_def vincent_drop_udp_ops_def vincent_drop_udp_output_def split: if_splits)

lemma udp_run_invariant:
  "udp_run es s \<Longrightarrow>
     mod_loaded s = u_loaded (view_of es) \<and> core (mod_st s) = (word_of_nat (u_bytes (view_of es)), mod_loaded s)"
proof (induction rule: udp_run.induct)
  case start
  then show ?case by (simp add: initial_state_def core_def)
next
  case load
  then show ?case using init_core by auto
next
  case unload
  then show ?case by (auto simp: vincent_drop_udp_deinit_def core_def)
next
  case packet
  then show ?case using packet_core by (auto simp: core_def)
next
  case write_it
  then show ?case using write_core by auto
qed simp

lemma udp_run_accepts: "udp_run es s \<Longrightarrow> Packet family place skb v \<in> set es \<Longrightarrow> v = NF_ACCEPT"
  by (induction rule: udp_run.induct) (auto dest: packet_core)

lemma udp_run_prefix: "udp_run es s \<Longrightarrow> es = es1 @ es2 \<Longrightarrow> \<exists>s1. udp_run es1 s1"
proof (induction arbitrary: es2 rule: udp_run.induct)
  case start
  then show ?case using udp_run.start by auto
next
  case load
  then show ?case by (cases es2 rule: rev_cases) (auto intro: udp_run.load)
next
  case unload
  then show ?case by (cases es2 rule: rev_cases) (auto intro: udp_run.unload)
next
  case packet
  then show ?case by (cases es2 rule: rev_cases) (auto intro: udp_run.packet)
next
  case read_it
  then show ?case by (cases es2 rule: rev_cases) (auto intro: udp_run.read_it)
next
  case write_it
  then show ?case by (cases es2 rule: rev_cases) (auto intro: udp_run.write_it)
qed

inductive_cases udp_run_readE: "udp_run (es @ [ReadFile f os r]) s"

lemma count_text:
  "count_v st = word_of_nat n \<Longrightarrow> drop_count_show st = [OInt (signed_take_bit 31 (int n)), newline]"
  by (simp add: drop_count_show_def signed_of_nat)

lemma udp_run_reads:
  assumes "udp_run (es1 @ ReadFile DropCount os 0 # es2) s"
  shows "os = [OInt (signed_take_bit 31 (int (u_bytes (view_of es1)))), newline]"
proof -
  obtain s1 where "udp_run (es1 @ [ReadFile DropCount os 0]) s1"
    using udp_run_prefix [OF assms, of "es1 @ [ReadFile DropCount os 0]" es2] by auto
  then obtain mem where "udp_run es1 s1" "read_file (fops_of DropCount) mem (mod_st s1) = ret (os, 0)"
    by (auto elim: udp_run_readE)
  then show ?thesis
    using udp_run_invariant [of es1 s1] count_text [of "mod_st s1"]
    by (auto simp: core_def read_file_def drop_count_fops_def single_open_def ENOMEM_def split: if_splits)
qed

lemma udp_run_shows:
  "udp_run es s \<Longrightarrow> exists_file DropCount (mod_st s) \<Longrightarrow>
     udp_run (es @ [ReadFile DropCount (drop_count_show (mod_st s)) 0]) s"
  by (rule udp_run.read_it [where mem = True])
    (simp_all add: read_file_def drop_count_fops_def single_open_def)

section \<open>A written number\<close>

lemma read_number_digits:
  "\<forall>d \<in> set ds. d < 10 \<Longrightarrow> \<not> is_digit z \<Longrightarrow>
     read_number (map (\<lambda>d. Some (48 + d)) ds @ Some z # bs) acc = ret (foldl (\<lambda>n d. n * 10 + d) acc ds)"
  by (induction ds arbitrary: acc) (auto simp: is_digit_def)

text \<open>Any white space, the digits of \<open>v\<close>, and a character that is no digit.\<close>

lemma sscanf_u_number:
  assumes "list_all is_space sp" and "\<not> is_digit z"
  shows "sscanf_u (map Some sp @ map (\<lambda>d. Some (48 + d)) (digits v) @ Some z # bs) = ret (Some (word_of_nat v))"
  using assms(1)
proof (induction sp)
  case Nil
  obtain d ds where d: "digits v = d # ds" using digits_nonempty by (cases "digits v") auto
  have range: "\<forall>e \<in> set (d # ds). e < 10" using digits_range d by metis
  then have "is_digit (48 + d)" "\<not> is_space (48 + d)" by (auto simp: is_digit_def is_space_def)
  then show ?case
    using read_number_digits [of ds z bs d] range assms(2) d digits_value [of v] by simp
qed simp

lemma ostr_prefix:
  "0 \<notin> set bs \<Longrightarrow> ostr (map Some bs @ Some 0 # r) = ret (map char_of bs)"
  "0 \<notin> set bs \<Longrightarrow> ostr (map Some bs @ None # r) = fault Uninit"
  by (induction bs) auto

section \<open>Properties\<close>

text \<open>
  C26: Every run of the UDP module, with any order of loading, removing, packets and accesses to its files.
  No packet is ever dropped, whatever port was written. The hook is registered exactly while the
  module is loaded, whatever goes wrong when it is loaded. Whenever the file is read it shows the
  number of UDP bytes that passed the IPv4 post-routing hook since the module was loaded, modulo
  \<open>2^32\<close> and as a signed number, so that it turns negative when half of that range is passed.
\<close>

theorem drop_udp_runs:
  assumes "udp_run es s"
  shows "(Packet family place skb v \<in> set es \<longrightarrow> v = NF_ACCEPT)
    \<and> hook_on (mod_st s) = mod_loaded s \<and> mod_loaded s = u_loaded (view_of es)
    \<and> count_v (mod_st s) = word_of_nat (u_bytes (view_of es))
    \<and> (es = es1 @ ReadFile DropCount os 0 # es2 \<longrightarrow>
        os = [OInt (signed_take_bit 31 (int (u_bytes (view_of es1)))), newline])"
  using udp_run_accepts [OF assms] udp_run_invariant [OF assms] udp_run_reads [of es1 os es2 s] assms
  by (auto simp: core_def)

definition a_packet :: sk_buff where
  "a_packet = \<lparr>len_f = 100, mac_len = 0, protocol = 17, saddr = 0, daddr = 0, source = 53, dest = 53\<rparr>"

lemma example_run:
  "\<exists>s os. udp_run [LoadModule 0 True True True, Packet NFPROTO_IPV4 NF_INET_POST_ROUTING a_packet NF_ACCEPT,
     Packet NFPROTO_IPV4 NF_INET_PRE_ROUTING a_packet NF_ACCEPT, ReadFile DropCount os 0] s"
proof -
  let ?st = "initial_state\<lparr>hook_on := True, proc_dir := True, count_file := True, port_file := True\<rparr>"
  have 1: "udp_run [LoadModule 0 True True True] \<lparr>mod_st = ?st, mod_loaded = True\<rparr>"
    using udp_run.load [OF udp_run.start, of 0 True True True ?st 0] by (simp add: vincent_drop_udp_init_def Let_def)
  have 2: "udp_run [LoadModule 0 True True True, Packet NFPROTO_IPV4 NF_INET_POST_ROUTING a_packet NF_ACCEPT]
      \<lparr>mod_st = ?st\<lparr>count_v := 100\<rparr>, mod_loaded = True\<rparr>"
    using udp_run.packet [OF 1, of NFPROTO_IPV4 NF_INET_POST_ROUTING a_packet "?st\<lparr>count_v := 100\<rparr>" NF_ACCEPT]
    by (simp add: pass_packet_def called_at_def vincent_drop_udp_ops_def vincent_drop_udp_output_def a_packet_def
        IPPROTO_UDP_def initial_state_def)
  have 3: "udp_run [LoadModule 0 True True True, Packet NFPROTO_IPV4 NF_INET_POST_ROUTING a_packet NF_ACCEPT,
      Packet NFPROTO_IPV4 NF_INET_PRE_ROUTING a_packet NF_ACCEPT] \<lparr>mod_st = ?st\<lparr>count_v := 100\<rparr>, mod_loaded = True\<rparr>"
    using udp_run.packet [OF 2, of NFPROTO_IPV4 NF_INET_PRE_ROUTING a_packet "?st\<lparr>count_v := 100\<rparr>" NF_ACCEPT]
    by (simp add: pass_packet_def called_at_def vincent_drop_udp_ops_def nf_numbers)
  show ?thesis using udp_run_shows [OF 3] by auto
qed

theorem drop_udp_runs_witness:
  "\<exists>s. udp_run [LoadModule 0 True True True, Packet NFPROTO_IPV4 NF_INET_POST_ROUTING a_packet NF_ACCEPT,
     Packet NFPROTO_IPV4 NF_INET_PRE_ROUTING a_packet NF_ACCEPT, ReadFile DropCount [OInt 100, newline] 0] s
     \<and> hook_on (mod_st s) \<and> count_v (mod_st s) = 100"
proof -
  let ?es = "[LoadModule 0 True True True, Packet NFPROTO_IPV4 NF_INET_POST_ROUTING a_packet NF_ACCEPT,
    Packet NFPROTO_IPV4 NF_INET_PRE_ROUTING a_packet NF_ACCEPT]"
  obtain s os where run: "udp_run (?es @ [ReadFile DropCount os 0]) s" using example_run by auto
  have "view_of ?es = \<lparr>u_loaded = True, u_bytes = 100\<rparr>"
    by (simp add: view_of_def a_packet_def IPPROTO_UDP_def nf_numbers)
  moreover from this have "view_of (?es @ [ReadFile DropCount os 0]) = \<lparr>u_loaded = True, u_bytes = 100\<rparr>"
    unfolding view_of_snoc by simp
  ultimately show ?thesis
    using drop_udp_runs [OF run, where ?es1.0 = ?es and os = os and ?es2.0 = "[]"] run
    by (auto simp: signed_take_bit_eq_if_positive)
qed

text \<open>
  C27: Writing the port and reading it back. White space, the digits of a number and a zero byte: the
  result is the length of the text, the file shows the number modulo \<open>2^32\<close>, and the cell of the
  port before is lost. The same digits with a newline and without a zero byte, as a shell sends them,
  make the kernel read bytes nobody has written; more than 128 bytes, up to the 1024 the guard allows,
  overflow the buffer on the stack; a second write to the open file fails and leaves a port that was
  never set; reading the file before any write dereferences the null pointer.
\<close>

theorem port_roundtrip:
  fixes sp :: "nat list" and v :: nat
  assumes "list_all is_space sp"
  defines "text \<equiv> sp @ map (\<lambda>d. 48 + d) (digits v)"
  shows "(length text + length junk < 128 \<longrightarrow>
      (\<exists>st'. port_write True True st (text @ 0 # junk) 0 = ret (st', int (length text), int (length text))
        \<and> port_show st' = ret [OInt (int v mod 4294967296), newline]
        \<and> lost st' = lost st + (if port_p st = None then 0 else 1)))
    \<and> (length text < 127 \<longrightarrow> port_write True True st (text @ [10]) 0 = fault Uninit)
    \<and> (128 < length bytes \<and> length bytes \<le> 1024 \<longrightarrow> port_write mem_ok copy_ok st bytes 0 = fault OutOfBounds)
    \<and> (0 < pos \<longrightarrow> (\<exists>st'. port_write True copy_ok st bytes pos = ret (st', pos, - EFAULT) \<and> port_show st' = fault Uninit))
    \<and> (port_p st = None \<longrightarrow> port_show st = fault NullDeref)"
proof (intro conjI)
  have nz: "0 \<notin> set text"
    using assms(1) by (auto simp: text_def list_all_iff is_space_def)
  have scan: "sscanf_u (map Some text @ Some z # bs) = ret (Some (word_of_nat v))" if "\<not> is_digit z" for z bs
    using sscanf_u_number [OF assms(1) that, of v bs] by (simp add: text_def comp_def)
  have v: "uint (word_of_nat v :: 32 word) = int v mod 4294967296" by (simp add: unsigned_of_nat take_bit_eq_mod zmod_int)
  show "length text + length junk < 128 \<longrightarrow>
      (\<exists>st'. port_write True True st (text @ 0 # junk) 0 = ret (st', int (length text), int (length text))
        \<and> port_show st' = ret [OInt (int v mod 4294967296), newline]
        \<and> lost st' = lost st + (if port_p st = None then 0 else 1))"
    using scan [of 0] ostr_prefix(1) [OF nz] v by (simp add: port_write_def port_show_def is_digit_def)
  show "length text < 127 \<longrightarrow> port_write True True st (text @ [10]) 0 = fault Uninit"
  proof
    assume "length text < 127"
    then have "replicate (127 - length text) (None :: nat option) = None # replicate (126 - length text) None"
      by (simp flip: replicate_Suc add: Suc_diff_le)
    then show "port_write True True st (text @ [10]) 0 = fault Uninit"
      using scan [of 10] ostr_prefix(2) [of "text @ [10]"] nz \<open>length text < 127\<close>
      by (simp add: port_write_def is_digit_def)
  qed
  show "128 < length bytes \<and> length bytes \<le> 1024 \<longrightarrow> port_write mem_ok copy_ok st bytes 0 = fault OutOfBounds"
    and "0 < pos \<longrightarrow> (\<exists>st'. port_write True copy_ok st bytes pos = ret (st', pos, - EFAULT) \<and> port_show st' = fault Uninit)"
    and "port_p st = None \<longrightarrow> port_show st = fault NullDeref"
    by (simp_all add: port_write_def port_show_def)
qed

theorem port_roundtrip_witness:
  "\<exists>st'. port_write True True initial_state [32, 56, 48, 0] 0 = ret (st', 3, 3) \<and> port_show st' = ret [OInt 80, newline]
     \<and> port_write True True initial_state [56, 48, 10] 0 = fault Uninit"
proof -
  have "digits 80 = [8, 0]" by (simp add: digits.simps)
  then show ?thesis
    using port_roundtrip [of "[32]" 80 "[]" initial_state] port_roundtrip [of "[]" 80 "[]" initial_state]
    by (auto simp: is_space_def)
qed

end
