(* ===== verification/Multicast.thy ===== *)
theory Multicast
  imports C_Bytes
begin

text \<open>
  The raw Ethernet sender under \<^verbatim>\<open>src/socket/network_socket/multicast\<close>: \<^verbatim>\<open>utils.c\<close> and
  \<^verbatim>\<open>multicast_SIOCGIFHWADDR.c\<close>.

  \<^verbatim>\<open>struct eth_frame\<close> is the list of its 78 bytes: the destination at 0, the source at 6, the protocol
  at 12 and the payload at 14. \<^verbatim>\<open>set_dest_mac\<close> passes pointers to bytes where \<^verbatim>\<open>sscanf\<close> stores whole
  unsigned ints, so its stores run over the field. The answers of the kernel (interface flags and
  hardware address, socket, bind, send) are the record \<open>raw_env\<close>.
\<close>

section \<open>Reading and printing hexadecimal numbers\<close>

definition hex_digit :: "char \<Rightarrow> nat option" where
  "hex_digit c =
     (let n = of_char c :: nat in
      if 48 \<le> n \<and> n \<le> 57 then Some (n - 48)
      else if 97 \<le> n \<and> n \<le> 102 then Some (n - 87)
      else if 65 \<le> n \<and> n \<le> 70 then Some (n - 55) else None)"

definition is_space :: "char \<Rightarrow> bool" where
  "is_space c \<longleftrightarrow> (let n = of_char c :: nat in n = 32 \<or> 9 \<le> n \<and> n \<le> 13)"

fun hex_run :: "nat \<Rightarrow> nat \<Rightarrow> string \<Rightarrow> nat \<times> string" where
  "hex_run 0 acc s = (acc, s)"
| "hex_run (Suc w) acc [] = (acc, [])"
| "hex_run (Suc w) acc (c # s) =
     (case hex_digit c of None \<Rightarrow> (acc, c # s) | Some d \<Rightarrow> hex_run w (16 * acc + d) s)"

text \<open>
  The conversion \<^verbatim>\<open>%x\<close> with a maximal width: white space, a sign, the prefix \<^verbatim>\<open>0x\<close>, digits. The value
  saturates at 64 bits and is stored in 32. \<open>None\<close> is a matching failure.
\<close>

definition scan_hex :: "nat \<Rightarrow> string \<Rightarrow> (nat \<times> string) option" where
  "scan_hex w s =
     (let s = dropWhile is_space s;
          (neg, w, s) = (case s of [] \<Rightarrow> (False, w, s) | c # r \<Rightarrow>
             if c = CHR ''-'' then (True, w - 1, r) else if c = CHR ''+'' then (False, w - 1, r) else (False, w, s));
          (w, s) = (case s of c # x # r \<Rightarrow>
             if 2 \<le> w \<and> c = CHR ''0'' \<and> (x = CHR ''x'' \<or> x = CHR ''X'') then (w - 2, r) else (w, s) | _ \<Rightarrow> (w, s))
      in case s of [] \<Rightarrow> None | c # r \<Rightarrow>
        if w = 0 \<or> hex_digit c = None then None
        else let (v, rest) = hex_run w 0 s; v = min v 18446744073709551615
             in Some ((if neg then (18446744073709551616 - v) else v) mod 4294967296, rest))"

text \<open>\<^verbatim>\<open>%02x:%02x:...\<close> with \<open>k\<close> conversions: the values that are stored.\<close>

fun scan_mac :: "nat \<Rightarrow> string \<Rightarrow> nat list" where
  "scan_mac 0 s = []"
| "scan_mac (Suc k) s =
     (case scan_hex 2 s of None \<Rightarrow> []
      | Some (v, r) \<Rightarrow> v # (case r of [] \<Rightarrow> [] | c # r' \<Rightarrow> if c = CHR '':'' then scan_mac k r' else []))"

section \<open>The frame\<close>

definition frame_size :: nat where "frame_size = 78"

definition put_bytes :: "mem \<Rightarrow> nat \<Rightarrow> nat list \<Rightarrow> mem cres" where
  "put_bytes m a bs =
     (if a + length bs \<le> length m then ret (take a m @ bs @ drop (a + length bs) m) else fault OutOfBounds)"

text \<open>One conversion of \<^verbatim>\<open>sscanf\<close> after the other stores four bytes.\<close>

fun store_uints :: "mem \<Rightarrow> nat \<Rightarrow> nat list \<Rightarrow> mem cres" where
  "store_uints m a [] = ret m"
| "store_uints m a (v # vs) = bnd (put_bytes m a (le_enc 4 v)) (\<lambda>m. store_uints m (Suc a) vs)"

definition set_dest_mac :: "string \<Rightarrow> mem \<Rightarrow> nat \<Rightarrow> (mem \<times> out list) cres" where
  "set_dest_mac mac_string m dest =
     bnd (store_uints m dest (scan_mac 6 mac_string)) (\<lambda>m.
     bnd (rd_bytes m (int dest) 6) (\<lambda>bs.
       ret (m, [OStr ''Destination mac is '', OStr (mac_text bs), newline])))"

text \<open>
  \<open>up\<close> is the flag after the first \<^verbatim>\<open>ioctl\<close>, \<open>hw\<close> the field \<^verbatim>\<open>sa_data\<close> after the second. \<open>None\<close> is the
  result -1.
\<close>

definition set_source_mac :: "bool \<Rightarrow> nat list \<Rightarrow> string \<Rightarrow> mem \<Rightarrow> nat \<Rightarrow> (mem option \<times> out list) cres" where
  "set_source_mac up hw interface m mac =
     (if \<not> up then ret (None, [])
      else
        bnd (rd_bytes hw 0 6) (\<lambda>sa.
        bnd (put_bytes m mac sa) (\<lambda>m.
        bnd (rd_bytes m (int mac) 6) (\<lambda>bs.
          ret (Some m, [OStr interface, OStr '' is up. '', newline, newline, OStr ''Mac address on '', OStr interface,
                        OStr '' is '', OStr (mac_text bs), newline])))))"

definition dump_pkt_content :: "mem \<Rightarrow> int \<Rightarrow> out list cres" where
  "dump_pkt_content content sz =
     bnd (for_up 0 sz (\<lambda>i os. bnd (rd content i) (\<lambda>b. ret (os @ [OHex b, OStr '' '']))) []) (\<lambda>os.
       ret ([newline, OStr ''Packet content+++'', newline] @ os @
            [newline, OStr ''Packet content---'', newline, newline]))"

section \<open>The program\<close>

record raw_env =
  if_up :: bool
  hwaddr :: "nat list"
  raw_socket :: int
  raw_bind :: int
  raw_sends :: "int list"

text \<open>\<^verbatim>\<open>sscanf(argv[3], "0x%x", &ether_type)\<close>.\<close>

definition scan_ether :: "string \<Rightarrow> nat option" where
  "scan_ether s =
     (case s of c # x # r \<Rightarrow>
        if c = CHR ''0'' \<and> x = CHR ''x'' then map_option fst (scan_hex (length r) r) else None
      | _ \<Rightarrow> None)"

definition payload_text :: string where
  "payload_text = ''This is Vincent'' @ [CHR 0x0A]"

definition payload :: "nat list" where
  "payload = map of_char payload_text @ replicate 4 0"

text \<open>The frame the program fills in, the log so far, and the exit code where it gives up.\<close>

definition build_frame :: "raw_env \<Rightarrow> string \<Rightarrow> string \<Rightarrow> string \<Rightarrow> (mem option \<times> out list) cres" where
  "build_frame env if_name dest_mac etype =
     bnd (set_dest_mac dest_mac (replicate frame_size 0) 0) (\<lambda>(pkt, o1).
     bnd (set_source_mac (if_up env) (hwaddr env) if_name pkt 6) (\<lambda>(r, o2).
     case r of
       None \<Rightarrow> ret (None, o1 @ o2 @ [OStr ''Interface '', OStr if_name, OStr '' is not up. '', newline])
     | Some pkt \<Rightarrow>
         bnd (need Uninit (scan_ether etype)) (\<lambda>t.
         bnd (put_bytes pkt 12 [t div 256 mod 256, t mod 256]) (\<lambda>pkt.
         bnd (put_bytes pkt 14 payload) (\<lambda>pkt.
           ret (Some pkt, o1 @ o2 @ [OStr ''ethernet type is 0x'', OHex t, newline]))))))"

text \<open>The message that is sent in every round, what is printed, and the exit code if there is one.\<close>

definition multicast_main ::
    "raw_env \<Rightarrow> string list \<Rightarrow> (mem option \<times> out list \<times> int option) cres" where
  "multicast_main env argv =
     (let note = [OStr ''Note: need as root to execute'', newline] in
      case argv of
        [prog, if_name, dest_mac, etype] \<Rightarrow>
          bnd (build_frame env if_name dest_mac etype) (\<lambda>(r, o1).
          case r of None \<Rightarrow> ret (None, note @ o1, Some 1)
          | Some pkt \<Rightarrow>
            if raw_socket env < 0
            then ret (None, note @ o1 @ [OStr ''Failed to create socket'', newline], Some 1)
            else if raw_bind env < 0
            then ret (None, note @ o1 @ [OStr ''Failed to bind socket'', newline], Some 1)
            else
              bnd (put_bytes (replicate 128 0) 0 pkt) (\<lambda>msg.
              bnd (dump_pkt_content msg 128) (\<lambda>o2.
                ret (Some msg, note @ o1 @
                  [OStr ''sizeof(eth_pkt)='', OInt 8, OStr '', sizeof(*eth_pkt)='', OInt (int frame_size),
                   OStr '', sizeof(struct eth_frame)='', OInt (int frame_size), OStr '', sizeof(eth_pkt->h_dest)='',
                   OInt 6, newline] @ o2 @
                  concat (map (\<lambda>n. [OStr ''Sent '', OInt n, OStr '' bytes. '', newline]) (raw_sends env)), None))))
      | _ \<Rightarrow> ret (None, note @ [OStr ''Usage: '', newline,
               OStr '' sudo ./multicast_client <interface> <dest_mac> <ether_type>'', newline], Some 1))"

section \<open>Printed addresses are read back\<close>

lemma hex_digit_char: "n < 16 \<Longrightarrow> hex_digit (hex_char n) = Some n"
  by (auto simp: hex_digit_def hex_char_def Let_def)

lemma hex_digit_other:
  assumes "hex_digit c = Some d"
  shows "c \<noteq> CHR ''-''" "c \<noteq> CHR ''+''" "c \<noteq> CHR ''x''" "c \<noteq> CHR ''X''" "\<not> is_space c"
  using assms by (auto simp: hex_digit_def is_space_def Let_def split: if_splits)

lemma scan_hex2:
  assumes "b < 256"
  shows "scan_hex 2 (hex2 b @ r) = Some (b, r)"
proof -
  have d: "hex_digit (hex_char (b div 16)) = Some (b div 16)" "hex_digit (hex_char (b mod 16)) = Some (b mod 16)"
    using assms by (auto intro!: hex_digit_char)
  show ?thesis
    using d hex_digit_other [OF d(1)] hex_digit_other [OF d(2)] assms
    by (simp add: scan_hex_def hex2_def numeral_2_eq_2)
qed

lemma scan_mac_text: "list_all (\<lambda>b. b < 256) bs \<Longrightarrow> scan_mac (length bs) (mac_text bs) = bs"
proof (induction bs rule: mac_text.induct)
  case (2 b)
  then show ?case using scan_hex2 [of b "[]"] by simp
next
  case (3 b c bs)
  then show ?case using scan_hex2 [of b "CHR '':'' # mac_text (c # bs)"] by simp
qed simp

section \<open>Stores\<close>

lemma le_enc_byte:
  assumes "v < 256"
  shows "le_enc 4 v = [v, 0, 0, 0]"
proof -
  have "le_enc (Suc (Suc (Suc (Suc 0)))) v = [v, 0, 0, 0]" using assms by simp
  moreover have "Suc (Suc (Suc (Suc 0))) = 4" by simp
  ultimately show ?thesis by (simp only:)
qed

lemma store_uints_bytes:
  "list_all (\<lambda>b. b < 256) vs \<Longrightarrow> vs \<noteq> [] \<Longrightarrow> a + length vs + 3 \<le> length m \<Longrightarrow>
     store_uints m a vs = ret (take a m @ vs @ [0, 0, 0] @ drop (a + length vs + 3) m)"
proof (induction vs arbitrary: m a)
  case (Cons v vs)
  let ?m = "take a m @ [v, 0, 0, 0] @ drop (a + 4) m"
  have enc: "le_enc 4 v = [v, 0, 0, 0]" using Cons.prems(1) by (simp add: le_enc_byte)
  have four: "Suc (Suc (Suc (Suc a))) = a + 4" by simp
  have put: "put_bytes m a (le_enc 4 v) = ret ?m"
    using Cons.prems(3) by (simp add: put_bytes_def enc four)
  show ?case
  proof (cases "vs = []")
    case True
    then show ?thesis using put by (simp add: add.commute [of a])
  next
    case False
    have "store_uints ?m (Suc a) vs = ret (take (Suc a) ?m @ vs @ [0, 0, 0] @ drop (Suc a + length vs + 3) ?m)"
      using Cons False by (intro Cons.IH) auto
    moreover have "take (Suc a) ?m = take a m @ [v]" "drop (Suc a + length vs + 3) ?m = drop (a + length (v # vs) + 3) m"
      using Cons.prems(3) False by (auto simp: neq_Nil_conv drop_Cons' ac_simps)
    ultimately show ?thesis using put by simp
  qed
qed simp

lemma set_dest_mac_frame:
  assumes "length ds = 6" and "list_all (\<lambda>b. b < 256) ds" and "9 \<le> length m"
  shows "set_dest_mac (mac_text ds) m 0 =
    ret (ds @ [0, 0, 0] @ drop 9 m, [OStr ''Destination mac is '', OStr (mac_text ds), newline])"
proof -
  have "store_uints m 0 ds = ret (ds @ [0, 0, 0] @ drop 9 m)"
    using store_uints_bytes [OF assms(2), of 0 m] assms(1,3) by (cases ds) auto
  then show ?thesis
    using scan_mac_text [OF assms(2)] assms(1) by (simp add: set_dest_mac_def rd_bytes_def)
qed

lemma set_source_mac_frame:
  assumes "6 \<le> length hw" and "12 \<le> length m"
  shows "set_source_mac True hw ifn m 6 =
    ret (Some (take 6 m @ take 6 hw @ drop 12 m),
         [OStr ifn, OStr '' is up. '', newline, newline, OStr ''Mac address on '', OStr ifn,
          OStr '' is '', OStr (mac_text (take 6 hw)), newline])"
  using assms by (simp add: set_source_mac_def rd_bytes_def put_bytes_def min_absorb2)

lemma dump_prints_bytes:
  assumes "n \<le> length m"
  shows "dump_pkt_content m (int n) =
    ret ([newline, OStr ''Packet content+++'', newline] @ concat (map (\<lambda>b. [OHex b, OStr '' '']) (take n m)) @
         [newline, OStr ''Packet content---'', newline, newline])"
proof -
  let ?P = "\<lambda>i os. os = concat (map (\<lambda>b. [OHex b, OStr '' '']) (take i m))"
  have "\<exists>os. for_up (int 0) (int n) (\<lambda>i os. bnd (rd m i) (\<lambda>b. ret (os @ [OHex b, OStr '' '']))) [] = ret os \<and> ?P n os"
    by (rule for_up_inv [where P = ?P]) (use assms in \<open>auto simp: take_Suc_conv_app_nth\<close>)
  then show ?thesis by (auto simp: dump_pkt_content_def)
qed

lemma payload_length [simp]: "length payload = 20"
  by (simp add: payload_def payload_text_def)

section \<open>Properties\<close>

text \<open>
  C30: Given a destination address in the form the program prints, an interface that is up and an ether
  type, the program sends the destination, the hardware address of the interface, the type in
  network order and the text, followed by zeros up to 128 bytes.
\<close>

theorem multicast_frame:
  assumes "length ds = 6" and "list_all (\<lambda>b. b < 256) ds" and "if_up env" and "6 \<le> length (hwaddr env)"
    and "scan_ether etype = Some t" and "0 \<le> raw_socket env" and "0 \<le> raw_bind env"
  shows "\<exists>os. multicast_main env [prog, ifn, mac_text ds, etype] =
    ret (Some (ds @ take 6 (hwaddr env) @ [t div 256 mod 256, t mod 256] @ payload @ replicate 94 0), os, None)"
proof -
  let ?pkt = "ds @ take 6 (hwaddr env) @ [t div 256 mod 256, t mod 256] @ payload @ replicate 44 0"
  have d: "set_dest_mac (mac_text ds) (replicate frame_size 0) 0 =
      ret (ds @ replicate 72 0, [OStr ''Destination mac is '', OStr (mac_text ds), newline])"
    using set_dest_mac_frame [OF assms(1,2), of "replicate frame_size 0"]
    by (simp add: frame_size_def numeral_eq_Suc)
  have "\<exists>o1. set_source_mac (if_up env) (hwaddr env) ifn (ds @ replicate 72 0) 6 =
      ret (Some (ds @ take 6 (hwaddr env) @ replicate 66 0), o1)"
    using set_source_mac_frame [OF assms(4), of "ds @ replicate 72 0" ifn] assms(1,3) by simp
  then obtain o1 where s: "set_source_mac (if_up env) (hwaddr env) ifn (ds @ replicate 72 0) 6 =
      ret (Some (ds @ take 6 (hwaddr env) @ replicate 66 0), o1)" by blast
  have b: "\<exists>os. build_frame env ifn (mac_text ds) etype = ret (Some ?pkt, os)"
    using assms(1,4,5) d s by (simp add: build_frame_def put_bytes_def min_absorb2)
  have "put_bytes (replicate 128 0) 0 ?pkt = ret (?pkt @ replicate 50 0)"
    using assms(1,4) by (simp add: put_bytes_def min_absorb2)
  moreover have "\<exists>os. dump_pkt_content (?pkt @ replicate 50 0) 128 = ret os"
    using dump_prints_bytes [of 128 "?pkt @ replicate 50 0"] assms(1,4) by (simp add: min_absorb2)
  ultimately show ?thesis
    using b assms(6,7) by (auto simp: multicast_main_def Let_def replicate_add [symmetric])
qed

theorem multicast_frame_witness:
  "\<exists>os. multicast_main \<lparr>if_up = True, hwaddr = [248, 244, 227, 48, 37, 26], raw_socket = 3, raw_bind = 0, raw_sends = []\<rparr>
     [''m'', ''eth0'', mac_text [1, 0, 94, 127, 255, 250], ''0x9000''] =
     ret (Some ([1, 0, 94, 127, 255, 250] @ [248, 244, 227, 48, 37, 26] @ [144, 0] @ payload @ replicate 94 0), os, None)"
proof -
  have "hex_run (Suc (Suc (Suc (Suc 0)))) 0 ''9000'' = (36864, [])" by (simp add: hex_digit_def)
  then have "scan_ether ''0x9000'' = Some 36864"
    by (simp add: scan_ether_def scan_hex_def is_space_def hex_digit_def)
  from multicast_frame [OF _ _ _ _ this, of "[1, 0, 94, 127, 255, 250]" "\<lparr>if_up = True, hwaddr = [248, 244, 227, 48, 37, 26],
     raw_socket = 3, raw_bind = 0, raw_sends = []\<rparr>" "''m''" "''eth0''"]
  show ?thesis by simp
qed

text \<open>
  The note in the program asks why the first three bytes of the source address become zero when the
  source is written before the destination. Reading the destination stores six unsigned ints at
  consecutive bytes, so the last one clears the three bytes behind the field; the order the program
  uses repairs this, the reverse order loses them for every pair of addresses.
\<close>

lemma source_before_destination:
  assumes "length ds = 6" and "list_all (\<lambda>b. b < 256) ds" and "length hw = 6" and "length m = frame_size"
  shows "\<exists>o1 o2 m1 o3 o4 m2.
     set_source_mac True hw ifn m 6 = ret (Some m1, o1)
     \<and> set_dest_mac (mac_text ds) m1 0 = ret (ds @ [0, 0, 0] @ drop 3 hw @ drop 12 m, o2)
     \<and> set_dest_mac (mac_text ds) m 0 = ret (m2, o3)
     \<and> set_source_mac True hw ifn m2 6 = ret (Some (ds @ hw @ drop 12 m), o4)"
  using assms set_source_mac_frame [of hw m ifn] set_source_mac_frame [of hw "ds @ [0, 0, 0] @ drop 9 m" ifn]
    set_dest_mac_frame [OF assms(1,2), of m] set_dest_mac_frame [OF assms(1,2), of "take 6 m @ take 6 hw @ drop 12 m"]
  by (auto simp: frame_size_def)

lemma source_before_destination_witness:
  "\<exists>o1 o2 m1. set_source_mac True [248, 244, 227, 48, 37, 26] ''eth0'' (replicate 78 0) 6 = ret (Some m1, o1)
     \<and> set_dest_mac (mac_text [1, 0, 94, 127, 255, 250]) m1 0 =
        ret ([1, 0, 94, 127, 255, 250, 0, 0, 0, 48, 37, 26] @ replicate 66 0, o2)"
  using source_before_destination [of "[1, 0, 94, 127, 255, 250]" "[248, 244, 227, 48, 37, 26]" "replicate 78 0" "''eth0''"]
  by (auto simp: frame_size_def)

end
