(* ===== verification/Small_Programs.thy ===== *)
theory Small_Programs
  imports C_Bytes
begin

text \<open>
  The short programs: \<^verbatim>\<open>math/gcd_test.c\<close>, \<^verbatim>\<open>other/test_core_dump.c\<close>, \<^verbatim>\<open>pointer/ptr_test.c\<close>, the TCP
  client and server, \<^verbatim>\<open>process/popen/test_popen.c\<close>, \<^verbatim>\<open>process/create_child_using_execl.c\<close> and
  \<^verbatim>\<open>file/write_binary_file.c\<close>. What the kernel answers to a system call is an argument.
\<close>

section \<open>Greatest common divisor\<close>

partial_function (option) gcd_c :: "int \<Rightarrow> int \<Rightarrow> int cres" where
  "gcd_c i j =
     (if i \<noteq> j
      then if i > j then bnd (ck (i - j)) (\<lambda>i. gcd_c i j) else bnd (ck (j - i)) (\<lambda>j. gcd_c i j)
      else ret i)"

definition gcd_main :: "(out list \<times> int) cres" where
  "gcd_main = bnd (gcd_c 10 13) (\<lambda>res. ret ([OStr ''res='', OInt res, newline], 0))"

section \<open>Division and pointers\<close>

definition func_div :: "int \<Rightarrow> int \<Rightarrow> int cres" where
  "func_div a b = c_div a b"

definition core_dump_main :: "(out list \<times> int) cres" where
  "core_dump_main =
     (let x = 10; y = 0 in
      bnd (func_div x y) (\<lambda>r. ret ([OInt x, OStr '' / '', OInt y, OStr '' = '', OInt r, newline], 0)))"

text \<open>\<^verbatim>\<open>ptr_test.c\<close>: the store holds the variables \<^verbatim>\<open>B\<close>, \<^verbatim>\<open>A\<close> and \<^verbatim>\<open>C\<close>; a pointer names one of them.\<close>

datatype var = VB | VA | VC

definition func_ptr :: "(var \<Rightarrow> int) \<Rightarrow> var \<Rightarrow> var \<Rightarrow> int" where
  "func_ptr s p = (let p = VB in s)"

definition func2_ptr :: "(var \<Rightarrow> int) \<Rightarrow> var \<Rightarrow> var \<Rightarrow> int" where
  "func2_ptr s p = s(p := s VB)"

definition ptr_test_main :: "out list \<times> int" where
  "ptr_test_main =
     (let s = (\<lambda>v. case v of VB \<Rightarrow> 2 | VA \<Rightarrow> 5566 | VC \<Rightarrow> 3); ptrA = VA;
          o1 = [OStr ''1 '', OInt (s ptrA), newline];
          s = func_ptr s ptrA; o2 = [OStr ''2 '', OInt (s ptrA), newline];
          s = func2_ptr s ptrA; o3 = [OStr ''3 '', OInt (s ptrA), newline]
      in (o1 @ o2 @ o3, 0))"

section \<open>The TCP client\<close>

text \<open>
  \<^verbatim>\<open>snprintf(msg, 64, "%s %d\n", ...)\<close>: the full length is returned, at most 63 characters and a zero
  are stored.
\<close>

definition client_text :: "nat \<Rightarrow> string" where
  "client_text pid = ''Hello this is msg from client process: '' @ '' '' @ dec pid @ [CHR 0x0A]"

definition client_msg :: "nat \<Rightarrow> string \<times> nat" where
  "client_msg pid = (take 63 (client_text pid), length (client_text pid))"

text \<open>The results of \<^verbatim>\<open>connect\<close>, in order; the loop tries again while \<^verbatim>\<open>retry\<close> is not zero.\<close>

fun connect_loop :: "nat \<Rightarrow> (nat \<Rightarrow> int) \<Rightarrow> nat \<Rightarrow> int \<Rightarrow> int \<times> nat \<times> out list" where
  "connect_loop 0 connect k err = (err, k, [])"
| "connect_loop (Suc retry) connect k err =
     (let err = connect k in
      if err \<noteq> 0
      then let (e, k', os) = connect_loop retry connect (Suc k) err in
           (e, k', [OStr ''Failed to connect to server, retry remain '', OInt (int retry), OStr '' time'', newline] @ os)
      else (err, Suc k, []))"

definition client_send :: "int \<Rightarrow> int \<Rightarrow> out list" where
  "client_send msglen n =
     (if n \<noteq> msglen then [OStr ''Send msg incompletely, only sent '', OInt n, OStr '' bytes.'', newline] else []) @
     [OStr ''Send msg (len='', OInt msglen, OStr '')done...'', newline]"

text \<open>\<^verbatim>\<open>status\<close> is never assigned: the error text of a failed lookup depends on an indeterminate value.\<close>

definition tcp_client_main :: "bool \<Rightarrow> nat \<Rightarrow> (nat \<Rightarrow> int) \<Rightarrow> (nat \<Rightarrow> int) \<Rightarrow> (out list \<times> int) cres" where
  "tcp_client_main resolved mypid connect send =
     (let (msg, msglen) = client_msg mypid in
      if \<not> resolved then fault Uninit
      else
        let (err, k, o1) = connect_loop 3 connect 0 0 in
        if err = 0
        then ret (o1 @ concat (map (\<lambda>i. client_send (int msglen) (send i)) [0..<10]), 0)
        else ret (o1, - 1))"

section \<open>The TCP server\<close>

text \<open>
  One round of the receive loop: \<open>None\<close> is an error (-1), \<open>Some bs\<close> the bytes received. \<^verbatim>\<open>resp\<close> has 100
  bytes; \<^verbatim>\<open>%s\<close> reads up to the first zero.
\<close>

definition resp_size :: nat where "resp_size = 100"

definition resp_initial :: mem where
  "resp_initial = 48 # replicate 99 0"

definition c_text :: "mem \<Rightarrow> string cres" where
  "c_text m = (if 0 \<in> set m then ret (map char_of (takeWhile (\<lambda>b. b \<noteq> 0) m)) else fault OutOfBounds)"

definition server_round :: "mem \<Rightarrow> nat list option \<Rightarrow> (mem \<times> out list) cres" where
  "server_round resp r =
     (let (resp', resp_len) = (case r of None \<Rightarrow> (resp, - 1)
          | Some bs \<Rightarrow> let d = take resp_size bs in (d @ drop (length d) resp, int (length d))) in
      if resp_len \<noteq> 0
      then bnd (c_text resp') (\<lambda>s.
             ret (resp', [OStr ''Receive message (len='', OInt resp_len, OStr '') from client: '', OStr s, newline]))
      else ret (resp', []))"

fun server_loop :: "mem \<Rightarrow> nat list option list \<Rightarrow> out list cres" where
  "server_loop resp [] = ret []"
| "server_loop resp (r # rs) =
     bnd (server_round resp r) (\<lambda>(resp, o1). bnd (server_loop resp rs) (\<lambda>os. ret (o1 @ os)))"

section \<open>Parsing the routing table\<close>

text \<open>
  \<^verbatim>\<open>test_popen.c\<close>: a line of the command's output, as \<^verbatim>\<open>fgets\<close> delivers it. Without a blank \<^verbatim>\<open>strchr\<close>
  returns null and the pointer difference is not defined. A row of \<^verbatim>\<open>tmp\<close> has 20 bytes and there are 100.
\<close>

definition parse_line :: "nat \<Rightarrow> string \<Rightarrow> out list cres" where
  "parse_line count buff =
     (let offset = length (takeWhile (\<lambda>c. c \<noteq> CHR '' '') buff) in
      if CHR '' '' \<notin> set buff then fault NullDeref
      else if 100 \<le> count then fault OutOfBounds
      else if 20 < offset then fault OutOfBounds
      else
        let row = map of_char (take offset buff) @ replicate (20 - offset) 0 in
        bnd (c_text row) (\<lambda>s.
          ret [OStr ''buff='', OStr buff, OStr ''tmp['', OInt (int count), OStr '']='', OStr s, newline, newline]))"

fun parse_lines :: "nat \<Rightarrow> string list \<Rightarrow> out list cres" where
  "parse_lines count [] = ret []"
| "parse_lines count (b # bs) =
     bnd (parse_line count b) (\<lambda>o1. bnd (parse_lines (Suc count) bs) (\<lambda>os. ret (o1 @ os)))"

definition test_popen_main :: "string list option \<Rightarrow> (out list \<times> int) cres" where
  "test_popen_main fp =
     (case fp of None \<Rightarrow> ret ([OStr ''[IP_RULE_TUN0] popen() error!'', newline], 1)
      | Some ls \<Rightarrow> bnd (parse_lines 0 ls) (\<lambda>os. ret (os, 0)))"

section \<open>A child process\<close>

text \<open>
  \<^verbatim>\<open>is_valid_interface\<close> of \<^verbatim>\<open>create_child_using_execl.c\<close>, on either side of \<^verbatim>\<open>fork\<close>. In the child \<open>True\<close> says that
  \<^verbatim>\<open>execl\<close> fails; in the parent the values are \<^verbatim>\<open>WIFEXITED\<close> and \<^verbatim>\<open>WEXITSTATUS\<close> of the child.
\<close>

datatype forked = ForkFailed | InChild bool | InParent int int

datatype outcome = Returns int | Exits int | Replaced    \<comment> \<open>by another program\<close>

definition is_valid_interface :: "string \<Rightarrow> forked \<Rightarrow> outcome \<times> out list" where
  "is_valid_interface err pid =
     (case pid of
        ForkFailed \<Rightarrow> (Returns (- 1), [OStr ''fork failed ('', OStr err, OStr '')''])
      | InChild failed \<Rightarrow>
          if failed then (Exits 5, [OStr ''execl failed ('', OStr err, OStr '')'', newline]) else (Replaced, [])
      | InParent exited status \<Rightarrow>
          let o1 = [OStr ''WIFEXITED(status)='', OInt exited, OStr '', WEXITSTATUS(status)='', OInt status, newline] in
          if exited = 0 then (Returns 0, o1 @ [OStr ''Wrong terminate...'', newline])
          else if status \<noteq> 0 then (Returns 0, o1 @ [OStr ''Invalid interface'', newline])
          else (Returns 1, o1))"

definition execl_main :: "string list \<Rightarrow> string \<Rightarrow> forked \<Rightarrow> out list \<times> outcome" where
  "execl_main argv err pid =
     (if length argv \<noteq> 2 then ([OStr ''Invalid arg number'', newline], Returns 0)
      else
        let (r, os) = is_valid_interface err pid in
        case r of
          Returns v \<Rightarrow> (os @ (if v \<noteq> 0 then [OStr (argv ! 1), OStr '' is valid'', newline] else []), Returns 0)
        | _ \<Rightarrow> (os, r))"

section \<open>A record in a binary file\<close>

text \<open>
  \<^verbatim>\<open>struct player\<close>: the number, five bytes of name, three bytes of padding. \<open>fopen_w\<close> and \<open>fopen_r\<close> say whether
  the file can be opened; the file is what was written.
\<close>

record player =
  jersey_num :: int
  pname :: "nat list"

definition player_bytes :: "player \<Rightarrow> mem" where
  "player_bytes p = le_enc 4 (nat (jersey_num p mod 4294967296)) @ pname p @ replicate 3 0"

definition player_of :: "mem \<Rightarrow> player" where
  "player_of m =
     \<lparr>jersey_num = (let n = int (le_nat (take 4 m)) in if n < 2147483648 then n else n - 4294967296),
      pname = take 5 (drop 4 m)\<rparr>"

definition player_line :: "string \<Rightarrow> string \<Rightarrow> player \<Rightarrow> out list cres" where
  "player_line name_label num_label p =
     bnd (c_text (pname p)) (\<lambda>s. ret [OStr name_label, OStr s, OStr num_label, OInt (jersey_num p), newline])"

definition write_binary_main :: "bool \<Rightarrow> bool \<Rightarrow> (out list \<times> int) cres" where
  "write_binary_main fopen_w fopen_r =
     (if \<not> fopen_w then ret ([OStr ''FILE open FAIL!'', newline], - 1)
      else
        let zero = \<lparr>jersey_num = 0, pname = replicate 5 0\<rparr>;
            kobe = \<lparr>jersey_num = 24, pname = map of_char ''kobe'' @ [0]\<rparr>; file = player_bytes kobe in
        bnd (player_line ''[write] ptr->name='' '', ptr->jersey_num='' zero) (\<lambda>o1.
        bnd (player_line ''[write] ptr->name='' '', ptr->jersey_num='' kobe) (\<lambda>o2.
        bnd (player_line ''[read] play.name='' '', play.jersey_num='' zero) (\<lambda>o3.
        let o4 = o1 @ o2 @ [OStr ''Write finish'', newline] @ o3 in
        if \<not> fopen_r then ret (o4 @ [OStr ''FILE open FAIL!'', newline], - 1)
        else bnd (player_line ''[read] ptr->name='' '', ptr->jersey_num='' (player_of file)) (\<lambda>o5.
               ret (o4 @ o5 @ [OStr ''Read finish'', newline], 0))))))"

section \<open>Lemmas\<close>

lemma gcd_c_pos:
  "0 < i \<Longrightarrow> 0 < j \<Longrightarrow> in_int i \<Longrightarrow> in_int j \<Longrightarrow> gcd_c i j = ret (gcd i j)"
proof (induction "nat (i + j)" arbitrary: i j rule: less_induct)
  case less
  show ?case
  proof (cases i j rule: linorder_cases)
    case less': less
    then have "gcd_c i (j - i) = ret (gcd i (j - i))"
      using less.prems by (intro less.hyps) (auto simp: int_range_defs)
    then show ?thesis
      using less' less.prems gcd_diff1 [of j i]
      by (subst gcd_c.simps) (simp add: int_range_defs gcd.commute)
  next
    case greater
    then have "gcd_c (i - j) j = ret (gcd (i - j) j)"
      using less.prems by (intro less.hyps) (auto simp: int_range_defs)
    then show ?thesis
      using greater less.prems gcd_diff1 [of i j] by (subst gcd_c.simps) (simp add: int_range_defs)
  next
    case equal
    then show ?thesis using less.prems by (subst gcd_c.simps) simp
  qed
qed

lemma gcd_c_zero: "gcd_c i j = Some r \<Longrightarrow> \<not> (i = 0 \<and> 0 < j \<and> in_int j)"
  by (erule gcd_c.raw_induct [where P = "\<lambda>i j r. \<not> (i = 0 \<and> 0 < j \<and> in_int j)", rotated])
    (auto split: if_splits; blast)

lemma takeWhile_neq: "x \<notin> set xs \<Longrightarrow> takeWhile (\<lambda>b. b \<noteq> x) (xs @ x # ys) = xs"
  by (induction xs) auto

lemma c_text_prefix:
  "0 \<notin> set xs \<Longrightarrow> c_text (xs @ 0 # ys) = ret (map char_of xs)"
  using takeWhile_neq [of 0 xs ys] by (simp add: c_text_def)

lemma c_text_padded:
  "0 < k \<Longrightarrow> 0 \<notin> set xs \<Longrightarrow> c_text (xs @ replicate k 0) = ret (map char_of xs)"
  by (cases k) (simp_all add: c_text_prefix)

text \<open>
  A command output line is parsed right when its first word has fewer than twenty characters; the
  rows that follow have room for a hundred lines.
\<close>

lemma parse_line_ok:
  assumes "count < 100" and "length w < 20" and "CHR '' '' \<notin> set w" and "\<forall>c \<in> set w. of_char c \<noteq> (0 :: nat)"
  shows "parse_line count (w @ CHR '' '' # rest) =
    ret [OStr ''buff='', OStr (w @ CHR '' '' # rest), OStr ''tmp['', OInt (int count), OStr '']='', OStr w,
         newline, newline]"
proof -
  have tw: "takeWhile (\<lambda>c. c \<noteq> CHR '' '') (w @ CHR '' '' # rest) = w"
    by (rule takeWhile_neq [OF assms(3)])
  have "c_text (map of_char w @ 0 # replicate (19 - length w) 0) = ret (map (char_of \<circ> (of_char :: char \<Rightarrow> nat)) w)"
    using assms(4) by (subst c_text_prefix) (auto simp: comp_def)
  moreover have "replicate (20 - length w) (0 :: nat) = 0 # replicate (19 - length w) 0"
    using assms(2) by (simp flip: replicate_Suc add: Suc_diff_Suc numeral_eq_Suc)
  ultimately show ?thesis
    using assms(1,2) by (simp add: parse_line_def Let_def tw comp_def)
qed

lemma player_roundtrip:
  assumes "in_int (jersey_num p)" and "length (pname p) = 5"
  shows "player_of (player_bytes p) = p"
proof -
  have "le_nat (le_enc 4 (nat (jersey_num p mod 4294967296))) = nat (jersey_num p mod 4294967296)"
    by (rule le_nat_enc) (simp add: nat_less_iff)
  moreover have "jersey_num p mod 4294967296 = (if 0 \<le> jersey_num p then jersey_num p else jersey_num p + 4294967296)"
    using assms(1) mod_pos_pos_trivial [of "jersey_num p + 4294967296" 4294967296]
    by (auto simp: int_range_defs mod_pos_pos_trivial)
  ultimately show ?thesis
    using assms by (simp add: player_of_def player_bytes_def int_range_defs)
qed

section \<open>The TCP programs together\<close>

text \<open>The lines for the first \<open>k\<close> failed attempts out of \<open>n\<close>.\<close>

definition retry_lines :: "nat \<Rightarrow> nat \<Rightarrow> out list" where
  "retry_lines n k =
     concat (map (\<lambda>i. [OStr ''Failed to connect to server, retry remain '', OInt (int (n - Suc i)), OStr '' time'', newline]) [0..<k])"

lemma retry_lines_Suc:
  "retry_lines (Suc n) (Suc k) =
     [OStr ''Failed to connect to server, retry remain '', OInt (int n), OStr '' time'', newline] @ retry_lines n k"
  by (simp add: retry_lines_def upt_conv_Cons map_Suc_upt [symmetric] comp_def del: upt_Suc)

lemma connect_loop_connects:
  "\<forall>i < k. connect (j + i) \<noteq> 0 \<Longrightarrow> k < n \<Longrightarrow> connect (j + k) = 0 \<Longrightarrow>
     connect_loop n connect j err = (0, Suc (j + k), retry_lines n k)"
proof (induction n arbitrary: j k err)
  case (Suc n)
  show ?case
  proof (cases k)
    case 0
    with Suc.prems show ?thesis by (simp add: retry_lines_def)
  next
    case (Suc m)
    have "connect j \<noteq> 0" using Suc.prems(1) Suc by force
    moreover have "connect_loop n connect (Suc j) (connect j) = (0, Suc (Suc j + m), retry_lines n m)"
      using Suc.prems Suc by (intro Suc.IH) auto
    ultimately show ?thesis using Suc by (simp add: retry_lines_Suc Let_def)
  qed
qed simp

lemma connect_loop_gives_up:
  "\<forall>i < Suc n. connect (j + i) \<noteq> 0 \<Longrightarrow>
     connect_loop (Suc n) connect j err = (connect (j + n), j + Suc n, retry_lines (Suc n) (Suc n))"
proof (induction n arbitrary: j err)
  case 0
  then show ?case by (simp add: retry_lines_def)
next
  case (Suc n)
  have "connect j \<noteq> 0" using Suc.prems by force
  moreover have "connect_loop (Suc n) connect (Suc j) (connect j) =
      (connect (Suc j + n), Suc j + Suc n, retry_lines (Suc n) (Suc n))"
    using Suc.prems by (intro Suc.IH) auto
  ultimately show ?case
    by (subst connect_loop.simps, subst retry_lines_Suc) (simp add: Let_def del: connect_loop.simps)
qed

text \<open>The buffer of the server keeps its last zero as long as fewer than 100 bytes arrive at once.\<close>

definition resp_ok :: "mem \<Rightarrow> bool" where
  "resp_ok resp \<longleftrightarrow> length resp = resp_size \<and> resp ! 99 = 0"

lemma c_text_ok: "resp_ok resp \<Longrightarrow> \<exists>s. c_text resp = ret s"
  using nth_mem [of 99 resp] by (auto simp: c_text_def resp_ok_def resp_size_def)

lemma server_round_ok:
  assumes "resp_ok resp" and "\<forall>bs. r = Some bs \<longrightarrow> length bs < resp_size"
  shows "\<exists>resp' os. server_round resp r = ret (resp', os) \<and> resp_ok resp'"
proof -
  define resp' where "resp' = (case r of None \<Rightarrow> resp | Some bs \<Rightarrow> bs @ drop (length bs) resp)"
  have "resp_ok resp'"
    using assms by (auto simp: resp'_def resp_ok_def resp_size_def nth_append split: option.splits)
  moreover from this obtain s where "c_text resp' = ret s" using c_text_ok by blast
  ultimately show ?thesis
    using assms(2) by (auto simp: server_round_def resp'_def Let_def split: option.splits)
qed

lemma server_loop_ok:
  "resp_ok resp \<Longrightarrow> \<forall>bs. Some bs \<in> set rs \<longrightarrow> length bs < resp_size \<Longrightarrow> \<exists>os. server_loop resp rs = ret os"
proof (induction rs arbitrary: resp)
  case (Cons r rs)
  have "\<forall>bs. r = Some bs \<longrightarrow> length bs < resp_size" using Cons.prems(2) by auto
  from server_round_ok [OF Cons.prems(1) this] obtain resp' os where
    "server_round resp r = ret (resp', os)" "resp_ok resp'" by blast
  moreover from Cons.IH [OF this(2)] Cons.prems(2) obtain os' where "server_loop resp' rs = ret os'" by auto
  ultimately show ?case by simp
qed simp

text \<open>The buffer holds nothing but zeros behind the first \<open>n\<close> bytes: a text of \<open>n\<close> bytes is printed as it is.\<close>

definition recv_line :: "int \<Rightarrow> string \<Rightarrow> out list" where
  "recv_line n s = [OStr ''Receive message (len='', OInt n, OStr '') from client: '', OStr s, newline]"

lemma server_round_text:
  assumes "length resp = resp_size" and "drop (length bs) resp = replicate (resp_size - length bs) 0"
    and "0 < length bs" and "length bs < resp_size" and "0 \<notin> set bs"
  shows "server_round resp (Some bs) =
    ret (bs @ replicate (resp_size - length bs) 0, recv_line (int (length bs)) (map char_of bs))"
  using assms c_text_padded [of "resp_size - length bs" bs]
  by (simp add: server_round_def recv_line_def Let_def)

lemma server_loop_same:
  assumes "0 < length bs" and "length bs < resp_size" and "0 \<notin> set bs"
  shows "length resp = resp_size \<Longrightarrow> drop (length bs) resp = replicate (resp_size - length bs) 0 \<Longrightarrow>
    server_loop resp (replicate n (Some bs) @ rs) =
      bnd (if n = 0 then server_loop resp rs else server_loop (bs @ replicate (resp_size - length bs) 0) rs) (\<lambda>os.
        ret (concat (replicate n (recv_line (int (length bs)) (map char_of bs))) @ os))"
proof (induction n arbitrary: resp)
  case (Suc n)
  let ?r = "bs @ replicate (resp_size - length bs) 0"
  have "server_loop ?r (replicate n (Some bs) @ rs) =
      bnd (if n = 0 then server_loop ?r rs else server_loop ?r rs) (\<lambda>os.
        ret (concat (replicate n (recv_line (int (length bs)) (map char_of bs))) @ os))"
    using assms(2) by (intro Suc.IH) auto
  then show ?case using server_round_text [OF Suc.prems assms] by (simp add: bnd_assoc)
qed (simp add: bnd_ret_right)

lemma client_text_bytes:
  assumes "pid < 2147483648"
  shows "length (client_text pid) < 64" and "0 < length (client_text pid)"
    and "client_msg pid = (client_text pid, length (client_text pid))"
    and "0 \<notin> set (map (of_char :: char \<Rightarrow> nat) (client_text pid))"
proof -
  have len: "length (client_text pid) \<le> 51" "0 < length (client_text pid)"
    using length_digits [of 10 pid] assms by (simp_all add: client_text_def dec_def)
  then show "length (client_text pid) < 64" "0 < length (client_text pid)"
    "client_msg pid = (client_text pid, length (client_text pid))" by (simp_all add: client_msg_def)
  show "0 \<notin> set (map (of_char :: char \<Rightarrow> nat) (client_text pid))"
    using digits_range by (fastforce simp: client_text_def dec_def)
qed

text \<open>The client that gives up, the client that sends, and the server that is given a text several times.\<close>

lemma tcp_client_gives_up:
  "pid < 2147483648 \<Longrightarrow> \<forall>i < 3. connect i \<noteq> 0 \<Longrightarrow>
     tcp_client_main True pid connect send = ret (retry_lines 3 3, - 1)"
  using connect_loop_gives_up [of 2 connect 0 0] client_text_bytes(3) [of pid]
  by (auto simp: tcp_client_main_def numeral_3_eq_3 simp del: connect_loop.simps)

lemma tcp_client_sends:
  assumes "pid < 2147483648" and "k < 3" and "\<forall>i < k. connect i \<noteq> 0" and "connect k = 0"
    and "\<forall>i < 10. send i = int (length (client_text pid))"
  shows "tcp_client_main True pid connect send = ret (retry_lines 3 k @
    concat (replicate 10 [OStr ''Send msg (len='', OInt (int (length (client_text pid))), OStr '')done...'', newline]), 0)"
proof -
  have "connect_loop 3 connect 0 0 = (0, Suc k, retry_lines 3 k)"
    using connect_loop_connects [of k connect 0 3 0] assms by simp
  moreover have "map (\<lambda>i. client_send (int (length (client_text pid))) (send i)) [0..<10] =
      replicate 10 [OStr ''Send msg (len='', OInt (int (length (client_text pid))), OStr '')done...'', newline]"
    using assms by (intro nth_equalityI) (auto simp: client_send_def)
  ultimately show ?thesis
    using client_text_bytes(3) [OF assms(1)] by (simp add: tcp_client_main_def del: connect_loop.simps)
qed

lemma tcp_server_repeats:
  assumes "0 < n" and "length msg < resp_size" and "0 < length msg" and "0 \<notin> set (map (of_char :: char \<Rightarrow> nat) msg)"
  shows "server_loop resp_initial (replicate n (Some (map of_char msg)) @ [Some [], None]) =
    ret (concat (replicate n (recv_line (int (length msg)) msg)) @ recv_line (- 1) msg)"
proof -
  let ?bs = "map of_char msg :: nat list" and ?z = "replicate (resp_size - length msg) (0 :: nat)"
  have "drop (length ?bs) resp_initial = replicate (resp_size - length ?bs) 0"
    using assms(3) by (cases msg) (simp_all add: resp_initial_def resp_size_def)
  moreover have "length resp_initial = resp_size" by (simp add: resp_initial_def resp_size_def)
  ultimately have "server_loop resp_initial (replicate n (Some ?bs) @ [Some [], None]) =
      bnd (server_loop (?bs @ ?z) [Some [], None]) (\<lambda>os.
        ret (concat (replicate n (recv_line (int (length msg)) msg)) @ os))"
    using server_loop_same [of ?bs resp_initial n] assms by (simp add: comp_def)
  moreover have "c_text (?bs @ ?z) = ret msg"
    using assms c_text_padded [of "resp_size - length msg" ?bs] by (simp add: comp_def)
  ultimately show ?thesis by (simp add: server_round_def recv_line_def)
qed

section \<open>Properties\<close>

text \<open>
  C39: For positive arguments the subtraction loop ends with their greatest common divisor, without
  overflow; when the first is zero and the second positive it never ends.
\<close>

theorem gcd_correct:
  assumes "0 \<le> i" and "0 < j" and "in_int i" and "in_int j"
  shows "gcd_c i j = (if i = 0 then None else ret (gcd i j))"
  using gcd_c_pos [of i j] gcd_c_zero [of i j] assms
  by (cases "i = 0"; cases "gcd_c i j") auto

theorem gcd_correct_witness: "gcd_c 10 13 = ret 1 \<and> gcd_c 0 5 = None"
  using gcd_correct [of 10 13] gcd_correct [of 0 5]
  by (simp add: int_range_defs gcd_red_int [of 10] gcd_red_int [of 13] gcd_red_int [of 3])



end
