(* ===== verification/Net_Programs.thy ===== *)
theory Net_Programs
  imports Small_Programs C_Bytes
begin

text \<open>
  Further short programs: \<^verbatim>\<open>network_socket/get_addr_info\<close>, the setup of the TCP server, the programs under
  \<^verbatim>\<open>ioctl\<close>, \<^verbatim>\<open>process/create_child_using_popen.c\<close>, \<^verbatim>\<open>c/string\<close>, \<^verbatim>\<open>pointer/ptr_to_string_array.c\<close> and
  \<^verbatim>\<open>file/write_text_file\<close>. What the kernel or the name service answers is an argument.
\<close>

section \<open>Name lookup\<close>

text \<open>
  The list \<^verbatim>\<open>getaddrinfo\<close> returns: family and bytes of \<^verbatim>\<open>sin_addr\<close>. \<open>ntop\<close> is \<^verbatim>\<open>inet_ntop\<close> for families other
  than \<^verbatim>\<open>AF_INET\<close>, which the programs do not ask for.
\<close>

record addrinfo =
  ai_family :: int
  ai_addr :: "nat list"

definition AF_INET :: int where "AF_INET = 2"

definition inet_ntop :: "(int \<Rightarrow> nat list \<Rightarrow> string) \<Rightarrow> int \<Rightarrow> nat list \<Rightarrow> string cres" where
  "inet_ntop ntop fam bs =
     (if fam = AF_INET then if length bs < 4 then fault OutOfBounds else ret (dotted_text bs) else ret (ntop fam bs))"

text \<open>The loop of \<^verbatim>\<open>get_addr_info.c\<close>: the family of \<^verbatim>\<open>current_info\<close>, the address of \<^verbatim>\<open>server_info\<close>.\<close>

fun addr_loop :: "(int \<Rightarrow> nat list \<Rightarrow> string) \<Rightarrow> addrinfo \<Rightarrow> int \<Rightarrow> addrinfo list \<Rightarrow> out list cres" where
  "addr_loop ntop server_info count [] = ret []"
| "addr_loop ntop server_info count (current_info # rest) =
     bnd (ck (count + 1)) (\<lambda>count.
     bnd (inet_ntop ntop (ai_family current_info) (ai_addr server_info)) (\<lambda>ipstr.
     bnd (addr_loop ntop server_info count rest) (\<lambda>os.
     ret ([OStr ''Remote address '', OInt count, OStr '' is '', OStr ipstr, newline] @ os))))"

text \<open>\<open>status\<close>, the list, and the text of \<^verbatim>\<open>gai_strerror\<close>.\<close>

definition get_addr_info_main ::
    "(int \<Rightarrow> nat list \<Rightarrow> string) \<Rightarrow> string list \<Rightarrow> int \<times> addrinfo list \<Rightarrow> string \<Rightarrow> (out list \<times> int) cres" where
  "get_addr_info_main ntop argv lookup gai_err =
     (if length argv < 2 then ret ([OStr ''Wrong args. Please specify remote address in arg'', newline], 1)
      else if fst lookup \<noteq> 0 then ret ([OStr ''getaddrinfo error: '', OStr gai_err, newline], 1)
      else bnd (case snd lookup of [] \<Rightarrow> ret [] | server_info # _ \<Rightarrow> addr_loop ntop server_info 0 (snd lookup)) (\<lambda>os.
        ret (os, 0)))"

section \<open>The TCP server\<close>

text \<open>\<^verbatim>\<open>ipv4\<close> is set for \<^verbatim>\<open>AF_INET\<close> only, and read for every entry.\<close>

fun listen_loop :: "(int \<Rightarrow> nat list \<Rightarrow> string) \<Rightarrow> nat list option \<Rightarrow> addrinfo list \<Rightarrow> out list cres" where
  "listen_loop ntop ipv4 [] = ret []"
| "listen_loop ntop ipv4 (ptr # rest) =
     (let ipv4 = (if ai_family ptr = AF_INET then Some (ai_addr ptr) else ipv4) in
      bnd (need Uninit ipv4) (\<lambda>a.
      bnd (inet_ntop ntop (ai_family ptr) a) (\<lambda>ipstr.
      bnd (listen_loop ntop ipv4 rest) (\<lambda>os. ret ([OStr ''ipstr='', OStr ipstr, newline] @ os)))))"

text \<open>
  What is printed until \<open>recvs\<close> are received, and the exit status; \<open>None\<close>: the receive loop has no exit. The
  results of \<^verbatim>\<open>socket\<close>, \<^verbatim>\<open>bind\<close> and \<^verbatim>\<open>listen\<close> are ignored by the program; that of \<^verbatim>\<open>accept\<close> is compared with 0, not
  with -1. When the lookup fails, \<^verbatim>\<open>status\<close> is read without having been assigned.
\<close>

definition tcp_server_main ::
    "(int \<Rightarrow> nat list \<Rightarrow> string) \<Rightarrow> string list \<Rightarrow> int \<times> addrinfo list \<Rightarrow> int \<Rightarrow> nat list option list \<Rightarrow> (out list \<times> int option) cres" where
  "tcp_server_main ntop argv lookup new_sockfd recvs =
     (if length argv < 2 then ret ([OStr ''Wrong args. Please specify bind port in arg'', newline], Some 1)
      else if fst lookup \<noteq> 0 then fault Uninit
      else
        bnd (listen_loop ntop None (snd lookup)) (\<lambda>o1.
        if snd lookup = [] then fault NullDeref
        else
          let o2 = [OStr ''Specify listening port: '', OStr (argv ! 1), newline] @ o1 @ [OStr ''waiting for accept..'', newline] in
          if new_sockfd \<noteq> 0
          then bnd (server_loop resp_initial recvs) (\<lambda>o3. ret (o2 @ [OStr ''A client connects!'', newline] @ o3, None))
          else ret (o2 @ [OStr ''Server Done'', newline], Some 0)))"

section \<open>A command in a pipe\<close>

text \<open>
  \<^verbatim>\<open>create_child_using_popen.c\<close>. The command is built in 128 bytes. \<open>pipe\<close>: \<open>None\<close> when \<^verbatim>\<open>popen\<close> fails, otherwise the
  lines \<^verbatim>\<open>fgets\<close> returns and the status of \<^verbatim>\<open>pclose\<close> with its two parts.
\<close>

definition popen_is_valid :: "string \<Rightarrow> (string list \<times> int \<times> int \<times> int) option \<Rightarrow> (out list \<times> int) cres" where
  "popen_is_valid iface_str pipe =
     bnd (strcpy_at (str_bytes ''ip route show dev '' @ replicate 109 (Some 0)) 18 iface_str) (\<lambda>buf.
     bnd (ostr buf) (\<lambda>cmd.
     let o1 = [OStr ''cmd='', OStr cmd, newline] in
     case pipe of
       None \<Rightarrow> ret (o1 @ [OStr ''Fail to run popen'', newline], 0)
     | Some (ls, exited, status, res) \<Rightarrow>
         ret (o1 @ [OStr ''popen run PASS'', newline] @ concat (map (\<lambda>l. [OStr ''buf='', OStr l, newline]) ls) @
              [OStr ''Return value of pclose is: WIFEXITED(res)='', OInt exited, OStr '', WEXITSTATUS(res)='', OInt status,
               OStr '', res='', OInt res, newline], 1)))"

definition popen_main :: "string list \<Rightarrow> (string list \<times> int \<times> int \<times> int) option \<Rightarrow> (out list \<times> int) cres" where
  "popen_main argv pipe =
     (if length argv \<noteq> 2 then ret ([OStr ''Invalid arg number'', newline], 0)
      else bnd (popen_is_valid (argv ! 1) pipe) (\<lambda>(os, v).
        ret (os @ (if v \<noteq> 0 then [OStr (argv ! 1), OStr '' is valid'', newline] else []), 0)))"

section \<open>Strings\<close>

text \<open>\<^verbatim>\<open>strtok_r(rest, ".", &rest)\<close>: the next token and what follows it.\<close>

definition strtok_r :: "char \<Rightarrow> string \<Rightarrow> (string \<times> string) option" where
  "strtok_r d s =
     (let s = dropWhile (\<lambda>c. c = d) s in
      if s = [] then None else Some (takeWhile (\<lambda>c. c \<noteq> d) s, drop 1 (dropWhile (\<lambda>c. c \<noteq> d) s)))"

lemma strtok_r_shorter: "strtok_r d s = Some (t, r) \<Longrightarrow> length r < length s"
proof -
  assume st: "strtok_r d s = Some (t, r)"
  then obtain c cs where c: "dropWhile (\<lambda>c. c = d) s = c # cs" by (cases "dropWhile (\<lambda>c. c = d) s") (auto simp: strtok_r_def)
  moreover have "c \<noteq> d" using hd_dropWhile [of "\<lambda>c. c = d" s] c by auto
  ultimately have "r = drop 1 (dropWhile (\<lambda>c. c \<noteq> d) cs)" using st by (simp add: strtok_r_def)
  then show ?thesis
    using c length_dropWhile_le [of "\<lambda>c. c \<noteq> d" cs] length_dropWhile_le [of "\<lambda>c. c = d" s] by simp
qed

function token_loop :: "char \<Rightarrow> string \<Rightarrow> string list" where
  "token_loop d rest = (case strtok_r d rest of None \<Rightarrow> [] | Some (token, rest) \<Rightarrow> token # token_loop d rest)"
  by pat_completeness auto
termination
  by (relation "measure (\<lambda>(d, s). length s)") (auto simp: strtok_r_shorter)

declare token_loop.simps [simp del]

definition string_token_main :: "out list \<times> int" where
  "string_token_main = (concat (map (\<lambda>t. [OStr t, newline]) (token_loop (CHR ''.'') ''192.168.42.1'')), 0)"

definition strchr :: "string \<Rightarrow> char \<Rightarrow> string option" where
  "strchr buf ch = (if ch \<in> set buf then Some (dropWhile (\<lambda>c. c \<noteq> ch) buf) else None)"

definition strrchr :: "string \<Rightarrow> char \<Rightarrow> string option" where
  "strrchr buf ch = (if ch \<in> set buf then Some (ch # rev (takeWhile (\<lambda>c. c \<noteq> ch) (rev buf))) else None)"

text \<open>\<open>at\<close>: the address of \<^verbatim>\<open>buf\<close>.\<close>

definition strchr_main :: "nat \<Rightarrow> (out list \<times> int) cres" where
  "strchr_main at =
     (let buf = ''computer program''; ch = CHR ''p''; quote = OStr [CHR 0x27] in
      bnd (need NullDeref (strchr buf ch)) (\<lambda>first.
      bnd (need NullDeref (strrchr buf ch)) (\<lambda>last_p.
      ret ([OStr ''The first occurrence of '', OChar (of_char ch), OStr '' in '', quote, OStr buf, quote, OStr '' is '', quote, OStr first, quote, newline,
            OStr ''The last occurrence of '', OChar (of_char ch), OStr '' in '', OStr buf, OStr '' is '', OStr last_p,
            OStr '' ('', OPtr (at + (length buf - length last_p)), OStr '')'', newline], 0))))"

text \<open>Fifty pointers, five of them set; ten are printed.\<close>

definition string_array :: "string option list" where
  "string_array = (map Some [''C'', ''C++'', ''Java'', ''VBA''] @ replicate 46 None)[4 := Some ''Sander'']"

definition string_array_main :: "(out list \<times> int) cres" where
  "string_array_main =
     bnd (for_up 0 10 (\<lambda>i os. bnd (rd string_array i) (\<lambda>p. bnd (need NullDeref p) (\<lambda>s.
       ret (os @ [OStr ''String '', OInt (i + 1), OStr '' : '', OStr s, newline])))) []) (\<lambda>os. ret (os, 0))"

section \<open>A number as text and as bytes\<close>

text \<open>The contents of the files \<^verbatim>\<open>text\<close> and \<^verbatim>\<open>bin\<close>; the arguments say whether they can be opened.\<close>

definition write_text_main :: "bool \<Rightarrow> bool \<Rightarrow> (string \<times> mem \<times> int) cres" where
  "write_text_main fopen_text fopen_bin =
     (let num = 12345 in
      if \<not> fopen_text then fault NullDeref
      else if \<not> fopen_bin then fault NullDeref
      else ret (dec num, le_enc 4 num, 0))"

section \<open>Interface requests\<close>

text \<open>
  \<^verbatim>\<open>ifconfig_test.c\<close>: the structure is cleared, so an \<^verbatim>\<open>ioctl\<close> that fails (\<open>None\<close>), which is not noticed, leaves zeros.
  Bit 0 of the flags is \<^verbatim>\<open>IFF_UP\<close>.
\<close>

definition ifconfig_main :: "nat option \<Rightarrow> nat list option \<Rightarrow> out list \<times> int" where
  "ifconfig_main flags addr =
     ([OStr (if odd (case flags of None \<Rightarrow> 0 | Some f \<Rightarrow> f) then ''wlan0 is up!'' else ''wlan0 is not up''), newline,
       OStr (dotted_text (case addr of None \<Rightarrow> [0, 0, 0, 0] | Some a \<Rightarrow> a)), newline], 0)"

text \<open>
  \<^verbatim>\<open>modify_mac_address.c\<close>: the name in bytes 0 to 15 of \<^verbatim>\<open>struct ifreq\<close>, of which \<^verbatim>\<open>strncpy\<close> writes 15, then family and
  address; the rest of the 40 bytes is never written. \<open>ioctl\<close> is its result.
\<close>

definition hwaddr_request :: obuf where
  "hwaddr_request =
     (let name = map of_char ''docker0'' in
      map Some (name @ replicate (15 - length name) 0) @ [None] @ map Some [1, 0] @
      map Some [0x02, 0x42, 0xa9, 0x08, 0xc3, 0x0a] @ replicate 16 None)"

definition modify_mac_main :: "int \<Rightarrow> string \<Rightarrow> out list \<times> int" where
  "modify_mac_main ioctl err = (if ioctl \<noteq> 0 then ([OStr ''ioctl: '', OStr err, newline], 1) else ([], 0))"

section \<open>What the programs print\<close>

text \<open>Every line of the address lookup shows the first address.\<close>

lemma addr_loop_first:
  assumes "\<forall>c \<in> set cs. ai_family c = AF_INET" and "4 \<le> length (ai_addr s)" and "0 \<le> count" and "in_int (count + int (length cs))"
  shows "addr_loop ntop s count cs = ret (concat (map (\<lambda>i. [OStr ''Remote address '', OInt (count + int i + 1), OStr '' is '',
    OStr (dotted_text (ai_addr s)), newline]) [0..<length cs]))"
  using assms(1,3,4)
proof (induction cs arbitrary: count)
  case (Cons c cs)
  have ok: "in_int (count + 1)" using Cons.prems(2,3) by (simp add: int_range_defs)
  have "addr_loop ntop s (count + 1) cs = ret (concat (map (\<lambda>i. [OStr ''Remote address '', OInt (count + 1 + int i + 1), OStr '' is '',
      OStr (dotted_text (ai_addr s)), newline]) [0..<length cs]))"
    using Cons.prems by (intro Cons.IH) (auto simp: add.assoc)
  moreover have "[0..<length (c # cs)] = 0 # map Suc [0..<length cs]" by (simp add: upt_conv_Cons map_Suc_upt del: upt_Suc)
  ultimately show ?case using Cons.prems(1) assms(2) ok by (simp add: inet_ntop_def comp_def add.assoc add.left_commute del: upt_Suc)
qed simp

text \<open>The tokens: none is empty or has a separator, and together they are the text without separators.\<close>

lemma token_loop_tokens:
  "(\<forall>t \<in> set (token_loop d s). t \<noteq> [] \<and> d \<notin> set t) \<and> concat (token_loop d s) = filter (\<lambda>c. c \<noteq> d) s"
proof (induction d s rule: token_loop.induct)
  case (1 d s)
  let ?s = "dropWhile (\<lambda>c. c = d) s"
  have f: "filter (\<lambda>c. c \<noteq> d) s = filter (\<lambda>c. c \<noteq> d) ?s" by (induction s) auto
  show ?case
  proof (cases "?s = []")
    case True
    then have "token_loop d s = []" by (subst token_loop.simps) (simp add: strtok_r_def)
    then show ?thesis using f True by simp
  next
    case False
    let ?t = "takeWhile (\<lambda>c. c \<noteq> d) ?s" and ?r = "drop 1 (dropWhile (\<lambda>c. c \<noteq> d) ?s)"
    have st: "strtok_r d s = Some (?t, ?r)" using False by (simp add: strtok_r_def Let_def)
    then have tl: "token_loop d s = ?t # token_loop d ?r" by (subst token_loop.simps) simp
    have "?t \<noteq> []" using False hd_dropWhile [of "\<lambda>c. c = d" s] by (cases ?s) auto
    moreover have "d \<notin> set ?t" by (auto dest: set_takeWhileD)
    moreover have cut: "filter (\<lambda>c. c \<noteq> d) u = takeWhile (\<lambda>c. c \<noteq> d) u @ filter (\<lambda>c. c \<noteq> d) (drop 1 (dropWhile (\<lambda>c. c \<noteq> d) u))" for u
      by (induction u) auto
    have "concat (token_loop d s) = filter (\<lambda>c. c \<noteq> d) s"
      unfolding tl f cut [of ?s] using "1.IH" [OF st refl] by simp
    moreover have "\<forall>t \<in> set (token_loop d ?r). t \<noteq> [] \<and> d \<notin> set t" using "1.IH" [OF st refl] by blast
    ultimately show ?thesis unfolding tl by simp
  qed
qed

lemma string_array_faults: "string_array_main = fault NullDeref"
  by (simp add: string_array_main_def for_up.simps string_array_def rd_def)

text \<open>Whatever the command reports, an interface name is valid when a shell could be started; a name of 110 characters overflows.\<close>

lemma popen_valid:
  assumes "c_string iface"
  shows "popen_is_valid iface (Some (ls, exited, status, res)) = fault OutOfBounds \<longleftrightarrow> 110 \<le> length iface"
    and "length iface < 110 \<Longrightarrow> \<exists>os. popen_is_valid iface (Some (ls, exited, status, res)) = ret (os, 1)"
proof -
  let ?b = "str_bytes ''ip route show dev '' @ replicate 109 (Some 0)"
  have len: "length ?b = 128" by simp
  have "\<exists>s. ostr (take 18 ?b @ str_bytes iface @ drop (18 + length iface + 1) ?b) = ret s" for iface'
  proof -
    have "take 18 ?b @ str_bytes iface = str_bytes (''ip route show dev '' @ iface)" by (simp add: str_bytes_def)
    moreover have "\<forall>c \<in> set (''ip route show dev '' @ iface). of_char c \<noteq> (0 :: nat)"
      using assms by (auto simp: c_string_def list_all_iff)
    ultimately show ?thesis
      using ostr_str_bytes [of "''ip route show dev '' @ iface" "drop (18 + length iface + 1) ?b"] by (metis append_assoc)
  qed
  then obtain s where s: "ostr (take 18 ?b @ str_bytes iface @ drop (18 + length iface + 1) ?b) = ret s" by blast
  show "popen_is_valid iface (Some (ls, exited, status, res)) = fault OutOfBounds \<longleftrightarrow> 110 \<le> length iface"
    using s by (auto simp: popen_is_valid_def strcpy_at_def Let_def)
  show "\<exists>os. popen_is_valid iface (Some (ls, exited, status, res)) = ret (os, 1)" if "length iface < 110"
    using s that by (auto simp: popen_is_valid_def strcpy_at_def Let_def)
qed

text \<open>The kernel reads the name up to its zero byte, the family and six bytes of address: all of them were written.\<close>

lemma hwaddr_request_initialised:
  "length hwaddr_request = 40 \<and> ostr hwaddr_request = ret ''docker0''
   \<and> take 8 (drop 16 hwaddr_request) = map Some [1, 0, 0x02, 0x42, 0xa9, 0x08, 0xc3, 0x0a]"
  by code_simp

text \<open>A server whose \<^verbatim>\<open>accept\<close> failed reports a client.\<close>

lemma server_accept_failed:
  "\<exists>os. tcp_server_main ntop [p, port] (0, [\<lparr>ai_family = AF_INET, ai_addr = [0, 0, 0, 0]\<rparr>]) (- 1) [None] = ret (os, None)
     \<and> OStr ''A client connects!'' \<in> set os \<and> OInt (- 1) \<in> set os"
  by (simp add: tcp_server_main_def inet_ntop_def server_round_def Let_def c_text_def resp_initial_def)

end
