(* ===== verification/Mem_Examples.thy ===== *)
theory Mem_Examples
  imports C_Prelude "HOL-Library.Multiset"
begin

text \<open>
  The examples about arrays, addresses and containers: \<^verbatim>\<open>src/array\<close>, \<^verbatim>\<open>src/pointer/pointer.c\<close>,
  \<^verbatim>\<open>src/heap\<close>, \<^verbatim>\<open>src/mmap\<close>, \<^verbatim>\<open>src/process/get_pid\<close>, \<^verbatim>\<open>src/other/test_NULL.c\<close> and the C++ programs
  under \<^verbatim>\<open>src/c++\<close>. Addresses of variables are arguments. A container of the C++ library is the list
  of its elements.
\<close>

section \<open>Arrays\<close>

text \<open>
  \<^verbatim>\<open>int A[2][3]\<close>: rows of three. An index behind the end of its row is outside the array it is
  applied to, even where another row follows.
\<close>

definition array_A :: "int list list" where
  "array_A = [[1, 2, 3], [4, 5, 6]]"

definition elem_at :: "int list list \<Rightarrow> int \<Rightarrow> int \<Rightarrow> int cres" where
  "elem_at A i j = bnd (rd A i) (\<lambda>row. rd row j)"

definition array_bond_main :: "(out list \<times> int) cres" where
  "array_bond_main =
     bnd (elem_at array_A 1 0) (\<lambda>x.
     bnd (elem_at array_A 0 3) (\<lambda>y.
       ret ([OStr ''A[1][0]='', OInt x, OStr '', A[0][3]='', OInt y, newline], 0)))"

text \<open>\<^verbatim>\<open>sizeof(a)\<close> and \<^verbatim>\<open>sizeof(a)/sizeof(a[0])\<close> of an array of \<open>n\<close> elements of \<open>bytes\<close> bytes.\<close>

definition size_line :: "string \<Rightarrow> nat \<Rightarrow> nat \<Rightarrow> out list" where
  "size_line label n bytes =
     [OStr label, OStr ''. size='', OInt (int (n * bytes)), OStr '', len= '', OInt (int (n * bytes div bytes)), newline]"

definition check_array_size_main :: "out list \<times> int" where
  "check_array_size_main =
     (let names1 = map Some [''A'', ''B'', ''C'']; names11 = [''AAA'', ''BBBB'', ''CCCC''];
          names2 = map Some [''A'', '''', ''C'']; names3 = map Some ['''', ''A'', ''C'', ''''];
          names4 = map Some [''John'', ''Paul'', ''George'', ''Ringo''];
          names5 = [Some '''', Some ''B'', None, None, Some ''E''] in
      (size_line ''1'' (length names1) 8 @ size_line ''11'' (length names11) 5 @
       size_line ''2'' (length names2) 8 @ size_line ''3'' (length names3) 8 @
       size_line ''4'' (length names4) 8 @ size_line ''5'' (length names5) 8, 0))"

section \<open>Pointers\<close>

text \<open>\<^verbatim>\<open>int *ptr1[5]\<close> at address \<open>a\<close>; its elements are never set.\<close>

definition test1 :: "nat \<Rightarrow> out list cres" where
  "test1 a =
     bnd (for_up 0 5 (\<lambda>i os.
        bnd (rd (replicate 5 (None :: nat option)) i) (\<lambda>e. bnd (need Uninit e) (\<lambda>p.
          ret (os @ [OStr ''ptr1['', OInt i, OStr '']='', OPtr p, OStr '', ptr1+'', OInt i, OStr ''='',
                     OPtr (a + 8 * nat i), newline])))) []) (\<lambda>o1.
     for_up 0 5 (\<lambda>i os. ret (os @ [OStr ''&ptr1+'', OInt i, OStr ''='', OPtr (a + 40 * nat i), newline])) o1)"

definition show_ints :: "string \<Rightarrow> int list \<Rightarrow> out list cres" where
  "show_ints name xs =
     for_up 0 (int (length xs)) (\<lambda>i os. bnd (rd xs i) (\<lambda>v.
       ret (os @ [OStr name, OStr ''['', OInt i, OStr '']='', OInt v, OStr '' '']))) []"

text \<open>\<^verbatim>\<open>int bb[5]\<close> at address \<open>b\<close>; the note in the output is in Chinese.\<close>

definition plus_bytes :: "string \<Rightarrow> out list" where
  "plus_bytes n = [OStr '' ('', OStr [CHR 0xE5, CHR 0x8A, CHR 0xA0], OStr n, OStr '' bytes)'', newline]"

definition test2 :: "nat \<Rightarrow> out list cres" where
  "test2 b =
     bnd (show_ints ''bb'' [11, 22, 33, 44, 55]) (\<lambda>os.
       let ptr2 = b in
       ret (os @ [newline, OStr ''&bb[0]='', OPtr b, newline] @
            [OStr ''bb='', OPtr b, OStr '', bb+1='', OPtr (b + 4)] @ plus_bytes ''4'' @
            [OStr ''&bb='', OPtr b, OStr '', &bb+1='', OPtr (b + 20)] @ plus_bytes ''20'' @
            [OStr ''ptr2 stores '', OPtr ptr2, newline]))"

text \<open>
  \<^verbatim>\<open>int cc[5]\<close> at \<open>c\<close>, \<^verbatim>\<open>ptr3\<close> at \<open>p3\<close>, \<^verbatim>\<open>ptr33\<close> at \<open>p33\<close>. Memory is a map from the address of an
  object to its value; a pointer object holds an address.
\<close>

datatype cell_value = IntCell int | PtrCell nat

definition load_int :: "(nat \<rightharpoonup> cell_value) \<Rightarrow> nat \<Rightarrow> int cres" where
  "load_int m a = (case m a of Some (IntCell v) \<Rightarrow> ret v | _ \<Rightarrow> fault BadPointer)"

definition load_ptr :: "(nat \<rightharpoonup> cell_value) \<Rightarrow> nat \<Rightarrow> nat cres" where
  "load_ptr m a = (case m a of Some (PtrCell p) \<Rightarrow> ret p | _ \<Rightarrow> fault BadPointer)"

definition store_int :: "(nat \<rightharpoonup> cell_value) \<Rightarrow> nat \<Rightarrow> int \<Rightarrow> (nat \<rightharpoonup> cell_value) cres" where
  "store_int m a v = (case m a of Some (IntCell _) \<Rightarrow> ret (m(a \<mapsto> IntCell v)) | _ \<Rightarrow> fault BadPointer)"

definition test3_mem :: "nat \<Rightarrow> nat \<Rightarrow> nat \<Rightarrow> nat \<rightharpoonup> cell_value" where
  "test3_mem c p3 p33 =
     [c \<mapsto> IntCell 11, c + 4 \<mapsto> IntCell 22, c + 8 \<mapsto> IntCell 33, c + 12 \<mapsto> IntCell 44, c + 16 \<mapsto> IntCell 55,
      p3 \<mapsto> PtrCell c, p33 \<mapsto> PtrCell p3]"

definition test3 :: "nat \<Rightarrow> nat \<Rightarrow> nat \<Rightarrow> (out list \<times> (nat \<rightharpoonup> cell_value)) cres" where
  "test3 c p3 p33 =
     bnd (show_ints ''cc'' [11, 22, 33, 44, 55]) (\<lambda>o1.
     let m = test3_mem c p3 p33;
         o2 = [newline, newline, OStr ''##### ptr3 = cc; #####'', newline,
               OStr ''&cc[0]='', OPtr c, OStr '', cc='', OPtr c, OStr '', &cc='', OPtr c, newline] in
     bnd (load_ptr m p3) (\<lambda>ptr3.
     bnd (load_int m ptr3) (\<lambda>v.
     let o3 = [OStr ''ptr3 stores '', OPtr ptr3, OStr '', *ptr3='', OInt v, OStr '', &ptr3='', OPtr p3, newline,
               newline, OStr ''##### int **ptr33 = &ptr3; #####'', newline] in
     bnd (load_ptr m p33) (\<lambda>ptr33.
     bnd (load_ptr m ptr33) (\<lambda>q.
     bnd (load_int m q) (\<lambda>w.
     let o4 = [OStr ''&ptr33='', OPtr p33, OStr '', ptr33='', OPtr ptr33, OStr '', *ptr33='', OPtr q,
               OStr '', **ptr33='', OInt w, newline] in
     bnd (store_int m q 88) (\<lambda>m.
     bnd (load_ptr m p3) (\<lambda>ptr3.
     bnd (load_int m ptr3) (\<lambda>v.
       ret (o1 @ o2 @ o3 @ o4 @ [OStr ''*ptr3='', OInt v, newline], m))))))))))"

definition pointer_main :: "nat \<Rightarrow> nat \<Rightarrow> nat \<Rightarrow> nat \<Rightarrow> nat \<Rightarrow> (out list \<times> int) cres" where
  "pointer_main a b c p3 p33 =
     bnd (test1 a) (\<lambda>o1. bnd (test2 b) (\<lambda>o2. bnd (test3 c p3 p33) (\<lambda>(o3, _).
       ret ([OStr ''test 1: '', newline] @ o1 @ [newline, OStr ''test 2: '', newline] @ o2 @
            [newline, OStr ''test 3: '', newline] @ o3 @ [newline], 0))))"

section \<open>Single calls\<close>

definition get_pid_main :: "int \<Rightarrow> out list" where
  "get_pid_main p = [OStr ''my pid is '', OInt p, newline]"

text \<open>\<^verbatim>\<open>NULL == 0\<close> compares a null pointer constant with zero, which holds.\<close>

definition test_NULL_main :: "out list \<times> int" where
  "test_NULL_main = (let eq = True in (if eq then [OStr ''yes'', newline] else [], if eq then 1 else 0))"

text \<open>
  \<^verbatim>\<open>open\<close> and \<^verbatim>\<open>mmap\<close> of \<^verbatim>\<open>/proc/sla/vincent_mmap_test\<close>: the descriptor and the text of the error are
  arguments; the mapping is made and never used. The result has the descriptors closed.
\<close>

definition mmap_main :: "int \<Rightarrow> string \<Rightarrow> out list \<times> int list \<times> int" where
  "mmap_main fd errtext =
     (if fd = - 1 then ([OStr ''open mmap file failed:'', OStr errtext, newline], [], - 1)
      else ([], [fd], 0))"

section \<open>Blocks of the C++ heap\<close>

text \<open>\<^verbatim>\<open>new int\<close> and \<^verbatim>\<open>delete\<close> on the addresses in use; \<open>fresh\<close> is the next free one.\<close>

record new_heap =
  fresh :: nat
  live :: "nat list"

definition new_int :: "new_heap \<Rightarrow> nat \<times> new_heap" where
  "new_int h = (fresh h, h\<lparr>fresh := fresh h + 16, live := live h @ [fresh h]\<rparr>)"

definition delete_int :: "nat \<Rightarrow> new_heap \<Rightarrow> new_heap cres" where
  "delete_int p h = (if p \<in> set (live h) then ret (h\<lparr>live := remove1 p (live h)\<rparr>) else fault BadPointer)"

definition addr_line :: "string \<Rightarrow> nat \<Rightarrow> out list" where
  "addr_line name a = [OStr ''address of '', OStr name, OStr '' is '', OPtr a, newline]"

definition pointer_line :: "string \<Rightarrow> nat \<Rightarrow> nat \<Rightarrow> out list" where
  "pointer_line name a p = [OStr ''address of '', OStr name, OStr '' is '', OPtr a, OStr '', value is '', OPtr p, newline]"

text \<open>
  \<open>stk\<close> gives the addresses of the variables on the stack. \<^verbatim>\<open>delete b1,b2,b3,b4\<close> is a comma
  expression: it deletes \<^verbatim>\<open>b1\<close> and evaluates the others.
\<close>

definition heap_vs_stack_main :: "(string \<Rightarrow> nat) \<Rightarrow> new_heap \<Rightarrow> (out list \<times> new_heap) cres" where
  "heap_vs_stack_main stk h =
     (let (b1, h) = new_int h; (b2, h) = new_int h; (b3, h) = new_int h; (b4, h) = new_int h;
          os = concat (map (\<lambda>v. addr_line v (stk v)) [''a1'', ''a2'', ''a3'', ''a4'', ''a5'']) @
               pointer_line ''b1'' (stk ''b1'') b1 @ pointer_line ''b2'' (stk ''b2'') b2 @
               pointer_line ''b3'' (stk ''b3'') b3 @ pointer_line ''b4'' (stk ''b4'') b4 in
      bnd (delete_int b1 h) (\<lambda>h. ret (os, h)))"

section \<open>C++ containers\<close>

definition show_list :: "int list \<Rightarrow> out list" where
  "show_list xs = concat (map (\<lambda>i. [OInt i, OStr '' '']) xs) @ [newline]"

text \<open>\<^verbatim>\<open>insert_after(begin(), v)\<close> needs an element to insert behind.\<close>

fun insert_after_begin :: "int list \<Rightarrow> int \<Rightarrow> int list cres" where
  "insert_after_begin [] v = fault BadCall"
| "insert_after_begin (x # xs) v = ret (x # v # xs)"

text \<open>\<^verbatim>\<open>splice_after(begin(), other)\<close>: the elements of the other list go behind the first one; it is left empty.\<close>

fun splice_after_begin :: "int list \<Rightarrow> int list \<Rightarrow> (int list \<times> int list) cres" where
  "splice_after_begin [] ys = fault BadCall"
| "splice_after_begin (x # xs) ys = ret (x # ys @ xs, [])"

text \<open>\<^verbatim>\<open>merge\<close> requires both lists to be sorted.\<close>

fun merge_lists :: "int list \<Rightarrow> int list \<Rightarrow> int list" where
  "merge_lists [] ys = ys"
| "merge_lists xs [] = xs"
| "merge_lists (x # xs) (y # ys) = (if y < x then y # merge_lists (x # xs) ys else x # merge_lists xs (y # ys))"

definition fl_merge :: "int list \<Rightarrow> int list \<Rightarrow> (int list \<times> int list) cres" where
  "fl_merge xs ys = (if sorted xs \<and> sorted ys then ret (merge_lists xs ys, []) else fault BadCall)"

definition forward_list_insert_main :: "(out list \<times> int) cres" where
  "forward_list_insert_main =
     bnd (insert_after_begin [2, 3, 4, 5] 9) (\<lambda>l. ret (concat (map (\<lambda>i. [OInt i, newline]) l), 0))"

definition forward_list_reverse_main :: "out list \<times> int" where
  "forward_list_reverse_main = ([OStr ''After reverse: '', newline] @ show_list (rev [100, 3, 11, 4, 5]), 0)"

definition forward_list_remove_if_main :: "out list \<times> int" where
  "forward_list_remove_if_main =
     (let list1 = [100, 3, 11, 4, 5]; list2 = filter (\<lambda>n. \<not> n \<ge> 11) list1 in
      ([OStr ''Before remove_if: '', newline] @ show_list list1 @ [OStr ''After remove_if: '', newline] @ show_list list2, 0))"

definition forward_list_merge_main :: "(out list \<times> int) cres" where
  "forward_list_merge_main =
     bnd (fl_merge [100, 3, 11, 4, 5] [7, 8, 9, 10]) (\<lambda>(list1, _).
       ret ([OStr ''After merge: '', newline] @ show_list list1, 0))"

definition lengths_line :: "string \<Rightarrow> int list \<Rightarrow> int list \<Rightarrow> out list" where
  "lengths_line when xs ys =
     [OStr when, OStr '' Length of list1 is '', OInt (int (length xs)), OStr '', Length of list2 is '', OInt (int (length ys)), newline]"

definition forward_list_splice_main :: "(out list \<times> int) cres" where
  "forward_list_splice_main =
     (let list1 = [100, 3, 11, 4, 5]; list2 = [100, 111, 112, 115, 231];
          o1 = lengths_line ''[Before]'' list1 list2 @ [OStr ''list1: ''] @ show_list list1 @ [OStr ''list2: ''] @ show_list list2 in
      bnd (splice_after_begin list1 list2) (\<lambda>(list1, list2).
        ret (o1 @ [OStr ''After splice_after: '', newline] @ show_list list1 @ lengths_line ''[After]'' list1 list2, 0)))"

text \<open>\<^verbatim>\<open>vector<int> myvec(5)\<close> holds zeros; \<^verbatim>\<open>p\<close> is an index into it.\<close>

definition vector_main :: "(out list \<times> int) cres" where
  "vector_main =
     (let myvec = replicate 5 0; p = 0 in
      bnd (wr myvec p 10) (\<lambda>myvec.
      let p = p + 1 in
      bnd (wr myvec p 20) (\<lambda>myvec.
      bnd (wr myvec (p + 2) 100) (\<lambda>myvec.
        ret ([OStr ''myvec contains:''] @ concat (map (\<lambda>v. [OStr '' '', OInt v]) myvec) @ [newline], 0)))))"

section \<open>Results\<close>

text \<open>
  The comment in \<^verbatim>\<open>test_array_bond.c\<close> takes \<^verbatim>\<open>A[0][3]\<close> for \<^verbatim>\<open>A[1][0]\<close>: in memory the word behind the
  first row is the first one of the second row, but the index leaves the row it is applied to.
\<close>

lemma array_bond_out_of_row:
  "array_bond_main = fault OutOfBounds"
  "elem_at array_A 1 0 = ret (concat array_A ! 3)"
  by (simp_all add: array_bond_main_def elem_at_def array_A_def)

lemma size_line_count: "0 < bytes \<Longrightarrow> size_line l n bytes =
    [OStr l, OStr ''. size='', OInt (int n * int bytes), OStr '', len= '', OInt (int n), newline]"
  by (simp add: size_line_def)

text \<open>The first test of \<^verbatim>\<open>pointer.c\<close> prints pointers that were never set, so the program has no result.\<close>

lemma pointer_main_uninitialised: "pointer_main a b c p3 p33 = fault Uninit"
proof -
  have "test1 a = fault Uninit"
    unfolding test1_def by (subst for_up.simps) simp
  then show ?thesis by (simp add: pointer_main_def)
qed

lemma show_ints_five: "\<exists>os. show_ints name [11, 22, 33, 44, 55] = ret os"
  by (simp add: show_ints_def for_up_each upto.simps)

text \<open>The third test writes through two pointers: exactly the first word of the array changes.\<close>

lemma test3_writes_first:
  assumes "p3 \<notin> {c, c + 4, c + 8, c + 12, c + 16}" and "p33 \<notin> {c, c + 4, c + 8, c + 12, c + 16}" and "p3 \<noteq> p33"
  shows "\<exists>os. test3 c p3 p33 = ret (os, (test3_mem c p3 p33)(c \<mapsto> IntCell 88))"
proof -
  obtain os where "show_ints ''cc'' [11, 22, 33, 44, 55] = ret os" using show_ints_five by blast
  moreover have "test3_mem c p3 p33 p3 = Some (PtrCell c)" "test3_mem c p3 p33 p33 = Some (PtrCell p3)"
    "test3_mem c p3 p33 c = Some (IntCell 11)"
    using assms by (auto simp: test3_mem_def)
  ultimately show ?thesis
    using assms by (auto simp: test3_def load_int_def load_ptr_def store_int_def Let_def)
qed

text \<open>Three of the four blocks of \<^verbatim>\<open>heap_vs_stack_address.c\<close> are never freed.\<close>

lemma heap_vs_stack_leaks:
  assumes "\<forall>a \<in> set (live h). a < fresh h"
  shows "\<exists>os h'. heap_vs_stack_main stk h = ret (os, h')
    \<and> live h' = live h @ [fresh h + 16, fresh h + 32, fresh h + 48]"
proof -
  have "fresh h \<notin> set (live h)" using assms by auto
  then show ?thesis
    by (auto simp: heap_vs_stack_main_def new_int_def delete_int_def remove1_append)
qed

lemma mset_merge_lists: "mset (merge_lists xs ys) = mset xs + mset ys"
  by (induction xs ys rule: merge_lists.induct) auto

lemma set_merge_lists: "set (merge_lists xs ys) = set xs \<union> set ys"
  by (metis mset_merge_lists set_mset_mset set_mset_union)

text \<open>On sorted lists \<^verbatim>\<open>merge\<close> gives the sorted list of all elements; the program calls it with one that is not.\<close>

lemma fl_merge_correct:
  assumes "sorted xs" and "sorted ys"
  shows "fl_merge xs ys = ret (sort (xs @ ys), [])"
proof -
  have "sorted (merge_lists xs ys)"
    using assms by (induction xs ys rule: merge_lists.induct) (auto simp: set_merge_lists)
  then have "merge_lists xs ys = sort (xs @ ys)"
    using mset_merge_lists [of xs ys] by (metis mset_append properties_for_sort)
  then show ?thesis using assms by (simp add: fl_merge_def)
qed

lemma container_programs:
  "forward_list_merge_main = fault BadCall"
  "forward_list_insert_main = ret (concat (map (\<lambda>i. [OInt i, newline]) [2, 9, 3, 4, 5]), 0)"
  "forward_list_remove_if_main = ([OStr ''Before remove_if: '', newline] @ show_list [100, 3, 11, 4, 5] @
     [OStr ''After remove_if: '', newline] @ show_list [3, 4, 5], 0)"
  "vector_main = ret ([OStr ''myvec contains:''] @ concat (map (\<lambda>v. [OStr '' '', OInt v]) [10, 20, 0, 100, 0]) @ [newline], 0)"
  by (simp_all add: forward_list_merge_main_def fl_merge_def forward_list_insert_main_def
      forward_list_remove_if_main_def vector_main_def eval_nat_numeral)

lemma splice_lengths: "splice_after_begin xs ys = ret (zs, ws) \<Longrightarrow> ws = [] \<and> length zs = length xs + length ys"
  by (cases xs) auto

end
