(* ===== verification/Genl_Base.thy ===== *)
theory Genl_Base
  imports C_Bytes
begin

text \<open>
  What the generic netlink programs under \<^verbatim>\<open>src/socket/netlink_socket/generic_netlink\<close> share: the
  callbacks for errors, acknowledgements and the end of a dump, the lookup of a multicast group, and
  the loops that receive until a callback has set a variable.

  The library libnl and the header nl80211.h are not part of the repository. The record \<open>libnl\<close> holds
  the library functions that receive and parse; it is an argument of the definitions. Attributes
  and commands are named by the constructors of datatypes instead of numbers. The results of the
  remaining calls (allocation, sending) are arguments too. The locale \<open>libnl_recv\<close> states what
  libnl documents about receiving: the callbacks are called for the messages of the next datagram, in
  order, until one of them asks to stop.

  The variables that callbacks write through their argument pointer, and what has been printed, are
  the record \<open>cbstate\<close>. \<open>world\<close> adds the socket, the library objects that are still held, and the
  requests that were sent.
\<close>

section \<open>The interface of the library\<close>

datatype nl_cmd =
    CTRL_CMD_GETFAMILY | NL80211_CMD_TRIGGER_SCAN | NL80211_CMD_GET_SCAN | NL80211_CMD_NEW_SCAN_RESULTS
  | NL80211_CMD_SCAN_ABORTED | NL80211_CMD_GET_INTERFACE | NL80211_CMD_GET_STATION | OtherCmd nat

datatype ctrl_attr = CTRL_ATTR_FAMILY_NAME | CTRL_ATTR_MCAST_GROUPS

datatype mcgrp_attr = CTRL_ATTR_MCAST_GRP_NAME | CTRL_ATTR_MCAST_GRP_ID

datatype nl80211_attr =
    NL80211_ATTR_IFINDEX | NL80211_ATTR_IFNAME | NL80211_ATTR_MAC | NL80211_ATTR_STA_INFO
  | NL80211_ATTR_SCAN_FREQUENCIES | NL80211_ATTR_SCAN_SSIDS | NL80211_ATTR_BSS

datatype bss_attr =
    NL80211_BSS_BSSID | NL80211_BSS_FREQUENCY | NL80211_BSS_TSF | NL80211_BSS_BEACON_INTERVAL
  | NL80211_BSS_CAPABILITY | NL80211_BSS_INFORMATION_ELEMENTS | NL80211_BSS_SIGNAL_MBM
  | NL80211_BSS_SIGNAL_UNSPEC | NL80211_BSS_STATUS | NL80211_BSS_SEEN_MS_AGO | NL80211_BSS_BEACON_IES

datatype sta_attr =
    NL80211_STA_INFO_TX_BYTES | NL80211_STA_INFO_RX_BYTES | NL80211_STA_INFO_TX_PACKETS
  | NL80211_STA_INFO_RX_PACKETS | NL80211_STA_INFO_TX_BITRATE | NL80211_STA_INFO_RX_BITRATE
  | NL80211_STA_INFO_SIGNAL | NL80211_STA_INFO_CHAIN_SIGNAL

datatype rate_attr =
    NL80211_RATE_INFO_BITRATE | NL80211_RATE_INFO_MCS | NL80211_RATE_INFO_VHT_MCS
  | NL80211_RATE_INFO_VHT_NSS | NL80211_RATE_INFO_SHORT_GI | NL80211_RATE_INFO_40_MHZ_WIDTH
  | NL80211_RATE_INFO_80_MHZ_WIDTH

datatype nla_kind = NLA_UNSPEC | NLA_U8 | NLA_U16 | NLA_U32 | NLA_U64 | NLA_NESTED | NLA_FLAG

text \<open>An attribute: the type in its header, and its payload. \<^verbatim>\<open>nla_len()\<close> is the length of the payload.\<close>

record nlattr =
  nla_type :: nat
  nla_data :: "nat list"

type_synonym 'a nla_table = "'a \<Rightarrow> nlattr option"
type_synonym 'a nla_policy = "('a \<times> nla_kind) list"

datatype nl_action = NL_OK | NL_SKIP | NL_STOP

datatype 'm event = EvValid 'm | EvFinish | EvAck | EvError int

record cbstate =
  err :: int               \<comment> \<open>the variable of the error, acknowledge and finish handlers\<close>
  grp_id :: int
  scan_done :: int
  scan_aborted :: int
  callback_round :: int
  scan_result_count :: int
  iface_idx :: nat
  got :: int
  printed :: "out list"

type_synonym 'm callbacks = "'m event \<Rightarrow> cbstate \<Rightarrow> (cbstate \<times> nl_action) cres"

record ('k, 'm) libnl =
  nl_recvmsgs :: "'k \<Rightarrow> 'm callbacks \<Rightarrow> cbstate \<Rightarrow> ('k \<times> cbstate \<times> int) cres"
  default_action :: "'m event \<Rightarrow> nl_action"
  next_datagram :: "'k \<Rightarrow> ('m event list \<times> int \<times> 'k) option"   \<comment> \<open>its messages, the result, what is left\<close>
  cmd_of :: "'m \<Rightarrow> nl_cmd"
  parse_ctrl :: "'m \<Rightarrow> ctrl_attr nla_table"
  parse_mcgrp :: "nlattr \<Rightarrow> mcgrp_attr nla_table"
  parse_nl80211 :: "'m \<Rightarrow> nl80211_attr nla_table"
  nested :: "nlattr \<Rightarrow> nlattr list"                             \<comment> \<open>\<^verbatim>\<open>nla_for_each_nested\<close>\<close>
  parse_bss :: "nlattr \<Rightarrow> bss_attr nla_policy \<Rightarrow> bss_attr nla_table option"    \<comment> \<open>\<open>None\<close>: not zero\<close>
  parse_sta :: "nlattr \<Rightarrow> sta_attr nla_policy \<Rightarrow> sta_attr nla_table option"
  parse_rate :: "nlattr \<Rightarrow> rate_attr nla_policy \<Rightarrow> rate_attr nla_table option"
  nla_get_u32 :: "nlattr \<Rightarrow> nat cres"
  nla_get_u16 :: "nlattr \<Rightarrow> nat cres"
  nla_get_u8 :: "nlattr \<Rightarrow> nat cres"
  nla_get_string :: "nlattr \<Rightarrow> string cres"
  nla_get_flag :: "nlattr option \<Rightarrow> bool"
  STATUS_ASSOCIATED :: nat                                       \<comment> \<open>\<^verbatim>\<open>NL80211_BSS_STATUS_ASSOCIATED\<close>\<close>
  nl_geterror :: "int \<Rightarrow> string"
  cmd_value :: "nl_cmd \<Rightarrow> nat"                                   \<comment> \<open>the numbers of nl80211.h, where they are printed\<close>
  attr_value :: "nl80211_attr \<Rightarrow> nat"

text \<open>An attribute that a program reads without looking whether it is there.\<close>

definition get_attr :: "(nlattr \<Rightarrow> 'a cres) \<Rightarrow> nlattr option \<Rightarrow> 'a cres" where
  "get_attr f a = bnd (need NullDeref a) f"

text \<open>\<^verbatim>\<open>if (tb[i]) printf(...)\<close>.\<close>

definition show_attr :: "nlattr option \<Rightarrow> (nlattr \<Rightarrow> out list cres) \<Rightarrow> out list cres" where
  "show_attr a f = (case a of None \<Rightarrow> ret [] | Some x \<Rightarrow> f x)"

text \<open>A request: command, whether it asks for a dump, attributes.\<close>

datatype put_attr =
    PutU32 nl80211_attr nat
  | PutBytes nl80211_attr "nat list"
  | PutNest nl80211_attr "(nat \<times> nat list) list"
  | PutFamily string

record request =
  req_cmd :: nl_cmd
  req_dump :: bool
  req_attrs :: "put_attr list"

datatype nl_object = Message | SsidMessage | Callbacks | Membership int | Socket

record 'k world =
  sock :: 'k
  cbs :: cbstate
  held :: "nl_object list"
  sent :: "request list"

definition say :: "out list \<Rightarrow> cbstate \<Rightarrow> cbstate" where
  "say os s = s\<lparr>printed := printed s @ os\<rparr>"

definition wsay :: "out list \<Rightarrow> 'k world \<Rightarrow> 'k world" where
  "wsay os w = w\<lparr>cbs := say os (cbs w)\<rparr>"

definition hold :: "nl_object \<Rightarrow> 'k world \<Rightarrow> 'k world" where
  "hold x w = w\<lparr>held := x # held w\<rparr>"

definition release :: "nl_object \<Rightarrow> 'k world \<Rightarrow> 'k world" where
  "release x w = w\<lparr>held := remove1 x (held w)\<rparr>"

definition ENOENT :: int where "ENOENT = 2"
definition ENOMEM :: int where "ENOMEM = 12"
definition ENOBUFS :: int where "ENOBUFS = 105"

section \<open>The shared callbacks\<close>

definition error_handler :: "int \<Rightarrow> cbstate \<Rightarrow> cbstate \<times> nl_action" where
  "error_handler e s = ((say [OStr ''error_handler() called.'', newline] s)\<lparr>err := e\<rparr>, NL_STOP)"

definition finish_handler :: "cbstate \<Rightarrow> cbstate \<times> nl_action" where
  "finish_handler s = (s\<lparr>err := 0\<rparr>, NL_SKIP)"

definition ack_handler :: "cbstate \<Rightarrow> cbstate \<times> nl_action" where
  "ack_handler s = (s\<lparr>err := 0\<rparr>, NL_STOP)"

definition no_seq_check :: nl_action where
  "no_seq_check = NL_OK"

section \<open>Loops that receive\<close>

text \<open>
  \<^verbatim>\<open>while (cond) r = nl_recvmsgs(socket, cb);\<close> with something printed after each call; the result is the
  socket, the variables, and the result of the last call.
\<close>

partial_function (option) recv_while ::
    "('k, 'm) libnl \<Rightarrow> 'm callbacks \<Rightarrow> (cbstate \<Rightarrow> bool) \<Rightarrow> (int \<Rightarrow> out list) \<Rightarrow> 'k \<Rightarrow> cbstate \<Rightarrow> int
       \<Rightarrow> ('k \<times> cbstate \<times> int) cres" where
  "recv_while N cb cond report k s r =
     (if cond s
      then bnd (nl_recvmsgs N k cb s) (\<lambda>(k, s, r). recv_while N cb cond report k (say (report r) s) r)
      else ret (k, s, r))"

definition recv_error_line :: "('k, 'm) libnl \<Rightarrow> string \<Rightarrow> int \<Rightarrow> out list" where
  "recv_error_line N f r = [OStr f, OStr ''() returned '', OInt r, OStr '' ('', OStr (nl_geterror N (- r)), OStr '').'', newline]"

section \<open>Multicast groups\<close>

text \<open>\<^verbatim>\<open>strncmp(a, b, n) != 0\<close>.\<close>

fun strncmp_ne :: "nat \<Rightarrow> nat list \<Rightarrow> nat list \<Rightarrow> bool cres" where
  "strncmp_ne 0 as bs = ret False"
| "strncmp_ne (Suc n) (a # as) (b # bs) =
     (if a \<noteq> b then ret True else if a = 0 then ret False else strncmp_ne n as bs)"
| "strncmp_ne (Suc n) as bs = fault OutOfBounds"

definition c_bytes :: "string \<Rightarrow> nat list" where
  "c_bytes s = map of_char s @ [0]"

fun mcgrp_loop :: "('k, 'm) libnl \<Rightarrow> string \<Rightarrow> nlattr list \<Rightarrow> cbstate \<Rightarrow> cbstate cres" where
  "mcgrp_loop N grp [] s = ret s"
| "mcgrp_loop N grp (mcgrp # rest) s =
     (let tb = parse_mcgrp N mcgrp in
      case (tb CTRL_ATTR_MCAST_GRP_NAME, tb CTRL_ATTR_MCAST_GRP_ID) of
        (Some nm, Some i) \<Rightarrow>
          bnd (strncmp_ne (length (nla_data nm)) (nla_data nm) (c_bytes grp)) (\<lambda>ne.
            if ne then mcgrp_loop N grp rest s
            else bnd (nla_get_u32 N i) (\<lambda>v. ret (s\<lparr>grp_id := to_int v\<rparr>)))
      | _ \<Rightarrow> mcgrp_loop N grp rest s)"

definition family_handler :: "('k, 'm) libnl \<Rightarrow> string \<Rightarrow> 'm \<Rightarrow> cbstate \<Rightarrow> (cbstate \<times> nl_action) cres" where
  "family_handler N grp msg s =
     (case parse_ctrl N msg CTRL_ATTR_MCAST_GROUPS of
        None \<Rightarrow> ret (s, NL_SKIP)
      | Some g \<Rightarrow> bnd (mcgrp_loop N grp (nested N g) s) (\<lambda>s. ret (s, NL_SKIP)))"

text \<open>The results of the library calls; \<open>put_ok\<close>: \<^verbatim>\<open>NLA_PUT_STRING\<close> finds room.\<close>

record mc_calls =
  msg_alloc :: bool
  cb_alloc :: bool
  put_ok :: bool
  send_ret :: int

text \<open>The programs have the same text up to their handler for acknowledgements, \<open>ack\<close>.\<close>

definition multicast_cb ::
    "(cbstate \<Rightarrow> cbstate \<times> nl_action) \<Rightarrow> ('k, 'm) libnl \<Rightarrow> string \<Rightarrow> 'm callbacks" where
  "multicast_cb ack N grp e s =
     (case e of
        EvError c \<Rightarrow> ret (error_handler c s)
      | EvAck \<Rightarrow> ret (ack s)
      | EvValid m \<Rightarrow> family_handler N grp m s
      | _ \<Rightarrow> ret (s, default_action N e))"

definition nl_get_multicast_id ::
    "(cbstate \<Rightarrow> cbstate \<times> nl_action) \<Rightarrow> ('k, 'm) libnl \<Rightarrow> mc_calls \<Rightarrow> string \<Rightarrow> string \<Rightarrow> 'k world \<Rightarrow> (int \<times> 'k world) cres" where
  "nl_get_multicast_id ack N calls family grp w =
     (if \<not> msg_alloc calls then ret (- ENOMEM, w)
      else
        let w = hold Message w in
        if \<not> cb_alloc calls then ret (- ENOMEM, release Message w)
        else
          let w = hold Callbacks w; out = (\<lambda>r w. ret (r, release Message (release Callbacks w))) in
          if \<not> put_ok calls then out (- ENOBUFS) w
          else
            if send_ret calls < 0 then out (send_ret calls) w
            else
              let w = w\<lparr>sent := sent w @
                    [\<lparr>req_cmd = CTRL_CMD_GETFAMILY, req_dump = False, req_attrs = [PutFamily family]\<rparr>]\<rparr> in
              bnd (recv_while N (multicast_cb ack N grp) (\<lambda>s. 0 < err s) (\<lambda>_. []) (sock w)
                    ((cbs w)\<lparr>err := 1, grp_id := - ENOENT\<rparr>) 0) (\<lambda>(k, s, _).
                out (if err s = 0 then grp_id s else err s)
                  (w\<lparr>sock := k, cbs := s\<lparr>err := err (cbs w), grp_id := grp_id (cbs w)\<rparr>\<rparr>)))"

section \<open>What libnl promises about receiving\<close>

fun dispatch :: "'m callbacks \<Rightarrow> 'm event list \<Rightarrow> cbstate \<Rightarrow> cbstate cres" where
  "dispatch cb [] s = ret s"
| "dispatch cb (e # es) s = bnd (cb e s) (\<lambda>(s, a). if a = NL_STOP then ret s else dispatch cb es s)"

text \<open>The datagrams \<open>ds\<close>, each with its messages and the result of the call, are waiting on the socket.\<close>

fun arrives :: "('k, 'm) libnl \<Rightarrow> 'k \<Rightarrow> ('m event list \<times> int) list \<Rightarrow> 'k \<Rightarrow> bool" where
  "arrives N k [] k' \<longleftrightarrow> k' = k"
| "arrives N k ((es, r) # ds) k' \<longleftrightarrow> (\<exists>k1. next_datagram N k = Some (es, r, k1) \<and> arrives N k1 ds k')"

lemma arrives_append: "arrives N k (ds @ ds') k' \<longleftrightarrow> (\<exists>k1. arrives N k ds k1 \<and> arrives N k1 ds' k')"
  by (induction N k ds k' rule: arrives.induct) auto

text \<open>A datagram is quiet when its callbacks only print.\<close>

definition quiet :: "'m callbacks \<Rightarrow> 'm event list \<Rightarrow> bool" where
  "quiet cb es \<longleftrightarrow> (\<forall>s. \<exists>os. dispatch cb es s = ret (say os s))"

lemma say_say [simp]: "say ps (say os s) = say (os @ ps) s"
  by (simp add: say_def)

lemma say_Nil [simp]: "say [] s = s"
  by (simp add: say_def)

lemma quietI:
  assumes "\<And>e s. e \<in> set es \<Longrightarrow> \<exists>os. cb e s = ret (say os s, NL_SKIP)"
  shows "quiet cb es"
  unfolding quiet_def
proof
  fix s
  show "\<exists>os. dispatch cb es s = ret (say os s)"
    using assms
  proof (induction es arbitrary: s)
    case Nil
    then show ?case by (auto intro: exI [of _ "[]"])
  next
    case (Cons e es)
    obtain os where "cb e s = ret (say os s, NL_SKIP)" using Cons.prems [of e s] by auto
    moreover have "\<exists>ps. dispatch cb es (say os s) = ret (say ps (say os s))" by (rule Cons.IH) (use Cons.prems in auto)
    ultimately show ?case by auto
  qed
qed

lemma say_update:
  "say os (s\<lparr>err := e\<rparr>) = (say os s)\<lparr>err := e\<rparr>" "say os (s\<lparr>scan_done := d\<rparr>) = (say os s)\<lparr>scan_done := d\<rparr>"
  "say os (s\<lparr>scan_aborted := d\<rparr>) = (say os s)\<lparr>scan_aborted := d\<rparr>"
  "say os (s\<lparr>scan_result_count := d\<rparr>) = (say os s)\<lparr>scan_result_count := d\<rparr>"
  "say os (s\<lparr>callback_round := d\<rparr>) = (say os s)\<lparr>callback_round := d\<rparr>"
  "say os (s\<lparr>iface_idx := n\<rparr>) = (say os s)\<lparr>iface_idx := n\<rparr>" "say os (s\<lparr>got := d\<rparr>) = (say os s)\<lparr>got := d\<rparr>"
  by (simp_all add: say_def)

lemma say_fields [simp]:
  "err (say os s) = err s" "grp_id (say os s) = grp_id s" "scan_done (say os s) = scan_done s"
  "scan_aborted (say os s) = scan_aborted s" "iface_idx (say os s) = iface_idx s" "got (say os s) = got s"
  "callback_round (say os s) = callback_round s" "scan_result_count (say os s) = scan_result_count s"
  "printed (say os s) = printed s @ os"
  by (simp_all add: say_def)

lemma world_fields [simp]:
  "held (wsay os w) = held w" "sent (wsay os w) = sent w" "sock (wsay os w) = sock w" "cbs (wsay os w) = say os (cbs w)"
  "held (hold x w) = x # held w" "sent (hold x w) = sent w" "sock (hold x w) = sock w" "cbs (hold x w) = cbs w"
  "held (release x w) = remove1 x (held w)" "sent (release x w) = sent w" "sock (release x w) = sock w"
  "cbs (release x w) = cbs w"
  by (simp_all add: wsay_def hold_def release_def)

lemma recv_while_stop: "\<not> cond s \<Longrightarrow> recv_while N cb cond report k s r = ret (k, s, r)"
  by (subst recv_while.simps) simp

locale libnl_recv =
  fixes N :: "('k, 'm) libnl"
  assumes recv_law: "nl_recvmsgs N k cb s =
    (case next_datagram N k of None \<Rightarrow> None
     | Some (es, r, k') \<Rightarrow> bnd (dispatch cb es s) (\<lambda>s. ret (k', s, r)))"
begin

lemma recv_while_blocked:
  "cond s \<Longrightarrow> next_datagram N k = None \<Longrightarrow> recv_while N cb cond report k s r = None"
  by (subst recv_while.simps) (simp add: recv_law)

lemma recv_while_step:
  "cond s \<Longrightarrow> next_datagram N k = Some (es, r', k') \<Longrightarrow> dispatch cb es s = ret s' \<Longrightarrow>
     recv_while N cb cond report k s r = recv_while N cb cond report k' (say (report r') s') r'"
  by (subst recv_while.simps) (simp add: recv_law)

lemma recv_while_last:
  assumes "cond s" and "next_datagram N k = Some (es, r', k')" and "dispatch cb es s = ret s'"
    and "\<not> cond (say (report r') s')"
  shows "recv_while N cb cond report k s r = ret (k', say (report r') s', r')"
  using recv_while_step [where cond = cond and report = report and s = s, OF assms(1-3)] recv_while_stop [where cond = cond, OF assms(4)] by simp

lemma recv_while_quiet:
  assumes "arrives N k ds k'" and "\<forall>d \<in> set ds. quiet cb (fst d)" and "cond s"
    and "\<And>os s. cond (say os s) = cond s"
  shows "\<exists>os r'. recv_while N cb cond report k s r = recv_while N cb cond report k' (say os s) r'"
  using assms(1-3)
proof (induction ds arbitrary: k s r)
  case Nil
  then show ?case by (auto intro!: exI [of _ "[]"])
next
  case (Cons d ds)
  obtain es q where d: "d = (es, q)" by (cases d)
  with Cons.prems(1) obtain k1 where k1: "next_datagram N k = Some (es, q, k1)" "arrives N k1 ds k'" by auto
  from Cons.prems(2) d have "quiet cb es" by simp
  then obtain os where os: "dispatch cb es s = ret (say os s)" unfolding quiet_def by blast
  let ?s = "say (report q) (say os s)"
  have "recv_while N cb cond report k s r = recv_while N cb cond report k1 ?s q"
    by (rule recv_while_step [where cond = cond and s = s, OF Cons.prems(3) k1(1) os])
  moreover have "\<exists>os' r'. recv_while N cb cond report k1 ?s q = recv_while N cb cond report k' (say os' ?s) r'"
    using Cons.prems(2,3) assms(4) by (intro Cons.IH [OF k1(2)]) auto
  ultimately show ?case by auto
qed

text \<open>A loop that sees quiet datagrams and then one that ends it.\<close>

lemma recv_while_until:
  assumes "arrives N k (ds @ [(es, r2)]) k'" and "\<forall>d \<in> set ds. quiet cb (fst d)" and "cond s"
    and "\<And>os s. cond (say os s) = cond s"
    and "\<And>os. \<exists>os'. dispatch cb es (say os s) = ret (say os' t)" and "\<not> cond t"
  shows "\<exists>os. recv_while N cb cond report k s r = ret (k', say os t, r2)"
proof -
  obtain k1 where k1: "arrives N k ds k1" "next_datagram N k1 = Some (es, r2, k')"
    using assms(1) by (auto simp: arrives_append)
  obtain os r' where q: "recv_while N cb cond report k s r = recv_while N cb cond report k1 (say os s) r'"
    using recv_while_quiet [where cond = cond and report = report, OF k1(1) assms(2-4)] by blast
  obtain os' where os': "dispatch cb es (say os s) = ret (say os' t)" using assms(5) by blast
  have "recv_while N cb cond report k1 (say os s) r' = ret (k', say (report r2) (say os' t), r2)"
    using assms(3,4,6) by (intro recv_while_last [where cond = cond, OF _ k1(2) os']) auto
  then show ?thesis using q by auto
qed

text \<open>A loop that sees only quiet datagrams and then nothing waits for ever.\<close>

lemma recv_while_waits:
  assumes "arrives N k ds k'" and "next_datagram N k' = None" and "\<forall>d \<in> set ds. quiet cb (fst d)"
    and "cond s" and "\<And>os s. cond (say os s) = cond s"
  shows "recv_while N cb cond report k s r = None"
proof -
  obtain os r' where "recv_while N cb cond report k s r = recv_while N cb cond report k' (say os s) r'"
    using recv_while_quiet [where cond = cond and report = report, OF assms(1,3,4,5)] by blast
  also have "\<dots> = None" using recv_while_blocked [OF _ assms(2)] assms(4,5) by simp
  finally show ?thesis .
qed

end

section \<open>Finding a multicast group\<close>

lemma strncmp_ne_strings:
  "c_string a \<Longrightarrow> c_string b \<Longrightarrow> strncmp_ne (length (c_bytes a)) (c_bytes a) (c_bytes b) = ret (a \<noteq> b)"
proof (induction a arbitrary: b)
  case Nil
  then show ?case by (cases b) (auto simp: c_bytes_def c_string_def)
next
  case (Cons c a)
  show ?case
  proof (cases b)
    case Nil
    then show ?thesis using Cons.prems by (simp add: c_bytes_def c_string_def)
  next
    case (Cons d b')
    then show ?thesis using Cons.IH [of b'] Cons.prems by (simp add: c_bytes_def c_string_def)
  qed
qed

text \<open>The attribute \<open>x\<close> describes the group \<open>nm\<close> with the number \<open>i\<close>.\<close>

definition describes :: "('k, 'm) libnl \<Rightarrow> nlattr \<Rightarrow> string \<times> nat \<Rightarrow> bool" where
  "describes N x g \<longleftrightarrow> c_string (fst g) \<and>
     (\<exists>a b. parse_mcgrp N x CTRL_ATTR_MCAST_GRP_NAME = Some a \<and> nla_data a = c_bytes (fst g)
        \<and> parse_mcgrp N x CTRL_ATTR_MCAST_GRP_ID = Some b \<and> nla_get_u32 N b = ret (snd g))"

lemma mcgrp_loop_finds:
  "list_all2 (describes N) xs gs \<Longrightarrow> c_string grp \<Longrightarrow>
     mcgrp_loop N grp xs s =
       ret (case map_of gs grp of None \<Rightarrow> s | Some i \<Rightarrow> s\<lparr>grp_id := to_int i\<rparr>)"
proof (induction rule: list_all2_induct)
  case (Cons x xs g gs)
  obtain a b where ab: "parse_mcgrp N x CTRL_ATTR_MCAST_GRP_NAME = Some a" "nla_data a = c_bytes (fst g)"
    "parse_mcgrp N x CTRL_ATTR_MCAST_GRP_ID = Some b" "nla_get_u32 N b = ret (snd g)" "c_string (fst g)"
    using Cons.hyps(1) by (auto simp: describes_def)
  then have "strncmp_ne (length (nla_data a)) (nla_data a) (c_bytes grp) = ret (fst g \<noteq> grp)"
    using strncmp_ne_strings [OF ab(5) Cons.prems] by simp
  with ab Cons show ?case by (cases g) (auto simp: Let_def)
qed simp

text \<open>The number a program gets for a group, and that it gives back what it allocated.\<close>

definition group_id :: "(string \<times> nat) list \<Rightarrow> string \<Rightarrow> int" where
  "group_id gs grp = (case map_of gs grp of None \<Rightarrow> - ENOENT | Some i \<Rightarrow> to_int i)"

context libnl_recv
begin

lemma multicast_answer:
  assumes "arrives N (sock w) [([EvValid m], r1), ([EvAck], r2)] k'"
    and "parse_ctrl N m CTRL_ATTR_MCAST_GROUPS = Some g" and "list_all2 (describes N) (nested N g) gs"
    and "c_string grp" and "msg_alloc c" "cb_alloc c" "put_ok c" "0 \<le> send_ret c"
    and "\<And>s. ack s = ((say os s)\<lparr>err := 0\<rparr>, NL_STOP)"
  shows "nl_get_multicast_id ack N c fam grp w = ret (group_id gs grp,
    wsay os w\<lparr>sock := k', sent := sent w @ [\<lparr>req_cmd = CTRL_CMD_GETFAMILY, req_dump = False, req_attrs = [PutFamily fam]\<rparr>]\<rparr>)"
proof -
  let ?s = "(cbs w)\<lparr>err := 1, grp_id := - ENOENT\<rparr>"
  let ?s1 = "?s\<lparr>grp_id := group_id gs grp\<rparr>"
  obtain k1 where k1: "next_datagram N (sock w) = Some ([EvValid m], r1, k1)"
    "next_datagram N k1 = Some ([EvAck], r2, k')" using assms(1) by auto
  have "dispatch (multicast_cb ack N grp) [EvValid m] ?s = ret ?s1"
    using mcgrp_loop_finds [OF assms(3,4), of ?s] assms(2)
    by (simp add: multicast_cb_def family_handler_def group_id_def split: option.splits)
  moreover have "dispatch (multicast_cb ack N grp) [EvAck] ?s1 = ret ((say os ?s1)\<lparr>err := 0\<rparr>)"
    by (simp add: multicast_cb_def assms(9))
  ultimately have "recv_while N (multicast_cb ack N grp) (\<lambda>s. 0 < err s) (\<lambda>_. []) (sock w) ?s 0 =
      recv_while N (multicast_cb ack N grp) (\<lambda>s. 0 < err s) (\<lambda>_. []) k1 ?s1 r1"
    and "recv_while N (multicast_cb ack N grp) (\<lambda>s. 0 < err s) (\<lambda>_. []) k1 ?s1 r1 = ret (k', (say os ?s1)\<lparr>err := 0\<rparr>, r2)"
    using recv_while_step [where cond = "\<lambda>s. 0 < err s" and report = "\<lambda>_. []" and s = ?s, OF _ k1(1)]
      recv_while_last [where cond = "\<lambda>s. 0 < err s" and report = "\<lambda>_. []" and s = ?s1, OF _ k1(2)]
    by simp_all
  then show ?thesis
    using assms(5-8) by (simp add: nl_get_multicast_id_def Let_def hold_def release_def wsay_def say_def)
qed

lemma multicast_error:
  assumes "next_datagram N (sock w) = Some ([EvError e], r, k')" and "e < 0"
    and "msg_alloc c" "cb_alloc c" "put_ok c" "0 \<le> send_ret c"
  shows "\<exists>w'. nl_get_multicast_id ack N c fam grp w = ret (e, w') \<and> held w' = held w \<and> sock w' = k'"
proof -
  let ?s = "(cbs w)\<lparr>err := 1, grp_id := - ENOENT\<rparr>"
  have "dispatch (multicast_cb ack N grp) [EvError e] ?s = ret (fst (error_handler e ?s))"
    by (simp add: multicast_cb_def error_handler_def)
  then have "recv_while N (multicast_cb ack N grp) (\<lambda>s. 0 < err s) (\<lambda>_. []) (sock w) ?s 0 =
      ret (k', fst (error_handler e ?s), r)"
    using recv_while_last [where cond = "\<lambda>s. 0 < err s" and report = "\<lambda>_. []" and s = ?s, OF _ assms(1)] assms(2)
    by (simp del: dispatch.simps add: error_handler_def)
  then show ?thesis
    using assms(2-) by (simp add: nl_get_multicast_id_def Let_def hold_def release_def error_handler_def)
qed

end

section \<open>An instance of the library\<close>

text \<open>
  Attributes in memory: length with the header and type, two bytes each, then the payload, aligned to
  four bytes. Of several attributes with one type the last counts. Messages are a command number and
  the bytes of the attributes; the socket is the list of the datagrams that will arrive.
\<close>

function attrs_of :: "nat list \<Rightarrow> nlattr list" where
  "attrs_of bs =
     (let len = le_nat (take 2 bs) in
      if 4 \<le> length bs \<and> 4 \<le> len \<and> len \<le> length bs
      then \<lparr>nla_type = le_nat (take 2 (drop 2 bs)), nla_data = take (len - 4) (drop 4 bs)\<rparr>
           # attrs_of (drop ((len + 3) div 4 * 4) bs)
      else [])"
  by pat_completeness auto
termination
  by (relation "measure length") auto

declare attrs_of.simps [simp del]

definition lookup_attr :: "nat \<Rightarrow> nlattr list \<Rightarrow> nlattr option" where
  "lookup_attr n as = find (\<lambda>a. nla_type a = n) (rev as)"

definition min_len :: "nla_kind \<Rightarrow> nat" where
  "min_len k = (case k of NLA_U8 \<Rightarrow> 1 | NLA_U16 \<Rightarrow> 2 | NLA_U32 \<Rightarrow> 4 | NLA_U64 \<Rightarrow> 8 | _ \<Rightarrow> 0)"

definition parse_with :: "('a \<Rightarrow> nat) \<Rightarrow> nlattr \<Rightarrow> 'a nla_policy \<Rightarrow> 'a nla_table option" where
  "parse_with num a pol =
     (let as = attrs_of (nla_data a) in
      if list_all (\<lambda>(x, k). case lookup_attr (num x) as of None \<Rightarrow> True | Some b \<Rightarrow> min_len k \<le> length (nla_data b)) pol
      then Some (\<lambda>x. lookup_attr (num x) as) else None)"

primrec ctrl_no :: "ctrl_attr \<Rightarrow> nat" where
  "ctrl_no CTRL_ATTR_FAMILY_NAME = 2" | "ctrl_no CTRL_ATTR_MCAST_GROUPS = 7"

primrec mcgrp_no :: "mcgrp_attr \<Rightarrow> nat" where
  "mcgrp_no CTRL_ATTR_MCAST_GRP_NAME = 1" | "mcgrp_no CTRL_ATTR_MCAST_GRP_ID = 2"

primrec nl80211_no :: "nl80211_attr \<Rightarrow> nat" where
  "nl80211_no NL80211_ATTR_IFINDEX = 3" | "nl80211_no NL80211_ATTR_IFNAME = 4" | "nl80211_no NL80211_ATTR_MAC = 6"
| "nl80211_no NL80211_ATTR_STA_INFO = 21" | "nl80211_no NL80211_ATTR_SCAN_FREQUENCIES = 44"
| "nl80211_no NL80211_ATTR_SCAN_SSIDS = 45" | "nl80211_no NL80211_ATTR_BSS = 47"

primrec bss_no :: "bss_attr \<Rightarrow> nat" where
  "bss_no NL80211_BSS_BSSID = 1" | "bss_no NL80211_BSS_FREQUENCY = 2" | "bss_no NL80211_BSS_TSF = 3"
| "bss_no NL80211_BSS_BEACON_INTERVAL = 4" | "bss_no NL80211_BSS_CAPABILITY = 5"
| "bss_no NL80211_BSS_INFORMATION_ELEMENTS = 6" | "bss_no NL80211_BSS_SIGNAL_MBM = 7"
| "bss_no NL80211_BSS_SIGNAL_UNSPEC = 8" | "bss_no NL80211_BSS_STATUS = 9" | "bss_no NL80211_BSS_SEEN_MS_AGO = 10"
| "bss_no NL80211_BSS_BEACON_IES = 11"

primrec sta_no :: "sta_attr \<Rightarrow> nat" where
  "sta_no NL80211_STA_INFO_RX_BYTES = 2" | "sta_no NL80211_STA_INFO_TX_BYTES = 3" | "sta_no NL80211_STA_INFO_SIGNAL = 7"
| "sta_no NL80211_STA_INFO_TX_BITRATE = 8" | "sta_no NL80211_STA_INFO_RX_PACKETS = 9"
| "sta_no NL80211_STA_INFO_TX_PACKETS = 10" | "sta_no NL80211_STA_INFO_RX_BITRATE = 14"
| "sta_no NL80211_STA_INFO_CHAIN_SIGNAL = 25"

primrec rate_no :: "rate_attr \<Rightarrow> nat" where
  "rate_no NL80211_RATE_INFO_BITRATE = 1" | "rate_no NL80211_RATE_INFO_MCS = 2"
| "rate_no NL80211_RATE_INFO_40_MHZ_WIDTH = 3" | "rate_no NL80211_RATE_INFO_SHORT_GI = 4"
| "rate_no NL80211_RATE_INFO_VHT_MCS = 6" | "rate_no NL80211_RATE_INFO_VHT_NSS = 7"
| "rate_no NL80211_RATE_INFO_80_MHZ_WIDTH = 8"

definition cmd_no :: "nat \<Rightarrow> nl_cmd" where
  "cmd_no n =
     (if n = 5 then NL80211_CMD_GET_INTERFACE else if n = 17 then NL80211_CMD_GET_STATION
      else if n = 32 then NL80211_CMD_GET_SCAN else if n = 33 then NL80211_CMD_TRIGGER_SCAN
      else if n = 34 then NL80211_CMD_NEW_SCAN_RESULTS else if n = 35 then NL80211_CMD_SCAN_ABORTED else OtherCmd n)"

primrec cmd_num :: "nl_cmd \<Rightarrow> nat" where
  "cmd_num CTRL_CMD_GETFAMILY = 3" | "cmd_num NL80211_CMD_GET_INTERFACE = 5" | "cmd_num NL80211_CMD_GET_STATION = 17"
| "cmd_num NL80211_CMD_GET_SCAN = 32" | "cmd_num NL80211_CMD_TRIGGER_SCAN = 33" | "cmd_num NL80211_CMD_NEW_SCAN_RESULTS = 34"
| "cmd_num NL80211_CMD_SCAN_ABORTED = 35" | "cmd_num (OtherCmd n) = n"

definition get_le :: "nat \<Rightarrow> nlattr \<Rightarrow> nat cres" where
  "get_le n a = (if n \<le> length (nla_data a) then ret (le_nat (take n (nla_data a))) else fault OutOfBounds)"

type_synonym genl_msg = "nat \<times> nat list"

definition libnl3 :: "((genl_msg event list \<times> int) list, genl_msg) libnl" where
  "libnl3 = \<lparr>
     nl_recvmsgs = (\<lambda>k cb s. case k of [] \<Rightarrow> None | (es, r) # k' \<Rightarrow> bnd (dispatch cb es s) (\<lambda>s. ret (k', s, r))),
     default_action = (\<lambda>e. case e of EvValid _ \<Rightarrow> NL_OK | _ \<Rightarrow> NL_STOP),
     next_datagram = (\<lambda>k. case k of [] \<Rightarrow> None | (es, r) # k' \<Rightarrow> Some (es, r, k')),
     cmd_of = (\<lambda>m. cmd_no (fst m)),
     parse_ctrl = (\<lambda>m x. lookup_attr (ctrl_no x) (attrs_of (snd m))),
     parse_mcgrp = (\<lambda>a x. lookup_attr (mcgrp_no x) (attrs_of (nla_data a))),
     parse_nl80211 = (\<lambda>m x. lookup_attr (nl80211_no x) (attrs_of (snd m))),
     nested = (\<lambda>a. attrs_of (nla_data a)),
     parse_bss = parse_with bss_no, parse_sta = parse_with sta_no, parse_rate = parse_with rate_no,
     nla_get_u32 = get_le 4, nla_get_u16 = get_le 2, nla_get_u8 = get_le 1,
     nla_get_string = (\<lambda>a. ostr (map Some (nla_data a))),
     nla_get_flag = (\<lambda>a. a \<noteq> None), STATUS_ASSOCIATED = 1, nl_geterror = (\<lambda>_. ''error''),
     cmd_value = cmd_num, attr_value = nl80211_no\<rparr>"

interpretation libnl3: libnl_recv libnl3
  by unfold_locales (simp add: libnl3_def split: list.splits)

lemma libnl3_fields [simp]:
  "next_datagram libnl3 [] = None" "next_datagram libnl3 ((es, r) # k) = Some (es, r, k)"
  "cmd_of libnl3 m = cmd_no (fst m)" "nla_get_u32 libnl3 = get_le 4" "nla_get_u16 libnl3 = get_le 2"
  "nla_get_u8 libnl3 = get_le 1"
  "parse_ctrl libnl3 m x = lookup_attr (ctrl_no x) (attrs_of (snd m))"
  "parse_mcgrp libnl3 a y = lookup_attr (mcgrp_no y) (attrs_of (nla_data a))"
  "parse_nl80211 libnl3 m z = lookup_attr (nl80211_no z) (attrs_of (snd m))"
  "nested libnl3 a = attrs_of (nla_data a)" "parse_bss libnl3 = parse_with bss_no"
  "parse_sta libnl3 = parse_with sta_no" "parse_rate libnl3 = parse_with rate_no"
  "STATUS_ASSOCIATED libnl3 = 1" "nla_get_string libnl3 a = ostr (map Some (nla_data a))"
  "nla_get_flag libnl3 fl = (fl \<noteq> None)" "cmd_value libnl3 = cmd_num" "attr_value libnl3 = nl80211_no"
  by (simp_all add: libnl3_def)

lemma arrives_libnl3: "arrives libnl3 (ds @ k) ds k"
  by (induction ds) auto

text \<open>Parsing the bytes of attributes gives the attributes back.\<close>

lemma attrs_of_enc:
  "list_all attr_ok xs \<Longrightarrow>
     attrs_of (concat (map enc_attr xs)) = map (\<lambda>(t, d). \<lparr>nla_type = t, nla_data = d\<rparr>) xs"
proof (induction xs)
  case Nil
  then show ?case by (simp add: attrs_of.simps)
next
  case (Cons x xs)
  obtain t d where x: "x = (t, d)" by (cases x)
  let ?n = "4 + length d" and ?rest = "concat (map enc_attr xs)"
  let ?pad = "(?n + 3) div 4 * 4 - ?n"
  have ok: "?n < 256 ^ 2" "t < 256 ^ 2" using Cons.prems x by (auto simp: attr_ok_def)
  have pad: "?n \<le> (?n + 3) div 4 * 4" by linarith
  have bs: "concat (map enc_attr (x # xs)) = le_enc 2 ?n @ le_enc 2 t @ d @ replicate ?pad 0 @ ?rest"
    by (simp add: x enc_attr_def)
  have "drop ((?n + 3) div 4 * 4) (le_enc 2 ?n @ le_enc 2 t @ d @ replicate ?pad 0 @ ?rest) = ?rest"
    using pad by (simp add: drop_append)
  moreover have "attrs_of ?rest = map (\<lambda>(t, d). \<lparr>nla_type = t, nla_data = d\<rparr>) xs"
    using Cons by simp
  ultimately show ?case
    unfolding bs by (subst attrs_of.simps) (simp add: x Let_def le_nat_enc [OF ok(1)] le_nat_enc [OF ok(2)])
qed

end
