(* ===== verification/Genl_Scan.thy ===== *)
theory Genl_Scan
  imports Genl_Base "HOL-Library.Sublist"
begin

text \<open>
  \<^verbatim>\<open>generic_netlink/scan.c\<close>: triggers a scan of the wireless interface, waits for its end and prints the
  networks that were found. \<^verbatim>\<open>example/example_scan.c\<close> is the same text, except that its \<^verbatim>\<open>main\<close> does not free
  the last message.
\<close>

section \<open>Addresses and network names\<close>

text \<open>\<^verbatim>\<open>sprintf\<close> to growing offsets of a buffer.\<close>

definition mac_addr_n2a :: "obuf \<Rightarrow> nat list \<Rightarrow> obuf cres" where
  "mac_addr_n2a mac_addr arg =
     bnd (for_up 0 6 (\<lambda>i (m, l).
       bnd (rd arg i) (\<lambda>b.
         if i = 0 then bnd (strcpy_at m l (hex2 b)) (\<lambda>m. ret (m, l + 2))
         else bnd (strcpy_at m l (CHR '':'' # hex2 b)) (\<lambda>m. ret (m, l + 3)))) (mac_addr, 0))
       (\<lambda>(m, l). ret m)"

definition isprint :: "nat \<Rightarrow> bool" where
  "isprint b \<longleftrightarrow> 32 \<le> b \<and> b \<le> 126"

text \<open>One byte of a name; 92 is the backslash.\<close>

definition ssid_char :: "nat \<Rightarrow> int \<Rightarrow> int \<Rightarrow> out list" where
  "ssid_char b i len =
     (if isprint b \<and> b \<noteq> 32 \<and> b \<noteq> 92 then [OChar (int b)]
      else if b = 32 \<and> (i \<noteq> 0 \<and> i \<noteq> len - 1) then [OStr '' '']
      else [OStr [CHR 0x5C, CHR ''x''], OStr (hex2 b)])"

function print_ssid :: "mem \<Rightarrow> int \<Rightarrow> int \<Rightarrow> out list cres" where
  "print_ssid m ie ielen =
     (if 2 \<le> ielen
      then bnd (rd m (ie + 1)) (\<lambda>l.
        if int l \<le> ielen
        then bnd (rd m ie) (\<lambda>t.
          if t = 0 \<and> l \<le> 32
          then for_up 0 (int l) (\<lambda>i os. bnd (rd m (ie + 2 + i)) (\<lambda>b. ret (os @ ssid_char b i (int l)))) []
          else print_ssid m (ie + (int l + 2)) (ielen - (int l + 2)))
        else ret [])
      else ret [])"
  by pat_completeness auto
termination
  by (relation "measure (\<lambda>(m, ie, ielen). nat ielen)") auto

declare print_ssid.simps [simp del]

section \<open>Callbacks\<close>

definition callback_trigger :: "('k, 'm) libnl \<Rightarrow> 'm \<Rightarrow> cbstate \<Rightarrow> cbstate \<times> nl_action" where
  "callback_trigger N msg s =
     (let s = say [OStr ''Got something.'', newline] s in
      if cmd_of N msg = NL80211_CMD_SCAN_ABORTED
      then ((say [OStr ''Got NL80211_CMD_SCAN_ABORTED.'', newline] s)\<lparr>scan_done := 1, scan_aborted := 1\<rparr>, NL_SKIP)
      else if cmd_of N msg = NL80211_CMD_NEW_SCAN_RESULTS
      then ((say [OStr ''Got NL80211_CMD_NEW_SCAN_RESULTS.'', newline] s)\<lparr>scan_done := 1, scan_aborted := 0\<rparr>, NL_SKIP)
      else (s, NL_SKIP))"

definition bss_policy :: "bss_attr nla_policy" where
  "bss_policy =
     [(NL80211_BSS_TSF, NLA_U64), (NL80211_BSS_FREQUENCY, NLA_U32), (NL80211_BSS_BSSID, NLA_UNSPEC),
      (NL80211_BSS_BEACON_INTERVAL, NLA_U16), (NL80211_BSS_CAPABILITY, NLA_U16),
      (NL80211_BSS_INFORMATION_ELEMENTS, NLA_UNSPEC), (NL80211_BSS_SIGNAL_MBM, NLA_U32),
      (NL80211_BSS_SIGNAL_UNSPEC, NLA_U8), (NL80211_BSS_STATUS, NLA_U32), (NL80211_BSS_SEEN_MS_AGO, NLA_U32),
      (NL80211_BSS_BEACON_IES, NLA_UNSPEC)]"

text \<open>The length in the header of an attribute counts the header, four bytes.\<close>

definition hdr_nla_len :: "nlattr \<Rightarrow> nat" where
  "hdr_nla_len a = 4 + length (nla_data a)"

text \<open>The line for one network.\<close>

definition print_bss :: "('k, 'm) libnl \<Rightarrow> bss_attr nla_table \<Rightarrow> nlattr \<Rightarrow> nlattr \<Rightarrow> out list cres" where
  "print_bss N bss bssid ies =
     bnd (mac_addr_n2a (replicate 20 None) (nla_data bssid)) (\<lambda>mac_addr.
     bnd (ostr mac_addr) (\<lambda>mac.
     bnd (get_attr (nla_get_u32 N) (bss NL80211_BSS_FREQUENCY)) (\<lambda>freq.
     bnd (get_attr (nla_get_u32 N) (bss NL80211_BSS_SIGNAL_MBM)) (\<lambda>mbm.
     bnd (c_div (to_int mbm) 100) (\<lambda>signal_level.
     bnd (get_attr (nla_get_u16 N) (bss NL80211_BSS_BEACON_INTERVAL)) (\<lambda>beacon_interval.
     bnd (print_ssid (nla_data ies) 0 (int (length (nla_data ies)))) (\<lambda>ssid.
       ret ([OStr mac, OStr '', '', OInt (to_int freq), OStr '' MHz, '', OInt signal_level, OStr '' dbm, '',
             OInt (int beacon_interval), OStr '' ms, ''] @ ssid @ [newline]))))))))"

definition callback_dump :: "('k, 'm) libnl \<Rightarrow> 'm \<Rightarrow> cbstate \<Rightarrow> (cbstate \<times> nl_action) cres" where
  "callback_dump N msg s =
     bnd (ck (callback_round s + 1)) (\<lambda>n.
     let s = say [newline, OStr ''callback_round '', OInt n, newline] (s\<lparr>callback_round := n\<rparr>);
         tb = parse_nl80211 N msg in
     case tb NL80211_ATTR_BSS of
       None \<Rightarrow> ret (say [OStr ''bss info missing!'', newline] s, NL_SKIP)
     | Some tb_bss \<Rightarrow>
         bnd (show_attr (tb NL80211_ATTR_IFINDEX) (\<lambda>a. bnd (nla_get_u32 N a) (\<lambda>v.
           ret [OStr ''NL80211_ATTR_IFINDEX: '', OInt (int v), OStr '' (len='', OInt (int (length (nla_data a))),
                OStr '' bytes), len='', OInt (int (hdr_nla_len a)), OStr '', type='', OInt (int (nla_type a)), newline]))) (\<lambda>o1.
         bnd (show_attr (tb NL80211_ATTR_SCAN_FREQUENCIES) (\<lambda>a. bnd (nla_get_u32 N a) (\<lambda>v.
           ret [OStr ''NL80211_ATTR_SCAN_FREQUENCIES: '', OInt (int v), OStr '', len='', OInt (int (hdr_nla_len a)),
                OStr '', type='', OInt (int (nla_type a)), newline]))) (\<lambda>o2.
         let s = say (o1 @ o2) s in
         case parse_bss N tb_bss bss_policy of
           None \<Rightarrow> ret (say [OStr ''failed to parse nested attributes!'', newline] s, NL_SKIP)
         | Some bss \<Rightarrow>
             (case bss NL80211_BSS_BSSID of
                None \<Rightarrow> ret (s, NL_SKIP)
              | Some bssid \<Rightarrow>
                  bnd (show_attr (bss NL80211_BSS_STATUS) (\<lambda>a. bnd (nla_get_u32 N a) (\<lambda>status.
                    if status = STATUS_ASSOCIATED N
                    then show_attr (bss NL80211_BSS_FREQUENCY) (\<lambda>f. bnd (nla_get_u32 N f) (\<lambda>v.
                      ret [OStr ''nl80211: Associated on this channel: '', OInt (int v), OStr '' MHz'', newline]))
                    else ret []))) (\<lambda>o3.
                  let s = say o3 s in
                  case bss NL80211_BSS_INFORMATION_ELEMENTS of
                    None \<Rightarrow> ret (s, NL_SKIP)
                  | Some ies \<Rightarrow> bnd (print_bss N bss bssid ies) (\<lambda>o4. ret (say o4 s, NL_SKIP)))))))"

section \<open>The scan\<close>

text \<open>The results of the library calls of one run.\<close>

record scan_calls =
  mc :: mc_calls
  trigger_msg :: bool
  ssids_msg :: bool
  trigger_cb :: bool
  modify_ret :: int
  trigger_sent :: int
  dump_msg :: bool
  dump_sent :: int
  if_index :: nat

definition trigger_cb_set :: "('k, 'm) libnl \<Rightarrow> 'm callbacks" where
  "trigger_cb_set N e s =
     (case e of
        EvValid m \<Rightarrow> ret (callback_trigger N m s)
      | EvError c \<Rightarrow> ret (error_handler c s)
      | EvFinish \<Rightarrow> ret (finish_handler s)
      | EvAck \<Rightarrow> ret (ack_handler s))"

text \<open>\<^verbatim>\<open>nla_put(msg, 1, 12, "BSP_WIFI_2G")\<close>: twelve bytes of a text with eleven characters.\<close>

definition trigger_request :: "nat \<Rightarrow> request" where
  "trigger_request idx =
     \<lparr>req_cmd = NL80211_CMD_TRIGGER_SCAN, req_dump = False,
      req_attrs = [PutU32 NL80211_ATTR_IFINDEX idx,
                   PutNest NL80211_ATTR_SCAN_SSIDS
                     [(1, take 12 (c_bytes ''BSP_WIFI_2G'')), (2, take 12 (c_bytes ''BSP_WIFI_5G''))]]\<rparr>"

definition do_scan_trigger :: "('k, 'm) libnl \<Rightarrow> scan_calls \<Rightarrow> 'k world \<Rightarrow> (int \<times> 'k world) cres" where
  "do_scan_trigger N c w =
     bnd (nl_get_multicast_id ack_handler N (mc c) ''nl80211'' ''scan'' (w\<lparr>cbs := (cbs w)\<lparr>scan_done := 0, scan_aborted := 0\<rparr>\<rparr>)) (\<lambda>(mcid, w).
     let w = (if 0 \<le> mcid then hold (Membership mcid) w else w) in
     if \<not> trigger_msg c
     then ret (- ENOMEM, wsay [OStr ''ERROR: Failed to allocate netlink message for msg.'', newline] w)
     else let w = hold Message w in
     if \<not> ssids_msg c
     then ret (- ENOMEM, release Message
            (wsay [OStr ''ERROR: Failed to allocate netlink message for ssids_to_scan.'', newline] w))
     else let w = hold SsidMessage w in
     if \<not> trigger_cb c
     then ret (- ENOMEM, release SsidMessage (release Message
            (wsay [OStr ''ERROR: Failed to allocate netlink callbacks.'', newline] w)))
     else
       let w = hold Callbacks w;
           w = (if modify_ret c < 0
                then wsay [OStr ''Could not register debug cb for outgoing packets.'', newline] w else w);
           w = (if 0 \<le> trigger_sent c then w\<lparr>sent := sent w @ [trigger_request (if_index c)]\<rparr> else w);
           w = wsay [OStr ''NL80211_CMD_TRIGGER_SCAN sent '', OInt (trigger_sent c), OStr '' bytes to the kernel.'', newline,
                     OStr ''Waiting for scan to complete...'', newline] w in
       bnd (recv_while N (trigger_cb_set N) (\<lambda>s. 0 < err s) (\<lambda>_. []) (sock w) ((cbs w)\<lparr>err := 1\<rparr>) (trigger_sent c))
         (\<lambda>(k, s, r).
       let w = w\<lparr>sock := k, cbs := s\<rparr>;
           w = (if err s < 0 then wsay [OStr ''WARNING: err has a value of '', OInt (err s), OStr ''.'', newline] w else w) in
       if r < 0 then ret (r, wsay (OStr ''ERROR: '' # recv_error_line N ''nl_recvmsgs'' r) w)
       else
         bnd (recv_while N (trigger_cb_set N) (\<lambda>s. scan_done s = 0) (\<lambda>_. []) (sock w) (cbs w) r) (\<lambda>(k, s, _).
         let w = w\<lparr>sock := k, cbs := s\<rparr> in
         if scan_aborted s \<noteq> 0 then ret (1, wsay [OStr ''ERROR: Kernel aborted scan.'', newline] w)
         else ret (0, release (Membership mcid) (release Callbacks (release Message
                (wsay [OStr ''Scan is done.'', newline] w)))))))"

definition dump_cb_set :: "('k, 'm) libnl \<Rightarrow> 'm callbacks" where
  "dump_cb_set N e s = (case e of EvValid m \<Rightarrow> callback_dump N m s | _ \<Rightarrow> ret (s, default_action N e))"

text \<open>\<open>frees\<close>: whether the message of the second request is freed, as \<^verbatim>\<open>scan.c\<close> does.\<close>

definition scan_main_with :: "bool \<Rightarrow> ('k, 'm) libnl \<Rightarrow> scan_calls \<Rightarrow> 'k world \<Rightarrow> (int \<times> 'k world) cres" where
  "scan_main_with frees N c w =
     bnd (do_scan_trigger N c (wsay [OStr ''interface index='', OInt (int (if_index c)), newline] w)) (\<lambda>(e, w).
       if e \<noteq> 0
       then ret (e, wsay [OStr ''do_scan_trigger() failed with '', OInt e, OStr ''.'', newline] w)
       else if \<not> dump_msg c then fault NullDeref
       else
         let w = hold Message w;
             w = (if 0 \<le> dump_sent c
                  then w\<lparr>sent := sent w @ [\<lparr>req_cmd = NL80211_CMD_GET_SCAN, req_dump = True,
                                            req_attrs = [PutU32 NL80211_ATTR_IFINDEX (if_index c)]\<rparr>]\<rparr>
                  else w);
             w = wsay [OStr ''NL80211_CMD_GET_SCAN sent '', OInt (dump_sent c), OStr '' bytes to the kernel.'', newline] w in
         bnd (nl_recvmsgs N (sock w) (dump_cb_set N) (cbs w)) (\<lambda>(k, s, r).
         let w = w\<lparr>sock := k, cbs := s\<rparr>; w = (if frees then release Message w else w) in
         if r < 0 then ret (r, wsay (OStr ''ERROR: '' # recv_error_line N ''nl_recvmsgs_default'' r) w)
         else ret (0, w)))"

definition scan_main :: "('k, 'm) libnl \<Rightarrow> scan_calls \<Rightarrow> 'k world \<Rightarrow> (int \<times> 'k world) cres" where
  "scan_main = scan_main_with True"

definition example_scan_main :: "('k, 'm) libnl \<Rightarrow> scan_calls \<Rightarrow> 'k world \<Rightarrow> (int \<times> 'k world) cres" where
  "example_scan_main = scan_main_with False"

section \<open>Addresses and names\<close>

lemma c_string_hex2: "b < 256 \<Longrightarrow> c_string (hex2 b)"
  by (auto simp: c_string_def hex2_def hex_char_def)

lemma for_up_rec: "i < n \<Longrightarrow> for_up i n f s = bnd (f i s) (for_up (i + 1) n f)"
  by (subst for_up.simps) simp

lemma c_string_append [simp]: "c_string (s @ t) \<longleftrightarrow> c_string s \<and> c_string t"
  by (simp add: c_string_def)


text \<open>Each step appends to the string that is in the buffer.\<close>

definition holds_str :: "obuf \<Rightarrow> string \<Rightarrow> bool" where
  "holds_str m s \<longleftrightarrow> c_string s \<and> (\<exists>r. m = str_bytes s @ r)"

lemma holds_str_ostr: "holds_str m s \<Longrightarrow> ostr m = ret s"
  using ostr_str_bytes by (auto simp: holds_str_def c_string_def list_all_iff)

lemma strcpy_first:
  "c_string s \<Longrightarrow> length s < length m \<Longrightarrow> \<exists>m'. strcpy_at m 0 s = ret m' \<and> length m' = length m \<and> holds_str m' s"
  by (auto simp: strcpy_at_def holds_str_def)

lemma strcpy_next:
  assumes "holds_str m p" and "c_string s" and "length p + length s < length m"
  shows "\<exists>m'. strcpy_at m (length p) s = ret m' \<and> length m' = length m \<and> holds_str m' (p @ s)"
proof -
  obtain r where m: "m = str_bytes p @ r" using assms(1) by (auto simp: holds_str_def)
  then have "take (length p) m = map (\<lambda>c. Some (of_char c)) p" by (simp add: str_bytes_def)
  then have "take (length p) m @ str_bytes s = str_bytes (p @ s)" by (simp add: str_bytes_def)
  then have *: "take (length p) m @ str_bytes s @ drop (Suc (length p + length s)) m =
      str_bytes (p @ s) @ drop (Suc (length p + length s)) m" by (metis append_assoc)
  show ?thesis
    using assms by (auto simp: strcpy_at_def * holds_str_def)
qed

fun mac_prefix :: "nat list \<Rightarrow> nat \<Rightarrow> string" where
  "mac_prefix arg 0 = []"
| "mac_prefix arg (Suc i) = mac_prefix arg i @ (if i = 0 then hex2 (arg ! i) else CHR '':'' # hex2 (arg ! i))"

lemma length_mac_prefix: "length (mac_prefix arg i) = (if i = 0 then 0 else 3 * i - 1)"
  by (induction i) (auto simp: hex2_def)

lemma mac_prefix_text: "i \<le> length arg \<Longrightarrow> mac_prefix arg i = mac_text (take i arg)"
proof (induction i)
  case (Suc i)
  have "mac_text (xs @ [b]) = mac_text xs @ (if xs = [] then hex2 b else CHR '':'' # hex2 b)" for xs b
    by (induction xs rule: mac_text.induct) auto
  with Suc show ?case by (auto simp: take_Suc_conv_app_nth)
qed simp

lemma mac_addr_n2a_text:
  assumes "18 \<le> length m" and "6 \<le> length arg" and "\<forall>b \<in> set arg. b < 256"
  shows "\<exists>m'. mac_addr_n2a m arg = ret m' \<and> length m' = length m \<and> ostr m' = ret (mac_text (take 6 arg))"
proof -
  let ?f = "\<lambda>i (m, l). bnd (rd arg i) (\<lambda>b.
         if i = 0 then bnd (strcpy_at m l (hex2 b)) (\<lambda>m. ret (m, l + 2))
         else bnd (strcpy_at m l (CHR '':'' # hex2 b)) (\<lambda>m. ret (m, l + 3)))"
  let ?P = "\<lambda>i (m', l). length m' = length m \<and> l = length (mac_prefix arg i) \<and> (0 < i \<longrightarrow> holds_str m' (mac_prefix arg i))"
  have "\<exists>s'. for_up (int 0) (int 6) ?f (m, 0) = ret s' \<and> ?P 6 s'"
  proof (rule for_up_inv [where P = ?P])
    fix i s
    assume i: "i < 6" and P: "?P i s"
    obtain m1 l where s: "s = (m1, l)" by (cases s)
    have b: "arg ! i < 256" using i assms(2,3) by simp
    have colon: "c_string (CHR '':'' # hex2 (arg ! i))" "c_string (hex2 (arg ! i))"
      using c_string_hex2 [OF b] by (simp_all add: c_string_def)
    have len: "length (mac_prefix arg i) + 3 < length m" if "0 < i"
      using that i assms(1) by (simp add: length_mac_prefix)
    show "\<exists>s'. ?f (int i) s = ret s' \<and> ?P (Suc i) s'"
    proof (cases "i = 0")
      case True
      obtain m' where "strcpy_at m1 0 (hex2 (arg ! 0)) = ret m'" "length m' = length m" "holds_str m' (hex2 (arg ! 0))"
        using strcpy_first [of "hex2 (arg ! 0)" m1] colon(2) P s True assms(1) by (auto simp: hex2_def)
      moreover have "arg \<noteq> []" using assms(2) by auto
      ultimately show ?thesis using True s P by (simp add: rd_def hex2_def)
    next
      case False
      then obtain m' where "strcpy_at m1 l (CHR '':'' # hex2 (arg ! i)) = ret m'" "length m' = length m"
        "holds_str m' (mac_prefix arg i @ CHR '':'' # hex2 (arg ! i))"
        using strcpy_next [of m1 "mac_prefix arg i" "CHR '':'' # hex2 (arg ! i)"] colon(1) len P s by (auto simp: hex2_def)
      then show ?thesis using False s P i assms(2) by (simp add: rd_def hex2_def)
    qed
  qed simp_all
  then obtain m' l where m': "for_up 0 6 ?f (m, 0) = ret (m', l)" "length m' = length m" "holds_str m' (mac_prefix arg 6)"
    by auto
  then show ?thesis
    using holds_str_ostr [OF m'(3)] mac_prefix_text [OF assms(2)] by (simp add: mac_addr_n2a_def)
qed

text \<open>Information elements: a type, the length, the data.\<close>

fun enc_ies :: "(nat \<times> nat list) list \<Rightarrow> nat list" where
  "enc_ies [] = []"
| "enc_ies ((t, d) # es) = t # length d # d @ enc_ies es"

definition ssid_text :: "nat list \<Rightarrow> out list" where
  "ssid_text d = concat (map (\<lambda>j. ssid_char (d ! j) (int j) (int (length d))) [0..<length d])"

definition first_ssid :: "(nat \<times> nat list) list \<Rightarrow> out list" where
  "first_ssid es = (case find (\<lambda>(t, d). t = 0 \<and> length d \<le> 32) es of None \<Rightarrow> [] | Some (t, d) \<Rightarrow> ssid_text d)"

lemma name_loop:
  assumes "n \<le> length d"
  shows "for_up 0 (int n) (\<lambda>i os. bnd (rd (p @ d @ r) (int (length p) + i)) (\<lambda>b. ret (os @ ssid_char b i l))) [] =
    ret (concat (map (\<lambda>j. ssid_char (d ! j) (int j) l) [0..<n]))"
proof -
  let ?P = "\<lambda>i os. os = concat (map (\<lambda>j. ssid_char (d ! j) (int j) l) [0..<i])"
  have "\<exists>os. for_up (int 0) (int n) (\<lambda>i os. bnd (rd (p @ d @ r) (int (length p) + i)) (\<lambda>b. ret (os @ ssid_char b i l))) [] = ret os
    \<and> ?P n os"
    by (rule for_up_inv [where P = ?P]) (use assms in \<open>auto simp: nat_add_distrib nth_append\<close>)
  then show ?thesis by auto
qed

lemma print_ssid_elements:
  "print_ssid (p @ enc_ies es) (int (length p)) (int (length (enc_ies es))) = ret (first_ssid es)"
proof (induction es arbitrary: p)
  case Nil
  then show ?case by (simp add: print_ssid.simps first_ssid_def)
next
  case (Cons e es)
  obtain t d where e: "e = (t, d)" by (cases e)
  let ?m = "p @ t # length d # d @ enc_ies es" and ?q = "p @ t # length d # d"
  have rd: "rd ?m (int (length p)) = ret t" "rd ?m (int (length p) + 1) = ret (length d)"
    by (simp_all add: rd_def nat_add_distrib nth_append)
  show ?case
  proof (cases "t = 0 \<and> length d \<le> 32")
    case True
    have "for_up 0 (int (length d)) (\<lambda>i os. bnd (rd ?m (int (length p) + 2 + i)) (\<lambda>b.
        ret (os @ ssid_char b i (int (length d))))) [] = ret (ssid_text d)"
      using name_loop [of "length d" d "p @ [t, length d]" "enc_ies es" "int (length d)"]
      by (simp add: ssid_text_def add.commute add.left_commute)
    then show ?thesis using True rd e by (subst print_ssid.simps) (simp add: first_ssid_def)
  next
    case False
    have "print_ssid (?q @ enc_ies es) (int (length ?q)) (int (length (enc_ies es))) = ret (first_ssid es)"
      by (rule Cons.IH)
    then have "print_ssid ?m (int (length p) + (int (length d) + 2)) (int (length (enc_ies es))) = ret (first_ssid es)"
      by (simp add: add.commute add.left_commute)
    then show ?thesis using False rd e by (subst print_ssid.simps) (auto simp: first_ssid_def)
  qed
qed

section \<open>Waiting for the scan\<close>

definition scan_news :: "('k, 'm) libnl \<Rightarrow> 'm \<Rightarrow> bool" where
  "scan_news N m \<longleftrightarrow> cmd_of N m = NL80211_CMD_NEW_SCAN_RESULTS \<or> cmd_of N m = NL80211_CMD_SCAN_ABORTED"

definition other_news :: "('k, 'm) libnl \<Rightarrow> 'm event list \<times> int \<Rightarrow> bool" where
  "other_news N d \<longleftrightarrow> (\<forall>e \<in> set (fst d). \<exists>m. e = EvValid m \<and> \<not> scan_news N m)"

lemma quiet_other_news: "other_news N d \<Longrightarrow> quiet (trigger_cb_set N) (fst d)"
  by (rule quietI) (auto dest!: bspec simp: other_news_def trigger_cb_set_def callback_trigger_def scan_news_def Let_def)

context libnl_recv
begin

lemma wait_ack:
  assumes "arrives N k (ds @ [([EvAck], r2)]) k'" and "\<forall>d \<in> set ds. other_news N d" and "0 < err s"
  shows "\<exists>os. recv_while N (trigger_cb_set N) (\<lambda>s. 0 < err s) (\<lambda>_. []) k s r = ret (k', say os (s\<lparr>err := 0\<rparr>), r2)"
  using assms(2,3) quiet_other_news
  by (intro recv_while_until [where cond = "\<lambda>s. 0 < err s", OF assms(1)])
    (auto simp: trigger_cb_set_def ack_handler_def say_update)

lemma wait_news:
  assumes "arrives N k (ds @ [([EvValid m], r2)]) k'" and "\<forall>d \<in> set ds. other_news N d" and "scan_news N m"
    and "scan_done s = 0"
  shows "\<exists>os. recv_while N (trigger_cb_set N) (\<lambda>s. scan_done s = 0) (\<lambda>_. []) k s r =
    ret (k', say os (s\<lparr>scan_done := 1, scan_aborted := (if cmd_of N m = NL80211_CMD_NEW_SCAN_RESULTS then 0 else 1)\<rparr>), r2)"
  using assms(2-4) quiet_other_news
  by (intro recv_while_until [where cond = "\<lambda>s. scan_done s = 0", OF assms(1)])
    (auto simp: trigger_cb_set_def callback_trigger_def scan_news_def Let_def say_update)

lemma wait_for_ever:
  assumes "arrives N k ds k'" and "next_datagram N k' = None" and "\<forall>d \<in> set ds. other_news N d" and "scan_done s = 0"
  shows "recv_while N (trigger_cb_set N) (\<lambda>s. scan_done s = 0) (\<lambda>_. []) k s r = None"
  by (rule recv_while_waits [where cond = "\<lambda>s. scan_done s = 0", OF assms(1,2)])
    (use assms(3,4) quiet_other_news in \<open>auto\<close>)

end

text \<open>All library calls of the trigger succeed and the kernel knows the group.\<close>

definition calls_ok :: "scan_calls \<Rightarrow> bool" where
  "calls_ok c \<longleftrightarrow> msg_alloc (mc c) \<and> cb_alloc (mc c) \<and> put_ok (mc c) \<and> 0 \<le> send_ret (mc c)
     \<and> trigger_msg c \<and> ssids_msg c \<and> trigger_cb c \<and> 0 \<le> modify_ret c \<and> 0 \<le> trigger_sent c"

definition answers_family :: "('k, 'm) libnl \<Rightarrow> 'm \<Rightarrow> (string \<times> nat) list \<Rightarrow> bool" where
  "answers_family N m gs \<longleftrightarrow>
     (\<exists>g. parse_ctrl N m CTRL_ATTR_MCAST_GROUPS = Some g \<and> list_all2 (describes N) (nested N g) gs)"

definition requests :: "scan_calls \<Rightarrow> request list" where
  "requests c = [\<lparr>req_cmd = CTRL_CMD_GETFAMILY, req_dump = False, req_attrs = [PutFamily ''nl80211'']\<rparr>,
     trigger_request (if_index c)]"

definition scan_held :: "int \<Rightarrow> nl_object list" where
  "scan_held mcid = [Callbacks, SsidMessage, Message, Membership mcid]"

context libnl_recv
begin

lemma trigger_until_ack:
  assumes "calls_ok c" and "answers_family N f gs" and "0 \<le> group_id gs ''scan''"
    and "\<forall>d \<in> set ds. other_news N d" and "0 \<le> r"
    and "arrives N (sock w) ([([EvValid f], q1), ([EvAck], q2)] @ ds @ [([EvAck], r)]) k"
  shows "\<exists>s. scan_done s = 0 \<and> (callback_round s = callback_round (cbs w) \<and> prefix (printed (cbs w)) (printed s))
    \<and> do_scan_trigger N c w =
    bnd (recv_while N (trigger_cb_set N) (\<lambda>s. scan_done s = 0) (\<lambda>_. []) k s r) (\<lambda>(k, s, _).
      let w = w\<lparr>held := scan_held (group_id gs ''scan'') @ held w, sent := sent w @ requests c, sock := k, cbs := s\<rparr> in
      if scan_aborted s \<noteq> 0 then ret (1, wsay [OStr ''ERROR: Kernel aborted scan.'', newline] w)
      else ret (0, release (Membership (group_id gs ''scan'')) (release Callbacks (release Message
             (wsay [OStr ''Scan is done.'', newline] w)))))"
proof -
  let ?w = "w\<lparr>cbs := (cbs w)\<lparr>scan_done := 0, scan_aborted := 0\<rparr>\<rparr>"
  have scan: "c_string ''scan''" by (simp add: c_string_def)
  obtain k1 where k1: "arrives N (sock w) [([EvValid f], q1), ([EvAck], q2)] k1" "arrives N k1 (ds @ [([EvAck], r)]) k"
    using assms(6) unfolding arrives_append [of N _ "[([EvValid f], q1), ([EvAck], q2)]"] by blast
  obtain g where g: "parse_ctrl N f CTRL_ATTR_MCAST_GROUPS = Some g" "list_all2 (describes N) (nested N g) gs"
    using assms(2) by (auto simp: answers_family_def)
  let ?w1 = "?w\<lparr>sock := k1, sent := sent w @ [\<lparr>req_cmd = CTRL_CMD_GETFAMILY, req_dump = False, req_attrs = [PutFamily ''nl80211'']\<rparr>]\<rparr>"
  have mcid: "nl_get_multicast_id ack_handler N (mc c) ''nl80211'' ''scan'' ?w = ret (group_id gs ''scan'', ?w1)"
    using multicast_answer [of ?w f q1 q2 k1 g gs "''scan''" "mc c" ack_handler "[]" "''nl80211''"] k1(1) g scan assms(1)
    by (simp add: calls_ok_def ack_handler_def wsay_def)
  let ?s = "(say [OStr ''NL80211_CMD_TRIGGER_SCAN sent '', OInt (trigger_sent c), OStr '' bytes to the kernel.'', newline,
      OStr ''Waiting for scan to complete...'', newline] (cbs ?w))\<lparr>err := 1\<rparr>"
  obtain os where ack: "recv_while N (trigger_cb_set N) (\<lambda>s. 0 < err s) (\<lambda>_. []) k1 ?s (trigger_sent c) =
      ret (k, say os (?s\<lparr>err := 0\<rparr>), r)"
    using wait_ack [OF k1(2) assms(4), of ?s "trigger_sent c"] by auto
  show ?thesis
    using assms(1,3,5) mcid ack
    by (intro exI [of _ "say os (?s\<lparr>err := 0\<rparr>)"])
      (simp add: do_scan_trigger_def calls_ok_def Let_def scan_held_def requests_def hold_def wsay_def release_def)
qed

end

text \<open>The state of the callbacks when the scan function has returned.\<close>

lemma scan_trigger_returns:
  assumes "libnl_recv N" and "calls_ok c" and "answers_family N f gs" and "0 \<le> group_id gs ''scan''"
    and "\<forall>d \<in> set ds1 \<union> set ds2. other_news N d" and "0 \<le> r" and "scan_news N m"
    and "arrives N (sock w) ([([EvValid f], q1), ([EvAck], q2)] @ ds1 @ [([EvAck], r)]) k"
    and "arrives N k (ds2 @ [([EvValid m], r2)]) k'"
  shows "\<exists>w'. do_scan_trigger N c w = ret (if cmd_of N m = NL80211_CMD_NEW_SCAN_RESULTS then 0 else 1, w')
    \<and> sock w' = k' \<and> sent w' = sent w @ requests c \<and> callback_round (cbs w') = callback_round (cbs w)
    \<and> prefix (printed (cbs w)) (printed (cbs w'))
    \<and> held w' = (if cmd_of N m = NL80211_CMD_NEW_SCAN_RESULTS then [SsidMessage]
        else scan_held (group_id gs ''scan'')) @ held w"
proof -
  have ds: "\<forall>d \<in> set ds1. other_news N d" "\<forall>d \<in> set ds2. other_news N d" using assms(5) by auto
  obtain s where s: "scan_done s = 0" "callback_round s = callback_round (cbs w)" "prefix (printed (cbs w)) (printed s)"
      "do_scan_trigger N c w =
      bnd (recv_while N (trigger_cb_set N) (\<lambda>s. scan_done s = 0) (\<lambda>_. []) k s r) (\<lambda>(k, s, _).
        let w = w\<lparr>held := scan_held (group_id gs ''scan'') @ held w, sent := sent w @ requests c, sock := k, cbs := s\<rparr> in
        if scan_aborted s \<noteq> 0 then ret (1, wsay [OStr ''ERROR: Kernel aborted scan.'', newline] w)
        else ret (0, release (Membership (group_id gs ''scan'')) (release Callbacks (release Message
               (wsay [OStr ''Scan is done.'', newline] w)))))"
    using libnl_recv.trigger_until_ack [OF assms(1-4) ds(1) assms(6,8)] by blast
  obtain os where "recv_while N (trigger_cb_set N) (\<lambda>s. scan_done s = 0) (\<lambda>_. []) k s r =
      ret (k', say os (s\<lparr>scan_done := 1, scan_aborted := (if cmd_of N m = NL80211_CMD_NEW_SCAN_RESULTS then 0 else 1)\<rparr>), r2)"
    using libnl_recv.wait_news [OF assms(1,9) ds(2) assms(7) s(1)] by blast
  with s show ?thesis by (simp add: Let_def scan_held_def)
qed

section \<open>Properties\<close>

text \<open>
  C15: The wireless scan ends when the kernel answers. If the kernel answers the question for the multicast
  group, acknowledges the request and reports the end of the scan, with any number of unrelated
  messages in between, the function returns: 0 when results are there and 1 when the scan was
  aborted. The group of the notification is found by its name, two requests are sent. If the report
  never comes, it waits for ever. What was allocated is not given back completely: after success
  the message for the network names is still held, after an abort everything.
\<close>

theorem scan_trigger_live:
  assumes "libnl_recv N" and "calls_ok c" and "answers_family N f gs" and "0 \<le> group_id gs ''scan''"
    and "\<forall>d \<in> set ds1 \<union> set ds2. other_news N d" and "0 \<le> r"
    and "arrives N (sock w) ([([EvValid f], q1), ([EvAck], q2)] @ ds1 @ [([EvAck], r)]) k"
  shows "(scan_news N m \<and> arrives N k (ds2 @ [([EvValid m], r2)]) k' \<longrightarrow>
      (\<exists>w'. do_scan_trigger N c w = ret (if cmd_of N m = NL80211_CMD_NEW_SCAN_RESULTS then 0 else 1, w')
        \<and> sock w' = k' \<and> sent w' = sent w @ requests c
        \<and> held w' = (if cmd_of N m = NL80211_CMD_NEW_SCAN_RESULTS then [SsidMessage]
            else scan_held (group_id gs ''scan'')) @ held w))
    \<and> (arrives N k ds2 k' \<and> next_datagram N k' = None \<longrightarrow> do_scan_trigger N c w = None)"
proof -
  have ds: "\<forall>d \<in> set ds1. other_news N d" "\<forall>d \<in> set ds2. other_news N d" using assms(5) by auto
  obtain s g where s: "scan_done s = 0"
    "do_scan_trigger N c w = bnd (recv_while N (trigger_cb_set N) (\<lambda>s. scan_done s = 0) (\<lambda>_. []) k s r) g"
    using libnl_recv.trigger_until_ack [OF assms(1-4) ds(1) assms(6,7)] by blast
  have "do_scan_trigger N c w = None" if "arrives N k ds2 k'" "next_datagram N k' = None"
    using s(2) libnl_recv.wait_for_ever [OF assms(1) that ds(2) s(1)] by simp
  then show ?thesis using scan_trigger_returns [OF assms(1-6) _ assms(7)] by blast
qed

text \<open>A socket on which the family, the group \<^verbatim>\<open>scan\<close> with number 5, is announced.\<close>

definition family_msg :: genl_msg where
  "family_msg = (1, concat (map enc_attr [(7, concat (map enc_attr
     [(1, concat (map enc_attr [(1, c_bytes ''scan''), (2, le_enc 4 5)]))]))]))"

lemma family_msg_answers: "answers_family libnl3 family_msg [(''scan'', 5)]"
proof -
  let ?inner = "concat (map enc_attr [(1, c_bytes ''scan''), (2, le_enc 4 5)])"
  let ?grps = "concat (map enc_attr [(1, ?inner)])"
  have 1: "attrs_of ?inner = [\<lparr>nla_type = 1, nla_data = c_bytes ''scan''\<rparr>, \<lparr>nla_type = 2, nla_data = le_enc 4 5\<rparr>]"
    by (subst attrs_of_enc) (simp_all add: attr_ok_def c_bytes_def)
  have 2: "attrs_of ?grps = [\<lparr>nla_type = 1, nla_data = ?inner\<rparr>]"
    by (subst attrs_of_enc) (simp_all add: attr_ok_def c_bytes_def)
  have 3: "attrs_of (snd family_msg) = [\<lparr>nla_type = 7, nla_data = ?grps\<rparr>]"
    unfolding family_msg_def snd_conv by (subst attrs_of_enc) (simp_all add: attr_ok_def c_bytes_def)
  have five: "le_nat (le_enc 4 5) = 5" by (rule le_nat_enc) simp
  have "describes libnl3 \<lparr>nla_type = 1, nla_data = ?inner\<rparr> (''scan'', 5)"
    unfolding describes_def libnl3_fields nlattr.simps 1
    by (simp add: lookup_attr_def get_le_def five c_string_def)
  with 2 3 show ?thesis
    by (simp add: answers_family_def lookup_attr_def del: list.map concat.simps)
qed

definition all_ok :: scan_calls where
  "all_ok = \<lparr>mc = \<lparr>msg_alloc = True, cb_alloc = True, put_ok = True, send_ret = 28\<rparr>, trigger_msg = True,
     ssids_msg = True, trigger_cb = True, modify_ret = 0, trigger_sent = 64, dump_msg = True, dump_sent = 28, if_index = 3\<rparr>"

definition start_world :: "'k \<Rightarrow> 'k world" where
  "start_world k = \<lparr>sock = k, cbs = \<lparr>err = 0, grp_id = 0, scan_done = 0, scan_aborted = 0, callback_round = 0,
     scan_result_count = 1, iface_idx = 0, got = 0, printed = []\<rparr>, held = [], sent = []\<rparr>"

theorem scan_trigger_live_witness:
  "\<exists>w'. do_scan_trigger libnl3 all_ok (start_world [([EvValid family_msg], 0), ([EvAck], 0), ([EvAck], 0),
       ([EvValid (7, [])], 0), ([EvValid (34, [])], 0)]) = ret (0, w') \<and> held w' = [SsidMessage]"
proof -
  let ?w = "start_world [([EvValid family_msg], 0), ([EvAck], 0), ([EvAck], 0), ([EvValid (7, [])], 0), ([EvValid (34, [])], 0)]"
  have "calls_ok all_ok" by (simp add: calls_ok_def all_ok_def)
  moreover have "0 \<le> group_id [(''scan'', 5)] ''scan''" by (simp add: group_id_def to_int_def)
  moreover have "other_news libnl3 ([EvValid (7, [])], 0)" "scan_news libnl3 (34, [])"
    by (simp_all add: other_news_def scan_news_def cmd_no_def)
  ultimately show ?thesis
    using scan_trigger_live [OF libnl3.libnl_recv_axioms, of all_ok family_msg "[(''scan'', 5)]" "[]"
        "[([EvValid (7, [])], 0)]" 0 ?w 0 0 "[([EvValid (7, [])], 0), ([EvValid (34, [])], 0)]" "(34, [])" 0 "[]"]
      family_msg_answers by (auto simp: start_world_def cmd_no_def)
qed

text \<open>
  C20: From every well-formed sequence of information elements the name that is printed is that of the
  first element of type 0 with at most 32 bytes, with blanks at the ends, backslashes and bytes that
  cannot be printed escaped; nothing outside the elements is read. On other data the test of the
  length forgets the two bytes of the header: a name that claims up to two bytes more than there are
  makes the program read past the attribute.
\<close>

theorem print_ssid_correct:
  "print_ssid (enc_ies es) 0 (int (length (enc_ies es))) = ret (first_ssid es)
   \<and> (length d < l \<and> l \<le> length d + 2 \<and> l \<le> 32 \<longrightarrow>
        print_ssid (0 # l # d) 0 (int (length d + 2)) = fault OutOfBounds)"
proof -
  have "print_ssid (0 # l # d) 0 (int (length d + 2)) = fault OutOfBounds"
    if l: "length d < l" "l \<le> length d + 2" "l \<le> 32"
  proof -
    let ?f = "\<lambda>i os. bnd (rd (0 # l # d) (0 + 2 + i)) (\<lambda>b. ret (os @ ssid_char b i (int l)))"
    obtain os where os: "for_up 0 (int (length d)) ?f [] = ret os"
      using name_loop [of "length d" d "[0, l]" "[]" "int l"] by auto
    have "for_up (int (length d)) (int l) ?f os = fault OutOfBounds"
      using l(1) by (subst for_up.simps) simp
    then have "for_up 0 (int l) ?f [] = fault OutOfBounds"
      using for_up_split [of 0 "int (length d)" "int l" ?f "[]"] l(1) os by simp
    then show ?thesis using l by (subst print_ssid.simps) (simp add: rd_def)
  qed
  then show ?thesis using print_ssid_elements [of "[]" es] by auto
qed

theorem print_ssid_correct_witness:
  "print_ssid (enc_ies [(1, [130, 132]), (0, [97, 32, 98])]) 0 9 = ret [OChar 97, OStr '' '', OChar 98]
   \<and> print_ssid [0, 5, 97, 98, 99] 0 5 = fault OutOfBounds"
  using print_ssid_correct [of "[(1, [130, 132]), (0, [97, 32, 98])]" "[97, 98, 99]" 5]
  by (simp add: first_ssid_def ssid_text_def ssid_char_def isprint_def)

text \<open>
  A scan result: the station \<open>mac\<close>, the information elements \<open>es\<close> and the table of all attributes;
  numbers in it have the length the policy asks for.
\<close>

definition scan_result :: "('k, 'm) libnl \<Rightarrow> 'm \<Rightarrow> bss_attr nla_table \<Rightarrow> nat list \<Rightarrow> (nat \<times> nat list) list \<Rightarrow> bool" where
  "scan_result N msg bss mac es \<longleftrightarrow>
     (\<exists>b a ies. parse_nl80211 N msg NL80211_ATTR_BSS = Some b \<and> parse_nl80211 N msg NL80211_ATTR_IFINDEX = None
        \<and> parse_nl80211 N msg NL80211_ATTR_SCAN_FREQUENCIES = None \<and> parse_bss N b bss_policy = Some bss
        \<and> bss NL80211_BSS_BSSID = Some a \<and> nla_data a = mac \<and> bss NL80211_BSS_STATUS = None
        \<and> bss NL80211_BSS_INFORMATION_ELEMENTS = Some ies \<and> nla_data ies = enc_ies es)
     \<and> length mac = 6 \<and> list_all (\<lambda>b. b < 256) mac
     \<and> (\<forall>a \<in> set_option (bss NL80211_BSS_FREQUENCY). \<exists>v. nla_get_u32 N a = ret v)
     \<and> (\<forall>a \<in> set_option (bss NL80211_BSS_SIGNAL_MBM). \<exists>v < 4294967296. nla_get_u32 N a = ret v)
     \<and> (\<forall>a \<in> set_option (bss NL80211_BSS_BEACON_INTERVAL). \<exists>v. nla_get_u16 N a = ret v)"

definition bss_line :: "nat list \<Rightarrow> nat \<Rightarrow> nat \<Rightarrow> nat \<Rightarrow> (nat \<times> nat list) list \<Rightarrow> out list" where
  "bss_line mac f g i es =
     [OStr (mac_text mac), OStr '', '', OInt (to_int f), OStr '' MHz, '', OInt (to_int g sdiv 100), OStr '' dbm, '',
      OInt (int i), OStr '' ms, ''] @ first_ssid es @ [newline]"

lemma c_div_signal: "v < 4294967296 \<Longrightarrow> c_div (to_int v) 100 = ret (to_int v sdiv 100)"
  using sgn_if [of "to_int v"] by (auto simp: c_div_def to_int_def in_int_def INT_MAX_def INT_MIN_def signed_divide_int_def)

lemma print_bss_line:
  assumes "length (nla_data a) = 6" and "list_all (\<lambda>b. b < 256) (nla_data a)" and "nla_data ies = enc_ies es"
    and "get_attr (nla_get_u32 N) (bss NL80211_BSS_FREQUENCY) = ret f"
    and "get_attr (nla_get_u32 N) (bss NL80211_BSS_SIGNAL_MBM) = ret g" and "g < 4294967296"
    and "get_attr (nla_get_u16 N) (bss NL80211_BSS_BEACON_INTERVAL) = ret i"
  shows "print_bss N bss a ies = ret (bss_line (nla_data a) f g i es)"
proof -
  obtain m where "mac_addr_n2a (replicate 20 None) (nla_data a) = ret m" "ostr m = ret (mac_text (nla_data a))"
    using mac_addr_n2a_text [of "replicate 20 None" "nla_data a"] assms(1,2) by (auto simp: list_all_iff)
  then show ?thesis
    using assms(3-) c_div_signal [OF assms(6)] print_ssid_elements [of "[]" es] by (simp add: print_bss_def bss_line_def)
qed

lemma print_bss_null:
  assumes "length (nla_data a) = 6" and "list_all (\<lambda>b. b < 256) (nla_data a)"
    and "\<forall>x \<in> set_option (bss NL80211_BSS_FREQUENCY). \<exists>v. nla_get_u32 N x = ret v"
    and "\<forall>x \<in> set_option (bss NL80211_BSS_SIGNAL_MBM). \<exists>v < 4294967296. nla_get_u32 N x = ret v"
    and "bss NL80211_BSS_FREQUENCY = None \<or> bss NL80211_BSS_SIGNAL_MBM = None \<or> bss NL80211_BSS_BEACON_INTERVAL = None"
  shows "print_bss N bss a ies = fault NullDeref"
proof -
  obtain m where "mac_addr_n2a (replicate 20 None) (nla_data a) = ret m" "ostr m = ret (mac_text (nla_data a))"
    using mac_addr_n2a_text [of "replicate 20 None" "nla_data a"] assms(1,2) by (auto simp: list_all_iff)
  then show ?thesis
    using assms(3-) by (cases "bss NL80211_BSS_FREQUENCY"; cases "bss NL80211_BSS_SIGNAL_MBM")
      (auto simp: print_bss_def get_attr_def c_div_signal)
qed

text \<open>What a call of the callback does before it looks at the result.\<close>

definition dump_start :: "cbstate \<Rightarrow> cbstate" where
  "dump_start s = say [newline, OStr ''callback_round '', OInt (callback_round s + 1), newline]
     (s\<lparr>callback_round := callback_round s + 1\<rparr>)"

lemma callback_dump_prints:
  assumes "scan_result N msg bss mac es" and "in_int (callback_round s + 1)"
  shows "\<exists>a ies. nla_data a = mac \<and> nla_data ies = enc_ies es \<and> length (nla_data a) = 6
    \<and> list_all (\<lambda>b. b < 256) (nla_data a)
    \<and> callback_dump N msg s = bnd (print_bss N bss a ies) (\<lambda>os. ret (say os (dump_start s), NL_SKIP))"
proof -
  obtain b a ies where "parse_nl80211 N msg NL80211_ATTR_BSS = Some b" "parse_nl80211 N msg NL80211_ATTR_IFINDEX = None"
      "parse_nl80211 N msg NL80211_ATTR_SCAN_FREQUENCIES = None" "parse_bss N b bss_policy = Some bss"
      "bss NL80211_BSS_BSSID = Some a" "bss NL80211_BSS_STATUS = None" "bss NL80211_BSS_INFORMATION_ELEMENTS = Some ies"
    and d: "nla_data a = mac" "nla_data ies = enc_ies es" "length (nla_data a) = 6" "list_all (\<lambda>b. b < 256) (nla_data a)"
    using assms(1) unfolding scan_result_def by blast
  then have "callback_dump N msg s = bnd (print_bss N bss a ies) (\<lambda>os. ret (say os (dump_start s), NL_SKIP))"
    using assms(2) by (simp add: callback_dump_def show_attr_def Let_def dump_start_def)
  with d show ?thesis by blast
qed

text \<open>
  A result with all attributes, as address, frequency, signal, interval and elements; what the
  callback prints for the results \<open>ns\<close> when \<open>n\<close> have been printed before.
\<close>

type_synonym bss_info = "nat list \<times> nat \<times> nat \<times> nat \<times> (nat \<times> nat list) list"

definition full_result :: "('k, 'm) libnl \<Rightarrow> 'm \<Rightarrow> bss_info \<Rightarrow> bool" where
  "full_result N msg = (\<lambda>(mac, f, g, i, es). g < 4294967296 \<and> (\<exists>bss. scan_result N msg bss mac es
     \<and> get_attr (nla_get_u32 N) (bss NL80211_BSS_FREQUENCY) = ret f
     \<and> get_attr (nla_get_u32 N) (bss NL80211_BSS_SIGNAL_MBM) = ret g
     \<and> get_attr (nla_get_u16 N) (bss NL80211_BSS_BEACON_INTERVAL) = ret i))"

fun result_lines :: "int \<Rightarrow> bss_info list \<Rightarrow> out list" where
  "result_lines n [] = []"
| "result_lines n ((mac, f, g, i, es) # ns) =
     [newline, OStr ''callback_round '', OInt (n + 1), newline] @ bss_line mac f g i es @ result_lines (n + 1) ns"

lemma callback_dump_full:
  assumes "full_result N msg (mac, f, g, i, es)" and "in_int (callback_round s + 1)"
  shows "callback_dump N msg s = ret (say (bss_line mac f g i es) (dump_start s), NL_SKIP)"
proof -
  obtain bss where bss: "scan_result N msg bss mac es" "g < 4294967296"
     "get_attr (nla_get_u32 N) (bss NL80211_BSS_FREQUENCY) = ret f"
     "get_attr (nla_get_u32 N) (bss NL80211_BSS_SIGNAL_MBM) = ret g"
     "get_attr (nla_get_u16 N) (bss NL80211_BSS_BEACON_INTERVAL) = ret i"
    using assms(1) by (auto simp: full_result_def)
  obtain a ies where "nla_data a = mac" "nla_data ies = enc_ies es" "length (nla_data a) = 6" "list_all (\<lambda>b. b < 256) (nla_data a)"
    "callback_dump N msg s = bnd (print_bss N bss a ies) (\<lambda>os. ret (say os (dump_start s), NL_SKIP))"
    using callback_dump_prints [OF bss(1) assms(2)] by blast
  then show ?thesis using print_bss_line [of a ies es N bss f g i] bss by simp
qed

lemma dispatch_dump:
  "list_all2 (full_result N) ms ns \<Longrightarrow> 0 \<le> callback_round s \<Longrightarrow> callback_round s + int (length ms) \<le> INT_MAX \<Longrightarrow>
     dispatch (dump_cb_set N) (map EvValid ms @ [EvFinish]) s =
       ret (say (result_lines (callback_round s) ns) (s\<lparr>callback_round := callback_round s + int (length ms)\<rparr>))"
proof (induction ms ns arbitrary: s rule: list_all2_induct)
  case Nil
  then show ?case by (simp add: dump_cb_set_def)
next
  case (Cons m ms n ns)
  obtain mac f g i es where n: "n = (mac, f, g, i, es)" by (cases n)
  have "in_int (callback_round s + 1)" using Cons.prems by (auto simp: in_int_def INT_MIN_def)
  then have "dump_cb_set N (EvValid m) s = ret (say (bss_line mac f g i es) (dump_start s), NL_SKIP)"
    using callback_dump_full [of N m mac f g i es s] Cons.hyps(1) n by (simp add: dump_cb_set_def)
  with Cons.IH [of "say (bss_line mac f g i es) (dump_start s)"] Cons.prems n show ?case
    by (simp add: dump_start_def say_update algebra_simps)
qed


text \<open>A result as bytes: the address, 2412 MHz, -50 dBm, 100 ms and the name; without the interval for \<open>False\<close>.\<close>

definition bss_msg :: "bool \<Rightarrow> genl_msg" where
  "bss_msg full = (34, concat (map enc_attr [(47, concat (map enc_attr
     ([(1, [0, 17, 34, 51, 68, 85]), (2, le_enc 4 2412), (6, enc_ies [(0, [97, 98])]), (7, le_enc 4 4294962296)] @
      (if full then [(4, le_enc 2 100)] else []))))]))"

lemma bss_msg_result:
  "\<exists>bss. scan_result libnl3 (bss_msg full) bss [0, 17, 34, 51, 68, 85] [(0, [97, 98])]
     \<and> get_attr (get_le 4) (bss NL80211_BSS_FREQUENCY) = ret 2412
     \<and> get_attr (get_le 4) (bss NL80211_BSS_SIGNAL_MBM) = ret 4294962296
     \<and> get_attr (get_le 2) (bss NL80211_BSS_BEACON_INTERVAL) = (if full then ret 100 else fault NullDeref)"
proof -
  let ?as = "[(1, [0, 17, 34, 51, 68, 85]), (2, le_enc 4 2412), (6, enc_ies [(0, [97, 98])]), (7, le_enc 4 4294962296)] @
      (if full then [(4, le_enc 2 100)] else [])"
  let ?d = "concat (map enc_attr ?as)"
  have 1: "attrs_of ?d = map (\<lambda>(t, d). \<lparr>nla_type = t, nla_data = d\<rparr>) ?as"
    by (rule attrs_of_enc) (simp add: attr_ok_def)
  have 2: "attrs_of (snd (bss_msg full)) = [\<lparr>nla_type = 47, nla_data = ?d\<rparr>]"
    unfolding bss_msg_def snd_conv by (subst attrs_of_enc) (simp_all add: attr_ok_def)
  have num: "le_nat (le_enc 4 2412) = 2412" "le_nat (le_enc 4 4294962296) = 4294962296" "le_nat (le_enc 2 100) = 100"
    by (simp_all add: le_nat_enc)
  let ?bss = "\<lambda>x. lookup_attr (bss_no x) (map (\<lambda>(t, d). \<lparr>nla_type = t, nla_data = d\<rparr>) ?as)"
  have "parse_bss libnl3 \<lparr>nla_type = 47, nla_data = ?d\<rparr> bss_policy = Some ?bss"
    unfolding libnl3_fields parse_with_def Let_def nlattr.simps 1
    by (simp add: bss_policy_def lookup_attr_def min_len_def)
  moreover have "get_attr (get_le 4) (?bss NL80211_BSS_FREQUENCY) = ret 2412"
    "get_attr (get_le 4) (?bss NL80211_BSS_SIGNAL_MBM) = ret 4294962296"
    "get_attr (get_le 2) (?bss NL80211_BSS_BEACON_INTERVAL) = (if full then ret 100 else fault NullDeref)"
    by (simp_all add: get_attr_def lookup_attr_def get_le_def num)
  ultimately show ?thesis
    using 2 by (intro exI [of _ ?bss]) (auto simp: scan_result_def lookup_attr_def get_attr_def get_le_def num)
qed


text \<open>
  The two programs \<^verbatim>\<open>scan.c\<close> and \<^verbatim>\<open>example_scan.c\<close> behave alike; after a scan that succeeded the second one
  still holds the message of its last request.
\<close>

lemma release_commutes: "release x (wsay os w) = wsay os (release x w)"
  by (simp add: release_def wsay_def)

lemma example_scan_keeps_message:
  assumes "do_scan_trigger N c (wsay [OStr ''interface index='', OInt (int (if_index c)), newline] w) = ret (e, w1)"
  shows "scan_main N c w =
    (if e = 0 then bnd (example_scan_main N c w) (\<lambda>(r, w'). ret (r, release Message w')) else example_scan_main N c w)"
  using assms
  by (auto simp: scan_main_def example_scan_main_def scan_main_with_def Let_def bnd_assoc release_commutes intro!: bnd_cong)

section \<open>The whole program\<close>

definition get_scan_request :: "nat \<Rightarrow> request" where
  "get_scan_request idx = \<lparr>req_cmd = NL80211_CMD_GET_SCAN, req_dump = True, req_attrs = [PutU32 NL80211_ATTR_IFINDEX idx]\<rparr>"



end
