(* ===== verification/Genl_Trigger.thy ===== *)
theory Genl_Trigger
  imports Genl_Scan
begin

text \<open>
  \<^verbatim>\<open>generic_netlink/scan_NL80211_CMD_TRIGGER_SCAN.c\<close>: a second program that triggers a scan, with the
  request and the dump in functions of their own and another line for each network.
\<close>

section \<open>Callbacks\<close>

definition callback_of_scan :: "('k, 'm) libnl \<Rightarrow> 'm \<Rightarrow> cbstate \<Rightarrow> cbstate \<times> nl_action" where
  "callback_of_scan N msg s =
     (let s = say [OStr ''Enter callback_of_scan'', newline] s; cmd = OInt (int (cmd_value N (cmd_of N msg))) in
      if cmd_of N msg = NL80211_CMD_SCAN_ABORTED
      then ((say [OStr ''We got NL80211_CMD_SCAN_ABORTED... ('', cmd, OStr '')'', newline] s)\<lparr>scan_done := 1, scan_aborted := 1\<rparr>, NL_SKIP)
      else if cmd_of N msg = NL80211_CMD_NEW_SCAN_RESULTS
      then ((say [OStr ''We got NL80211_CMD_NEW_SCAN_RESULTS! ('', cmd, OStr '')'', newline] s)\<lparr>scan_aborted := 0, scan_done := 1\<rparr>, NL_SKIP)
      else (say [OStr ''We got something we are not interested. ('', cmd, OStr '')'', newline] s, NL_SKIP))"

definition result_policy :: "bss_attr nla_policy" where
  "result_policy = [(NL80211_BSS_BSSID, NLA_UNSPEC), (NL80211_BSS_FREQUENCY, NLA_U32),
     (NL80211_BSS_INFORMATION_ELEMENTS, NLA_UNSPEC), (NL80211_BSS_STATUS, NLA_U32)]"

text \<open>
  \<^verbatim>\<open>char ssid[64]; snprintf(ssid, ie[1]+1, "%s", ie+2)\<close>: the bytes from the third on are read up to a
  zero byte, at most \<^verbatim>\<open>ie[1]\<close> of them are copied.
\<close>

definition show_ssid :: "nlattr \<Rightarrow> out list cres" where
  "show_ssid ies =
     bnd (rd (nla_data ies) 1) (\<lambda>l.
     bnd (ostr (map Some (drop 2 (nla_data ies)))) (\<lambda>text.
     bnd (strcpy_at (replicate 64 None) 0 (take l text)) (\<lambda>buf.
     bnd (ostr buf) (\<lambda>ssid. ret [OStr ''SSID='', OStr ssid, OStr '', '']))))"

definition show_bssid :: "nlattr \<Rightarrow> out list cres" where
  "show_bssid a =
     (if 6 \<le> length (nla_data a) then ret [OStr ''BSSID='', OStr (mac_text (take 6 (nla_data a))), OStr '', '']
      else fault OutOfBounds)"

definition assoc_channel :: "nat \<Rightarrow> nat option" where
  "assoc_channel assoc_freq =
     (if 2412 \<le> assoc_freq \<and> assoc_freq \<le> 2472 then Some ((assoc_freq - 2407) div 5)
      else if 5180 \<le> assoc_freq \<and> assoc_freq \<le> 5240 then Some ((assoc_freq - 5000) div 5)
      else if 5745 \<le> assoc_freq \<and> assoc_freq \<le> 5845 then Some ((assoc_freq - 5000) div 5)
      else None)"

definition show_freq :: "nat \<Rightarrow> out list" where
  "show_freq f = [OInt (int f), OStr ''MHz, ''] @
     (case assoc_channel f of None \<Rightarrow> [] | Some c \<Rightarrow> [OStr ''ch'', OInt (int c), OStr '', ''])"

text \<open>The line for one network, after its number.\<close>

definition show_result :: "('k, 'm) libnl \<Rightarrow> bss_attr nla_table \<Rightarrow> out list cres" where
  "show_result N bss =
     bnd (show_attr (bss NL80211_BSS_INFORMATION_ELEMENTS) show_ssid) (\<lambda>o1.
     bnd (show_attr (bss NL80211_BSS_BSSID) show_bssid) (\<lambda>o2.
     bnd (show_attr (bss NL80211_BSS_FREQUENCY) (\<lambda>a. bnd (nla_get_u32 N a) (\<lambda>f. ret (show_freq f)))) (\<lambda>o3.
     bnd (show_attr (bss NL80211_BSS_SIGNAL_MBM) (\<lambda>a. bnd (nla_get_u32 N a) (\<lambda>v. bnd (c_div (to_int v) 100) (\<lambda>d.
            ret [OInt d, OStr ''dbm, ''])))) (\<lambda>o4.
     bnd (get_attr (nla_get_u32 N) (bss NL80211_BSS_SEEN_MS_AGO)) (\<lambda>seen.
     bnd (show_attr (bss NL80211_BSS_STATUS) (\<lambda>a. bnd (nla_get_u32 N a) (\<lambda>status.
            ret (if status = STATUS_ASSOCIATED N then [OStr ''(connected)''] else [])))) (\<lambda>o6.
       ret (o1 @ o2 @ o3 @ o4 @ (if seen \<noteq> 0 then [OStr ''last_seen='', OInt (int seen), OStr ''ms ''] else []) @ o6 @ [newline])))))))"

text \<open>On success the callback returns 0, which is \<^verbatim>\<open>NL_OK\<close>; the counter is an unsigned number of 32 bits.\<close>

definition callback_of_get_scan_result :: "('k, 'm) libnl \<Rightarrow> 'm \<Rightarrow> cbstate \<Rightarrow> (cbstate \<times> nl_action) cres" where
  "callback_of_get_scan_result N msg s =
     (let tb = parse_nl80211 N msg in
      bnd (show_attr (tb NL80211_ATTR_IFNAME) (\<lambda>a. bnd (nla_get_string N a) (\<lambda>n. ret [OStr ''IFACE='', OStr n, OStr '', '']))) (\<lambda>o1.
      let s = say o1 s in
      case tb NL80211_ATTR_BSS of
        None \<Rightarrow> ret (say [OStr ''BSS info is missing.'', newline] s, NL_SKIP)
      | Some b \<Rightarrow>
          (case parse_bss N b result_policy of
             None \<Rightarrow> ret (say [OStr ''Failed to parse BSS nested nla.'', newline] s, NL_SKIP)
           | Some bss \<Rightarrow>
               let s = (say [OInt (scan_result_count s), OStr ''. ''] s)
                         \<lparr>scan_result_count := (scan_result_count s + 1) mod 4294967296\<rparr> in
               bnd (show_result N bss) (\<lambda>os. ret (say os s, NL_OK)))))"

definition loud_ack_handler :: "cbstate \<Rightarrow> cbstate \<times> nl_action" where
  "loud_ack_handler s = ((say [OStr ''Enter ack_handler'', newline] s)\<lparr>err := 0\<rparr>, NL_STOP)"

section \<open>Requests\<close>

text \<open>Which of the library calls find room in the message, and the result of sending.\<close>

record put_calls =
  p_alloc :: bool
  p_header :: bool
  p_ifindex :: bool
  p_second :: bool        \<comment> \<open>the next attribute of the function: the first network name, the hardware address\<close>
  p_third :: bool
  p_send :: int

definition scan_request :: "put_calls \<Rightarrow> nat \<Rightarrow> request" where
  "scan_request c idx =
     \<lparr>req_cmd = NL80211_CMD_TRIGGER_SCAN, req_dump = False,
      req_attrs = [PutU32 NL80211_ATTR_IFINDEX idx,
                   PutNest NL80211_ATTR_SCAN_SSIDS ((1, []) # (if p_third c then [(1, [])] else []))]\<rparr>"

text \<open>The end of the functions that send: the message is freed on every path.\<close>

definition send_request :: "put_calls \<Rightarrow> request \<Rightarrow> string \<Rightarrow> 'k world \<Rightarrow> int \<times> 'k world" where
  "send_request c req name w =
     (if p_send c < 0 then (p_send c, release Message (wsay [OStr ''Failed to send netlink message.'', newline] w))
      else (p_send c, release Message
             (wsay [OStr name, OStr '' Sent '', OInt (p_send c), OStr '' bytes to the kernel sucessfully.'', newline]
               (w\<lparr>sent := sent w @ [req]\<rparr>))))"

definition trigger_scan :: "('k, 'm) libnl \<Rightarrow> put_calls \<Rightarrow> nat \<Rightarrow> 'k world \<Rightarrow> int \<times> 'k world" where
  "trigger_scan N c idx w =
     (let w = wsay [OStr ''Enter trigger_scan'', newline] w in
      if \<not> p_alloc c then (- ENOMEM, wsay [OStr ''Failed to allocate netlink message.'', newline] w)
      else let w = hold Message w in
      if \<not> p_header c then (- 1, release Message (wsay [OStr ''Failed to create netlink message header.'', newline] w))
      else if \<not> p_ifindex c then (- 1, release Message w)
      else if \<not> p_second c then (- 1, release Message w)
      else send_request c (scan_request c idx) ''[NL80211_CMD_TRIGGER_SCAN]''
        (wsay [OStr ''Sending: cmd='', OInt (int (cmd_value N NL80211_CMD_TRIGGER_SCAN)), OStr '', nla_len='', OInt 8,
               OStr '', nla_type='', OInt (int (attr_value N NL80211_ATTR_IFINDEX)), OStr '', iface_idx='', OInt (int idx),
               OStr '', payload='', OInt (int idx), newline] w))"

definition get_scan_result :: "put_calls \<Rightarrow> nat \<Rightarrow> 'k world \<Rightarrow> int \<times> 'k world" where
  "get_scan_result c idx w =
     (if \<not> p_alloc c then (- ENOMEM, wsay [OStr ''Failed to allocate netlink message.'', newline] w)
      else let w = hold Message w in
      if \<not> p_header c then (- 1, release Message (wsay [OStr ''Failed to create netlink message header.'', newline] w))
      else if \<not> p_ifindex c then (- 1, release Message w)
      else send_request c \<lparr>req_cmd = NL80211_CMD_GET_SCAN, req_dump = True, req_attrs = [PutU32 NL80211_ATTR_IFINDEX idx]\<rparr>
        ''[NL80211_CMD_GET_SCAN]'' w)"

section \<open>The program\<close>

record trigger_calls =
  tc_cb :: bool
  tc_mc :: mc_calls
  tc_join :: int                \<comment> \<open>the result of \<^verbatim>\<open>nl_socket_add_membership\<close>\<close>
  tc_trigger :: put_calls
  tc_get :: put_calls
  tc_idx :: nat

definition scan_cb_set :: "('k, 'm) libnl \<Rightarrow> 'm callbacks" where
  "scan_cb_set N e s =
     (case e of
        EvValid m \<Rightarrow> ret (callback_of_scan N m s)
      | EvFinish \<Rightarrow> ret (finish_handler s)
      | EvAck \<Rightarrow> ret (loud_ack_handler s)
      | EvError c \<Rightarrow> ret (error_handler c s))"

definition result_cb_set :: "('k, 'm) libnl \<Rightarrow> 'm callbacks" where
  "result_cb_set N e s = (case e of EvValid m \<Rightarrow> callback_of_get_scan_result N m s | _ \<Rightarrow> ret (s, default_action N e))"

definition report_error :: "('k, 'm) libnl \<Rightarrow> int \<Rightarrow> out list" where
  "report_error N r = (if r < 0 then recv_error_line N ''nl_recvmsgs'' r else [])"

text \<open>From the request for the results on.\<close>

definition trigger_results :: "('k, 'm) libnl \<Rightarrow> trigger_calls \<Rightarrow> 'k world \<Rightarrow> (int \<times> 'k world) cres" where
  "trigger_results N c w =
     (case get_scan_result (tc_get c) (tc_idx c) w of (r, w) \<Rightarrow>
        if r < 0 then ret (r, wsay [OStr ''Failed to get scan result. ('', OInt r, OStr '')'', newline] w)
        else let w = wsay [OStr ''Get scan result done.'', newline] w in
          bnd (nl_recvmsgs N (sock w) (result_cb_set N) (cbs w)) (\<lambda>(k, s, r).
            let w = w\<lparr>sock := k, cbs := s\<rparr> in
            if r < 0 then ret (r, wsay (OStr ''ERROR: '' # recv_error_line N ''nl_recvmsgs_default'' r) w)
            else ret (0, w)))"

text \<open>This program's copy of \<^verbatim>\<open>nl_get_multicast_id\<close> differs in the handler of the acknowledgement.\<close>

definition trigger_multicast_id ::
    "('k, 'm) libnl \<Rightarrow> mc_calls \<Rightarrow> string \<Rightarrow> string \<Rightarrow> 'k world \<Rightarrow> (int \<times> 'k world) cres" where
  "trigger_multicast_id = nl_get_multicast_id loud_ack_handler"

definition trigger_join :: "('k, 'm) libnl \<Rightarrow> trigger_calls \<Rightarrow> 'k world \<Rightarrow> 'k world cres" where
  "trigger_join N c w =
     bnd (trigger_multicast_id N (tc_mc c) ''nl80211'' ''scan'' w) (\<lambda>(grp, w).
       let mcid = (if 0 \<le> grp then tc_join c else grp); w = (if 0 \<le> grp \<and> 0 \<le> tc_join c then hold (Membership grp) w else w) in
       ret (if mcid < 0 then wsay [OStr ''Failed to add multicast membership for scan events ('', OInt mcid, OStr '')''] w else w))"

definition trigger_main :: "('k, 'm) libnl \<Rightarrow> trigger_calls \<Rightarrow> 'k world \<Rightarrow> (int \<times> 'k world) cres" where
  "trigger_main N c w =
     (if \<not> tc_cb c then ret (- ENOMEM, wsay [OStr ''Failed to allocate netlink callbacks.'', newline] w)
      else
        let w = hold Callbacks w; w = w\<lparr>cbs := (cbs w)\<lparr>scan_done := 0, scan_aborted := 0, err := 1\<rparr>\<rparr> in
        bnd (trigger_join N c w) (\<lambda>w.
        case trigger_scan N (tc_trigger c) (tc_idx c) w of (r, w) \<Rightarrow>
          if r < 0 then ret (r, wsay [OStr ''Failed to trigger scan. ('', OInt r, OStr '')'', newline] w)
          else
            bnd (recv_while N (scan_cb_set N) (\<lambda>s. 0 < err s) (report_error N) (sock w) (cbs w) r) (\<lambda>(k, s, r).
            bnd (recv_while N (scan_cb_set N) (\<lambda>s. scan_done s = 0) (\<lambda>_. []) k s r) (\<lambda>(k, s, r).
            let w = w\<lparr>sock := k, cbs := s\<rparr> in
            if scan_aborted s \<noteq> 0 then ret (- 1, wsay [OStr ''Failed to trigger scan due to abort.'', newline] w)
            else trigger_results N c (wsay [OStr ''Scan done.'', newline] w)))))"

section \<open>Lemmas\<close>

lemma ostr_up_to_zero:
  "0 \<notin> set n \<Longrightarrow> 0 \<in> set r \<Longrightarrow> \<exists>t. ostr (map Some (n @ r)) = ret (map char_of n @ t)"
proof (induction n)
  case Nil
  then show ?case by (induction r) auto
qed auto

lemma ostr_no_zero: "0 \<notin> set bs \<Longrightarrow> ostr (map Some bs) = fault OutOfBounds"
  by (induction bs) auto

lemma show_ssid_text:
  assumes "nla_data ies = t # length name # name @ rest" and "0 \<notin> set name" and "list_all (\<lambda>b. b < 256) name"
  shows "show_ssid ies =
    (if length name < 64 \<and> 0 \<in> set rest then ret [OStr ''SSID='', OStr (map char_of name), OStr '', ''] else fault OutOfBounds)"
proof (cases "0 \<in> set rest")
  case True
  then obtain u where "ostr (map Some (name @ rest)) = ret (map char_of name @ u)"
    using ostr_up_to_zero [OF assms(2)] by blast
  moreover have "\<forall>c \<in> set (map char_of name). of_char c \<noteq> (0 :: nat)"
    using assms(2,3) by (auto simp: list_all_iff intro!: gr0I)
  ultimately show ?thesis
    using True assms(1) ostr_str_bytes [of "map char_of name"] by (simp add: show_ssid_def rd_def strcpy_at_def)
next
  case False
  then show ?thesis
    using assms(1,2) ostr_no_zero [of "name @ rest"] by (simp add: show_ssid_def rd_def)
qed

text \<open>
  A network: the name in the first information element, followed by the elements \<open>rest\<close>, the
  address, frequency and signal, and whether it is the one in use.
\<close>

record network =
  nw_name :: "nat list"
  nw_rest :: "nat list"
  nw_mac :: "nat list"
  nw_freq :: nat
  nw_signal :: nat
  nw_connected :: bool

definition network_of :: "('k, 'm) libnl \<Rightarrow> bss_attr nla_table \<Rightarrow> network \<Rightarrow> bool" where
  "network_of N bss n \<longleftrightarrow>
     (\<exists>ies t b f g st. bss NL80211_BSS_INFORMATION_ELEMENTS = Some ies
        \<and> nla_data ies = t # length (nw_name n) # nw_name n @ nw_rest n
        \<and> bss NL80211_BSS_BSSID = Some b \<and> nla_data b = nw_mac n
        \<and> bss NL80211_BSS_FREQUENCY = Some f \<and> nla_get_u32 N f = ret (nw_freq n)
        \<and> bss NL80211_BSS_SIGNAL_MBM = Some g \<and> nla_get_u32 N g = ret (nw_signal n)
        \<and> bss NL80211_BSS_STATUS = Some st
        \<and> (\<exists>v. nla_get_u32 N st = ret v \<and> nw_connected n = (v = STATUS_ASSOCIATED N)))
     \<and> 0 \<notin> set (nw_name n) \<and> list_all (\<lambda>b. b < 256) (nw_name n) \<and> length (nw_mac n) = 6 \<and> nw_signal n < 4294967296
     \<and> (\<forall>a \<in> set_option (bss NL80211_BSS_SEEN_MS_AGO). \<exists>v. nla_get_u32 N a = ret v)"

definition network_line :: "network \<Rightarrow> nat \<Rightarrow> out list" where
  "network_line n seen =
     [OStr ''SSID='', OStr (map char_of (nw_name n)), OStr '', '', OStr ''BSSID='', OStr (mac_text (nw_mac n)), OStr '', ''] @
     show_freq (nw_freq n) @ [OInt (to_int (nw_signal n) sdiv 100), OStr ''dbm, ''] @
     (if seen \<noteq> 0 then [OStr ''last_seen='', OInt (int seen), OStr ''ms ''] else []) @
     (if nw_connected n then [OStr ''(connected)''] else []) @ [newline]"

lemma show_result_network:
  assumes "network_of N bss n"
  shows "show_result N bss =
    (if 64 \<le> length (nw_name n) \<or> 0 \<notin> set (nw_rest n) then fault OutOfBounds
     else bnd (get_attr (nla_get_u32 N) (bss NL80211_BSS_SEEN_MS_AGO)) (\<lambda>seen. ret (network_line n seen)))"
proof -
  obtain ies t b f g st v where n: "bss NL80211_BSS_INFORMATION_ELEMENTS = Some ies"
      "nla_data ies = t # length (nw_name n) # nw_name n @ nw_rest n"
      "bss NL80211_BSS_BSSID = Some b" "nla_data b = nw_mac n" "bss NL80211_BSS_FREQUENCY = Some f" "nla_get_u32 N f = ret (nw_freq n)"
      "bss NL80211_BSS_SIGNAL_MBM = Some g" "nla_get_u32 N g = ret (nw_signal n)" "bss NL80211_BSS_STATUS = Some st"
      "nla_get_u32 N st = ret v" "nw_connected n = (v = STATUS_ASSOCIATED N)"
    and ok: "0 \<notin> set (nw_name n)" "list_all (\<lambda>b. b < 256) (nw_name n)" "length (nw_mac n) = 6" "nw_signal n < 4294967296"
    using assms unfolding network_of_def by blast
  have "show_ssid ies = (if length (nw_name n) < 64 \<and> 0 \<in> set (nw_rest n)
      then ret [OStr ''SSID='', OStr (map char_of (nw_name n)), OStr '', ''] else fault OutOfBounds)"
    by (rule show_ssid_text [OF n(2) ok(1,2)])
  moreover have "show_bssid b = ret [OStr ''BSSID='', OStr (mac_text (nw_mac n)), OStr '', '']"
    using n(4) ok(3) by (simp add: show_bssid_def)
  ultimately show ?thesis
    using n c_div_signal [OF ok(4)]
    by (auto simp: show_result_def show_attr_def network_line_def not_less intro!: bnd_cong)
qed

lemma quiet_scan_cb: "other_news N d \<Longrightarrow> quiet (scan_cb_set N) (fst d)"
  by (rule quietI) (auto dest!: bspec simp: other_news_def scan_cb_set_def callback_of_scan_def scan_news_def Let_def)

lemma network_counted:
  assumes "parse_nl80211 N m NL80211_ATTR_IFNAME = None" and "parse_nl80211 N m NL80211_ATTR_BSS = Some b"
    and "parse_bss N b result_policy = Some bss" and "network_of N bss n"
  shows "callback_of_get_scan_result N m s =
    (if 64 \<le> length (nw_name n) \<or> 0 \<notin> set (nw_rest n) then fault OutOfBounds
     else bnd (get_attr (nla_get_u32 N) (bss NL80211_BSS_SEEN_MS_AGO)) (\<lambda>seen.
       ret (say ([OInt (scan_result_count s), OStr ''. ''] @ network_line n seen)
         (s\<lparr>scan_result_count := (scan_result_count s + 1) mod 4294967296\<rparr>), NL_OK)))"
  using assms(1-3) show_result_network [OF assms(4)]
  by (auto simp: callback_of_get_scan_result_def show_attr_def bnd_assoc say_update intro!: bnd_cong)

text \<open>
  A message that describes the network \<open>n\<close>, seen \<open>seen\<close> milliseconds ago, and that the dump callback
  can print; the lines for such messages, numbered from \<open>c\<close> on in an unsigned int.
\<close>

definition full_network :: "('k, 'm) libnl \<Rightarrow> 'm \<Rightarrow> network \<times> nat \<Rightarrow> bool" where
  "full_network N m = (\<lambda>(n, seen). length (nw_name n) < 64 \<and> 0 \<in> set (nw_rest n) \<and> (\<exists>b bss.
     parse_nl80211 N m NL80211_ATTR_IFNAME = None \<and> parse_nl80211 N m NL80211_ATTR_BSS = Some b
     \<and> parse_bss N b result_policy = Some bss \<and> network_of N bss n
     \<and> get_attr (nla_get_u32 N) (bss NL80211_BSS_SEEN_MS_AGO) = ret seen))"

fun network_lines :: "int \<Rightarrow> (network \<times> nat) list \<Rightarrow> out list" where
  "network_lines c [] = []"
| "network_lines c ((n, seen) # ns) =
     [OInt c, OStr ''. ''] @ network_line n seen @ network_lines ((c + 1) mod 4294967296) ns"

lemma full_network_line:
  "full_network N m (n, seen) \<Longrightarrow> callback_of_get_scan_result N m s =
     ret (say ([OInt (scan_result_count s), OStr ''. ''] @ network_line n seen)
       (s\<lparr>scan_result_count := (scan_result_count s + 1) mod 4294967296\<rparr>), NL_OK)"
  using network_counted [of N m] by (force simp: full_network_def)

lemma dispatch_results:
  "list_all2 (full_network N) ms ns \<Longrightarrow> 0 \<le> scan_result_count s \<Longrightarrow> scan_result_count s < 4294967296 \<Longrightarrow>
     dispatch (result_cb_set N) (map EvValid ms @ [EvFinish]) s =
       ret (say (network_lines (scan_result_count s) ns)
         (s\<lparr>scan_result_count := (scan_result_count s + int (length ms)) mod 4294967296\<rparr>))"
proof (induction ms ns arbitrary: s rule: list_all2_induct)
  case Nil
  then show ?case by (simp add: result_cb_set_def)
next
  case (Cons m ms x ns)
  obtain n seen where x: "x = (n, seen)" by (cases x)
  let ?s = "say ([OInt (scan_result_count s), OStr ''. ''] @ network_line n seen)
    (s\<lparr>scan_result_count := (scan_result_count s + 1) mod 4294967296\<rparr>)"
  have "result_cb_set N (EvValid m) s = ret (?s, NL_OK)"
    using full_network_line [of N m n seen s] Cons.hyps(1) x by (simp add: result_cb_set_def)
  with Cons.IH [of ?s] show ?case by (simp add: x say_update mod_simps add.assoc)
qed

definition trigger_ok :: "trigger_calls \<Rightarrow> bool" where
  "trigger_ok c \<longleftrightarrow> tc_cb c \<and> msg_alloc (tc_mc c) \<and> cb_alloc (tc_mc c) \<and> put_ok (tc_mc c) \<and> 0 \<le> send_ret (tc_mc c)
     \<and> 0 \<le> tc_join c \<and> p_alloc (tc_trigger c) \<and> p_header (tc_trigger c) \<and> p_ifindex (tc_trigger c) \<and> p_second (tc_trigger c)
     \<and> 0 \<le> p_send (tc_trigger c) \<and> p_alloc (tc_get c) \<and> p_header (tc_get c) \<and> p_ifindex (tc_get c) \<and> 0 \<le> p_send (tc_get c)"

definition trigger_requests :: "trigger_calls \<Rightarrow> request list" where
  "trigger_requests c = [\<lparr>req_cmd = CTRL_CMD_GETFAMILY, req_dump = False, req_attrs = [PutFamily ''nl80211'']\<rparr>,
     scan_request (tc_trigger c) (tc_idx c)]"

definition dump_request :: "nat \<Rightarrow> request" where
  "dump_request idx = \<lparr>req_cmd = NL80211_CMD_GET_SCAN, req_dump = True, req_attrs = [PutU32 NL80211_ATTR_IFINDEX idx]\<rparr>"

lemma trigger_scan_sends:
  "p_alloc c \<Longrightarrow> p_header c \<Longrightarrow> p_ifindex c \<Longrightarrow> p_second c \<Longrightarrow> 0 \<le> p_send c \<Longrightarrow>
     \<exists>os. trigger_scan N c idx w = (p_send c, w\<lparr>sent := sent w @ [scan_request c idx], cbs := say os (cbs w)\<rparr>)"
  by (simp add: trigger_scan_def Let_def send_request_def wsay_def hold_def release_def, rule exI, rule refl)

lemma cbstate_swap: "s\<lparr>scan_aborted := a, scan_done := d\<rparr> = s\<lparr>scan_done := d, scan_aborted := a\<rparr>" for s :: cbstate
  by simp

context libnl_recv
begin

lemma scan_cb_ack:
  assumes "arrives N k (ds @ [([EvAck], r2)]) k'" and "\<forall>d \<in> set ds. other_news N d" and "0 < err s"
  shows "\<exists>os. recv_while N (scan_cb_set N) (\<lambda>s. 0 < err s) (report_error N) k s r = ret (k', say os (s\<lparr>err := 0\<rparr>), r2)"
  using assms(2,3) quiet_scan_cb
  by (intro recv_while_until [where cond = "\<lambda>s. 0 < err s", OF assms(1)])
    (auto simp: scan_cb_set_def loud_ack_handler_def say_update)

lemma scan_cb_news:
  assumes "arrives N k (ds @ [([EvValid m], r2)]) k'" and "\<forall>d \<in> set ds. other_news N d" and "scan_news N m"
    and "scan_done s = 0"
  shows "\<exists>os. recv_while N (scan_cb_set N) (\<lambda>s. scan_done s = 0) (\<lambda>_. []) k s r =
    ret (k', say os (s\<lparr>scan_done := 1, scan_aborted := (if cmd_of N m = NL80211_CMD_NEW_SCAN_RESULTS then 0 else 1)\<rparr>), r2)"
  using assms(2-4) quiet_scan_cb
  by (intro recv_while_until [where cond = "\<lambda>s. scan_done s = 0", OF assms(1)])
    (auto simp: scan_cb_set_def callback_of_scan_def scan_news_def Let_def say_update cbstate_swap)

lemma trigger_main_acked:
  assumes "trigger_ok c" and "answers_family N f gs" and "0 \<le> group_id gs ''scan''"
    and "\<forall>d \<in> set ds. other_news N d"
    and "arrives N (sock w) ([([EvValid f], q1), ([EvAck], q2)] @ ds @ [([EvAck], r)]) k"
  shows "\<exists>os. let s = say os ((cbs w)\<lparr>scan_done := 0, scan_aborted := 0, err := 0\<rparr>) in trigger_main N c w =
    bnd (recv_while N (scan_cb_set N) (\<lambda>s. scan_done s = 0) (\<lambda>_. []) k s r) (\<lambda>(k, s, r).
      let w = w\<lparr>held := Membership (group_id gs ''scan'') # Callbacks # held w, sent := sent w @ trigger_requests c, sock := k, cbs := s\<rparr> in
      if scan_aborted s \<noteq> 0 then ret (- 1, wsay [OStr ''Failed to trigger scan due to abort.'', newline] w)
      else trigger_results N c (wsay [OStr ''Scan done.'', newline] w))"
proof -
  let ?w = "hold Callbacks w\<lparr>cbs := (cbs w)\<lparr>scan_done := 0, scan_aborted := 0, err := 1\<rparr>\<rparr>"
  have scan: "c_string ''scan''" by (simp add: c_string_def)
  obtain k1 where k1: "arrives N (sock w) [([EvValid f], q1), ([EvAck], q2)] k1" "arrives N k1 (ds @ [([EvAck], r)]) k"
    using assms(5) unfolding arrives_append [of N _ "[([EvValid f], q1), ([EvAck], q2)]"] by blast
  obtain g where g: "parse_ctrl N f CTRL_ATTR_MCAST_GROUPS = Some g" "list_all2 (describes N) (nested N g) gs"
    using assms(2) by (auto simp: answers_family_def)
  let ?ack = "[OStr ''Enter ack_handler'', newline]"
  let ?w1 = "wsay ?ack ?w\<lparr>sock := k1, sent := sent w @ [\<lparr>req_cmd = CTRL_CMD_GETFAMILY, req_dump = False, req_attrs = [PutFamily ''nl80211'']\<rparr>]\<rparr>"
  have "nl_get_multicast_id loud_ack_handler N (tc_mc c) ''nl80211'' ''scan'' ?w = ret (group_id gs ''scan'', ?w1)"
    using multicast_answer [of ?w f q1 q2 k1 g gs "''scan''" "tc_mc c" loud_ack_handler ?ack "''nl80211''"] k1(1) g scan assms(1)
    by (simp add: trigger_ok_def loud_ack_handler_def)
  then have join: "trigger_join N c ?w = ret (hold (Membership (group_id gs ''scan'')) ?w1)"
    using assms(1,3) by (simp add: trigger_join_def trigger_multicast_id_def trigger_ok_def)
  let ?w2 = "\<lambda>s. w\<lparr>sock := k1, held := [Membership (group_id gs ''scan''), Callbacks] @ held w,
      sent := sent w @ trigger_requests c, cbs := s\<rparr>"
  obtain os0 where tr: "trigger_scan N (tc_trigger c) (tc_idx c) (hold (Membership (group_id gs ''scan'')) ?w1) =
      (p_send (tc_trigger c), ?w2 (say os0 ((cbs w)\<lparr>scan_done := 0, scan_aborted := 0, err := 1\<rparr>)))"
    using trigger_scan_sends [of "tc_trigger c" N "tc_idx c" "hold (Membership (group_id gs ''scan'')) ?w1"] assms(1)
    by (auto simp: trigger_ok_def trigger_requests_def wsay_def hold_def)
  let ?s = "say os0 ((cbs w)\<lparr>scan_done := 0, scan_aborted := 0, err := 1\<rparr>)"
  obtain os where "recv_while N (scan_cb_set N) (\<lambda>s. 0 < err s) (report_error N) k1 ?s (p_send (tc_trigger c)) =
      ret (k, say os (?s\<lparr>err := 0\<rparr>), r)"
    using scan_cb_ack [OF k1(2) assms(4), of ?s] by auto
  with join tr show ?thesis
    using assms(1) by (auto simp: trigger_main_def trigger_ok_def Let_def wsay_def say_update cong: if_cong intro!: exI [of _ "os0 @ os"])
qed

end

section \<open>Properties\<close>

lemma get_scan_result_sends:
  "p_alloc c \<Longrightarrow> p_header c \<Longrightarrow> p_ifindex c \<Longrightarrow> 0 \<le> p_send c \<Longrightarrow>
     \<exists>os. get_scan_result c idx w = (p_send c, w\<lparr>sent := sent w @ [dump_request idx], cbs := say os (cbs w)\<rparr>)"
  by (simp add: get_scan_result_def Let_def send_request_def dump_request_def wsay_def hold_def release_def, rule exI, rule refl)

context libnl_recv
begin

lemma trigger_main_news:
  assumes "trigger_ok c" and "answers_family N f gs" and "0 \<le> group_id gs ''scan''"
    and "\<forall>d \<in> set ds1 \<union> set ds2. other_news N d" and "scan_news N m"
    and "arrives N (sock w) ([([EvValid f], q1), ([EvAck], q2)] @ ds1 @ [([EvAck], r)]) k"
    and "arrives N k (ds2 @ [([EvValid m], r2)]) k1"
  shows "\<exists>s. scan_result_count s = scan_result_count (cbs w) \<and> prefix (printed (cbs w)) (printed s) \<and>
    (let w' = w\<lparr>held := Membership (group_id gs ''scan'') # Callbacks # held w, sent := sent w @ trigger_requests c, sock := k1, cbs := s\<rparr> in
     trigger_main N c w =
       (if cmd_of N m = NL80211_CMD_NEW_SCAN_RESULTS then trigger_results N c (wsay [OStr ''Scan done.'', newline] w')
        else ret (- 1, wsay [OStr ''Failed to trigger scan due to abort.'', newline] w')))"
proof -
  have ds: "\<forall>d \<in> set ds1. other_news N d" "\<forall>d \<in> set ds2. other_news N d" using assms(4) by auto
  let ?a = "if cmd_of N m = NL80211_CMD_NEW_SCAN_RESULTS then 0 else 1 :: int"
  obtain os where os: "let s = say os ((cbs w)\<lparr>scan_done := 0, scan_aborted := 0, err := 0\<rparr>) in trigger_main N c w =
      bnd (recv_while N (scan_cb_set N) (\<lambda>s. scan_done s = 0) (\<lambda>_. []) k s r) (\<lambda>(k, s, r).
        let w = w\<lparr>held := Membership (group_id gs ''scan'') # Callbacks # held w, sent := sent w @ trigger_requests c, sock := k, cbs := s\<rparr> in
        if scan_aborted s \<noteq> 0 then ret (- 1, wsay [OStr ''Failed to trigger scan due to abort.'', newline] w)
        else trigger_results N c (wsay [OStr ''Scan done.'', newline] w))"
    using trigger_main_acked [OF assms(1-3) ds(1) assms(6)] by blast
  let ?s = "say os ((cbs w)\<lparr>scan_done := 0, scan_aborted := 0, err := 0\<rparr>)"
  obtain ps where ps: "recv_while N (scan_cb_set N) (\<lambda>s. scan_done s = 0) (\<lambda>_. []) k ?s r =
      ret (k1, say ps (?s\<lparr>scan_done := 1, scan_aborted := ?a\<rparr>), r2)"
    using scan_cb_news [OF assms(7) ds(2) assms(5), of ?s r] by auto
  show ?thesis
    using os unfolding Let_def ps by (intro exI [of _ "say ps (?s\<lparr>scan_done := 1, scan_aborted := ?a\<rparr>)"]) simp
qed

lemma trigger_main_waits:
  assumes "trigger_ok c" and "answers_family N f gs" and "0 \<le> group_id gs ''scan''"
    and "\<forall>d \<in> set ds1 \<union> set ds2. other_news N d"
    and "arrives N (sock w) ([([EvValid f], q1), ([EvAck], q2)] @ ds1 @ [([EvAck], r)]) k"
    and "arrives N k ds2 k'" and "next_datagram N k' = None"
  shows "trigger_main N c w = None"
proof -
  have ds: "\<forall>d \<in> set ds1. other_news N d" "\<forall>d \<in> set ds2. quiet (scan_cb_set N) (fst d)" using assms(4) quiet_scan_cb by auto
  have "recv_while N (scan_cb_set N) (\<lambda>s. scan_done s = 0) (\<lambda>_. []) k s r = None" if "scan_done s = 0" for s
    by (rule recv_while_waits [where cond = "\<lambda>s. scan_done s = 0", OF assms(6,7) ds(2) that]) simp
  then show ?thesis using trigger_main_acked [OF assms(1-3) ds(1) assms(5)] by (auto simp: Let_def)
qed

lemma trigger_results_lines:
  assumes "trigger_ok c" and "list_all2 (full_network N) ms ns" and "next_datagram N (sock w) = Some (map EvValid ms @ [EvFinish], r, k)"
    and "0 \<le> r" and "0 \<le> scan_result_count (cbs w)" "scan_result_count (cbs w) < 4294967296"
  shows "\<exists>w' os. trigger_results N c w = ret (0, w') \<and> sock w' = k \<and> sent w' = sent w @ [dump_request (tc_idx c)] \<and> held w' = held w
    \<and> printed (cbs w') = printed (cbs w) @ os @ network_lines (scan_result_count (cbs w)) ns
    \<and> scan_result_count (cbs w') = (scan_result_count (cbs w) + int (length ms)) mod 4294967296"
proof -
  obtain os where os: "get_scan_result (tc_get c) (tc_idx c) w =
      (p_send (tc_get c), w\<lparr>sent := sent w @ [dump_request (tc_idx c)], cbs := say os (cbs w)\<rparr>)"
    using get_scan_result_sends [of "tc_get c"] assms(1) by (auto simp: trigger_ok_def)
  let ?s = "say [OStr ''Get scan result done.'', newline] (say os (cbs w))"
  have "dispatch (result_cb_set N) (map EvValid ms @ [EvFinish]) ?s =
      ret (say (network_lines (scan_result_count ?s) ns) (?s\<lparr>scan_result_count := (scan_result_count ?s + int (length ms)) mod 4294967296\<rparr>))"
    using assms(5,6) by (intro dispatch_results [OF assms(2)]) simp_all
  then have "nl_recvmsgs N (sock w) (result_cb_set N) ?s =
      ret (k, say (network_lines (scan_result_count ?s) ns) (?s\<lparr>scan_result_count := (scan_result_count ?s + int (length ms)) mod 4294967296\<rparr>), r)"
    using assms(3) by (simp add: recv_law)
  then show ?thesis
    using os assms(1,4) by (simp add: trigger_results_def trigger_ok_def Let_def)
qed

end



text \<open>A network as bytes: the name \<open>name\<close>, 2437 MHz, -50 dBm, seen 20 ms ago (for \<open>True\<close>), connected.\<close>

definition network_attrs :: "nat list \<Rightarrow> bool \<Rightarrow> (nat \<times> nat list) list" where
  "network_attrs name seen =
     [(1, [0, 17, 34, 51, 68, 85]), (2, le_enc 4 2437), (6, 0 # length name # name @ [1, 1, 130, 5, 1, 0]),
      (7, le_enc 4 4294962296), (9, le_enc 4 1)] @ (if seen then [(10, le_enc 4 20)] else [])"

definition network_msg :: "nat list \<Rightarrow> bool \<Rightarrow> genl_msg" where
  "network_msg name seen = (34, concat (map enc_attr [(47, concat (map enc_attr (network_attrs name seen)))]))"

definition a_network :: "nat list \<Rightarrow> network" where
  "a_network name = \<lparr>nw_name = name, nw_rest = [1, 1, 130, 5, 1, 0], nw_mac = [0, 17, 34, 51, 68, 85], nw_freq = 2437,
     nw_signal = 4294962296, nw_connected = True\<rparr>"

definition network_table :: "nat list \<Rightarrow> bool \<Rightarrow> bss_attr nla_table" where
  "network_table name seen x = lookup_attr (bss_no x) (map (\<lambda>(t, d). \<lparr>nla_type = t, nla_data = d\<rparr>) (network_attrs name seen))"

lemma numbers: "le_nat (le_enc 4 2437) = 2437" "le_nat (le_enc 4 4294962296) = 4294962296" "le_nat (le_enc 4 (Suc 0)) = Suc 0" "le_nat (le_enc 4 20) = 20"
  by (simp_all add: le_nat_enc)

lemma network_table_seen:
  "network_table name seen NL80211_BSS_SEEN_MS_AGO = (if seen then Some \<lparr>nla_type = 10, nla_data = le_enc 4 20\<rparr> else None)"
  by (simp add: network_table_def network_attrs_def lookup_attr_def)

lemma network_msg_ok:
  assumes "length name < 256" and "0 \<notin> set name" and "list_all (\<lambda>b. b < 256) name"
  shows "\<exists>b. parse_nl80211 libnl3 (network_msg name seen) NL80211_ATTR_IFNAME = None
    \<and> parse_nl80211 libnl3 (network_msg name seen) NL80211_ATTR_BSS = Some b
    \<and> parse_bss libnl3 b result_policy = Some (network_table name seen) \<and> network_of libnl3 (network_table name seen) (a_network name)"
proof -
  let ?d = "concat (map enc_attr (network_attrs name seen))"
  have 1: "attrs_of ?d = map (\<lambda>(t, d). \<lparr>nla_type = t, nla_data = d\<rparr>) (network_attrs name seen)"
    using assms(1) by (intro attrs_of_enc) (simp add: attr_ok_def network_attrs_def)
  have len: "length ?d < 65532" using assms(1) by (simp add: network_attrs_def) linarith
  have 2: "attrs_of (snd (network_msg name seen)) = [\<lparr>nla_type = 47, nla_data = ?d\<rparr>]"
    unfolding network_msg_def snd_conv using len by (subst attrs_of_enc) (simp_all add: attr_ok_def)
  have "parse_bss libnl3 \<lparr>nla_type = 47, nla_data = ?d\<rparr> result_policy = Some (network_table name seen)"
    unfolding libnl3_fields parse_with_def Let_def nlattr.simps 1 network_table_def [abs_def]
    by (simp add: result_policy_def network_attrs_def lookup_attr_def min_len_def)
  moreover have "network_of libnl3 (network_table name seen) (a_network name)"
    using assms(2,3)
    by (simp add: network_of_def network_table_def network_attrs_def a_network_def lookup_attr_def get_le_def numbers)
  ultimately show ?thesis using 2 by (simp add: lookup_attr_def)
qed


definition all_put :: put_calls where
  "all_put = \<lparr>p_alloc = True, p_header = True, p_ifindex = True, p_second = True, p_third = True, p_send = 40\<rparr>"

definition trigger_all_ok :: trigger_calls where
  "trigger_all_ok = \<lparr>tc_cb = True, tc_mc = mc all_ok, tc_join = 0, tc_trigger = all_put, tc_get = all_put, tc_idx = 3\<rparr>"

lemma network_msg_full: "full_network libnl3 (network_msg [97, 98] True) (a_network [97, 98], 20)"
  using network_msg_ok [of "[97, 98]" True]
  by (auto simp: full_network_def a_network_def network_table_seen get_attr_def get_le_def numbers)


text \<open>
  The channel that is printed for the centre frequency of a channel is the number of that channel, for
  the channels 1 to 13, 36 to 48 and 149 to 169; for other frequencies none of these numbers is
  made up: a printed channel lies in one of the three ranges, and its frequency less than one step
  of 5 MHz above the channel's.
\<close>

lemma assoc_channel_correct:
  "(1 \<le> c \<and> c \<le> 13 \<longrightarrow> assoc_channel (2407 + 5 * c) = Some c)
   \<and> (36 \<le> c \<and> c \<le> 48 \<or> 149 \<le> c \<and> c \<le> 169 \<longrightarrow> assoc_channel (5000 + 5 * c) = Some c)
   \<and> (assoc_channel f = Some ch \<longrightarrow>
        (1 \<le> ch \<and> ch \<le> 13 \<and> 2407 + 5 * ch \<le> f \<and> f < 2412 + 5 * ch)
        \<or> ((36 \<le> ch \<and> ch \<le> 48 \<or> 149 \<le> ch \<and> ch \<le> 169) \<and> 5000 + 5 * ch \<le> f \<and> f < 5005 + 5 * ch))"
proof -
  have "(1 \<le> ch \<and> ch \<le> 13 \<and> 2407 + 5 * ch \<le> f \<and> f < 2412 + 5 * ch)
        \<or> ((36 \<le> ch \<and> ch \<le> 48 \<or> 149 \<le> ch \<and> ch \<le> 169) \<and> 5000 + 5 * ch \<le> f \<and> f < 5005 + 5 * ch)"
    if "assoc_channel f = Some ch"
    using that unfolding assoc_channel_def by (simp split: if_splits) linarith+
  then show ?thesis by (auto simp: assoc_channel_def)
qed

lemma assoc_channel_correct_witness: "assoc_channel 2467 = Some 12 \<and> assoc_channel 5745 = Some 149 \<and> (6 :: nat) \<le> 13"
  using assoc_channel_correct [of 12 2437 6] assoc_channel_correct [of 149 2437 6] by (simp add: assoc_channel_def)

end
