(* ===== verification/Genl_Station.thy ===== *)
theory Genl_Station
  imports Genl_Trigger
begin

text \<open>
  \<^verbatim>\<open>generic_netlink/get_sta_info_NL80211_CMD_GET_STATION.c\<close>: asks for the wireless interfaces, then for
  the station that the last of them is connected to, and prints what the kernel knows about it.
\<close>

section \<open>Callbacks\<close>

definition sta_finish_handler :: "cbstate \<Rightarrow> cbstate \<times> nl_action" where
  "sta_finish_handler s = ((say [OStr ''Enter finish_handler'', newline] s)\<lparr>err := 0\<rparr>, NL_SKIP)"

definition sta_ack_handler :: "cbstate \<Rightarrow> cbstate \<times> nl_action" where
  "sta_ack_handler s = ((say [OStr ''Enter ack_handler'', newline] s)\<lparr>err := 0\<rparr>, NL_STOP)"

definition sta_error_handler :: "int \<Rightarrow> cbstate \<Rightarrow> cbstate \<times> nl_action" where
  "sta_error_handler e s = ((say [OStr ''Enter error_handler'', newline] s)\<lparr>err := e\<rparr>, NL_STOP)"

definition callback_of_get_interface_index :: "('k, 'm) libnl \<Rightarrow> 'm \<Rightarrow> cbstate \<Rightarrow> (cbstate \<times> nl_action) cres" where
  "callback_of_get_interface_index N msg s =
     (let tb = parse_nl80211 N msg in
      bnd (show_attr (tb NL80211_ATTR_IFNAME) (\<lambda>a. bnd (nla_get_string N a) (\<lambda>n. ret [OStr ''IFACE='', OStr n, OStr '', '']))) (\<lambda>o1.
      let s = say o1 s in
      bnd (case tb NL80211_ATTR_IFINDEX of
             None \<Rightarrow> ret s
           | Some a \<Rightarrow> bnd (nla_get_u32 N a) (\<lambda>v. ret (s\<lparr>iface_idx := v\<rparr>))) (\<lambda>s.
      ret (say [newline] s, NL_SKIP))))"

definition info_policy :: "sta_attr nla_policy" where
  "info_policy =
     [(NL80211_STA_INFO_TX_BYTES, NLA_U32), (NL80211_STA_INFO_RX_BYTES, NLA_U32), (NL80211_STA_INFO_TX_PACKETS, NLA_U32),
      (NL80211_STA_INFO_RX_PACKETS, NLA_U32), (NL80211_STA_INFO_TX_BITRATE, NLA_NESTED),
      (NL80211_STA_INFO_RX_BITRATE, NLA_NESTED), (NL80211_STA_INFO_SIGNAL, NLA_U8)]"

definition bitrate_policy :: "rate_attr nla_policy" where
  "bitrate_policy =
     [(NL80211_RATE_INFO_BITRATE, NLA_U16), (NL80211_RATE_INFO_MCS, NLA_U8), (NL80211_RATE_INFO_VHT_MCS, NLA_U8),
      (NL80211_RATE_INFO_VHT_NSS, NLA_U8), (NL80211_RATE_INFO_SHORT_GI, NLA_FLAG)]"

text \<open>\<^verbatim>\<open>if (tb[i]) printf("...%u\n", nla_get(tb[i]))\<close>.\<close>

definition show_num :: "string \<Rightarrow> (nlattr \<Rightarrow> nat cres) \<Rightarrow> nlattr option \<Rightarrow> out list cres" where
  "show_num label get a = show_attr a (\<lambda>x. bnd (get x) (\<lambda>v. ret [OStr label, OInt (int v), newline]))"

text \<open>The conversion to \<^verbatim>\<open>int8_t\<close>.\<close>

definition to_int8 :: "nat \<Rightarrow> int" where
  "to_int8 v = (if v < 128 then int v else int v - 256)"

text \<open>The counters of a station. The line of the received packets reads the attribute of the sent ones.\<close>

definition show_counters :: "('k, 'm) libnl \<Rightarrow> sta_attr nla_table \<Rightarrow> out list cres" where
  "show_counters N info =
     bnd (show_num ''TX_BYTES='' (nla_get_u32 N) (info NL80211_STA_INFO_TX_BYTES)) (\<lambda>o1.
     bnd (show_num ''TX_PACKETS='' (nla_get_u32 N) (info NL80211_STA_INFO_TX_PACKETS)) (\<lambda>o2.
     bnd (show_num ''TX_BYTES='' (nla_get_u32 N) (info NL80211_STA_INFO_RX_BYTES)) (\<lambda>o3.
     bnd (show_attr (info NL80211_STA_INFO_RX_PACKETS) (\<lambda>_.
       bnd (get_attr (nla_get_u32 N) (info NL80211_STA_INFO_TX_PACKETS)) (\<lambda>v. ret [OStr ''RX_PACKETS='', OInt (int v), newline]))) (\<lambda>o4.
     bnd (show_attr (info NL80211_STA_INFO_CHAIN_SIGNAL) (\<lambda>a.
       bnd (nla_get_string N a) (\<lambda>t. ret [OStr ''SIGNAL='', OStr t, newline]))) (\<lambda>o5.
     bnd (show_attr (info NL80211_STA_INFO_SIGNAL) (\<lambda>a. bnd (nla_get_u8 N a) (\<lambda>v.
       ret [OStr ''SIGNAL='', OInt (to_int8 v), OStr '' dbm('', OInt (int v), OStr '' dbm)'', newline]))) (\<lambda>o6.
       ret (o1 @ o2 @ o3 @ o4 @ o5 @ o6)))))))"

text \<open>The numbers of a rate from \<open>rate\<close>, the flags for the width from \<open>flags\<close>.\<close>

definition show_rate :: "('k, 'm) libnl \<Rightarrow> rate_attr nla_table \<Rightarrow> rate_attr nla_table \<Rightarrow> out list cres" where
  "show_rate N rate flags =
     bnd (show_num ''  BITRATE='' (nla_get_u16 N) (rate NL80211_RATE_INFO_BITRATE)) (\<lambda>o1.
     bnd (show_num ''  MCS='' (nla_get_u8 N) (rate NL80211_RATE_INFO_MCS)) (\<lambda>o2.
     bnd (show_num ''  VHT_MCS='' (nla_get_u8 N) (rate NL80211_RATE_INFO_VHT_MCS)) (\<lambda>o3.
     bnd (show_num ''  VHT_NSS='' (nla_get_u8 N) (rate NL80211_RATE_INFO_VHT_NSS)) (\<lambda>o4.
       ret (o1 @ o2 @ o3 @ o4 @
            (if nla_get_flag N (flags NL80211_RATE_INFO_40_MHZ_WIDTH) then [OStr ''  VHT40'', newline] else []) @
            (if nla_get_flag N (flags NL80211_RATE_INFO_80_MHZ_WIDTH) then [OStr ''  VHT80'', newline] else []))))))"

definition callback_of_get_sta_info :: "('k, 'm) libnl \<Rightarrow> 'm \<Rightarrow> cbstate \<Rightarrow> (cbstate \<times> nl_action) cres" where
  "callback_of_get_sta_info N msg s =
     (let s = say [OStr ''Enter callback_of_get_sta_info'', newline] s in
      case parse_nl80211 N msg NL80211_ATTR_STA_INFO of
        None \<Rightarrow> ret (say [OStr ''STA info is missing.'', newline] s, NL_SKIP)
      | Some sta \<Rightarrow>
          let s = s\<lparr>got := 1\<rparr> in
          case parse_sta N sta info_policy of
            None \<Rightarrow> ret (say [OStr ''Failed to parse STA info nested nla.'', newline] s, NL_SKIP)
          | Some tb_info \<Rightarrow>
              bnd (show_counters N tb_info) (\<lambda>os.
              let s = say os s in
              case tb_info NL80211_STA_INFO_TX_BITRATE of
                None \<Rightarrow> ret (say [OStr ''Tx bitrate is missing.'', newline] s, NL_SKIP)
              | Some tx \<Rightarrow>
                  (case parse_rate N tx bitrate_policy of
                     None \<Rightarrow> ret (say [OStr ''Failed to parse Tx bitrate nested nla.'', newline] s, NL_SKIP)
                   | Some tb_tx_rate \<Rightarrow>
                       bnd (show_rate N tb_tx_rate tb_tx_rate) (\<lambda>os.
                       let s = say ([OStr ''Tx information:'', newline] @ os) s in
                       case tb_info NL80211_STA_INFO_RX_BITRATE of
                         None \<Rightarrow> ret (say [OStr ''Tx bitrate is missing.'', newline] s, NL_SKIP)
                       | Some rx \<Rightarrow>
                           (case parse_rate N rx bitrate_policy of
                              None \<Rightarrow> ret (say [OStr ''Failed to parse Rx bitrate nested nla.'', newline] s, NL_SKIP)
                            | Some tb_rx_rate \<Rightarrow>
                                bnd (show_rate N tb_rx_rate tb_tx_rate) (\<lambda>os.
                                ret (say ([OStr ''Rx information:'', newline] @ os) s, NL_SKIP)))))))"

section \<open>Requests\<close>

definition interface_request :: request where
  "interface_request = \<lparr>req_cmd = NL80211_CMD_GET_INTERFACE, req_dump = True, req_attrs = []\<rparr>"

definition get_interface_index :: "put_calls \<Rightarrow> 'k world \<Rightarrow> int \<times> 'k world" where
  "get_interface_index c w =
     (let w = wsay [OStr ''Enter get_interface_index'', newline] w in
      if \<not> p_alloc c then (- ENOMEM, wsay [OStr ''Failed to allocate netlink message.'', newline] w)
      else let w = hold Message w in
      if \<not> p_header c then (- 1, release Message (wsay [OStr ''Failed to create netlink message header.'', newline] w))
      else send_request c interface_request ''[NL80211_CMD_GET_INTERFACE]'' w)"

definition sta_mac :: "nat list" where
  "sta_mac = [0x3c, 0x7c, 0x3f, 0xe1, 0x2e, 0x00]"

definition station_request :: "nat \<Rightarrow> request" where
  "station_request idx = \<lparr>req_cmd = NL80211_CMD_GET_STATION, req_dump = True,
     req_attrs = [PutU32 NL80211_ATTR_IFINDEX idx, PutBytes NL80211_ATTR_MAC sta_mac]\<rparr>"

definition get_station_info :: "put_calls \<Rightarrow> nat \<Rightarrow> 'k world \<Rightarrow> int \<times> 'k world" where
  "get_station_info c idx w =
     (let w = wsay [OStr ''Enter get_station_info'', newline] w in
      if \<not> p_alloc c then (- ENOMEM, wsay [OStr ''Failed to allocate netlink message.'', newline] w)
      else let w = hold Message w in
      if \<not> p_header c then (- 1, release Message (wsay [OStr ''Failed to create netlink message header.'', newline] w))
      else if \<not> p_ifindex c then (- 1, release Message w)
      else if \<not> p_second c then (- 1, release Message w)
      else send_request c (station_request idx) ''[NL80211_CMD_GET_STATION]'' w)"

section \<open>The program\<close>

record station_calls =
  sc_cb :: bool
  sc_cb2 :: bool
  sc_iface :: put_calls
  sc_sta :: put_calls

definition iface_cb_set :: "('k, 'm) libnl \<Rightarrow> 'm callbacks" where
  "iface_cb_set N e s =
     (case e of
        EvFinish \<Rightarrow> ret (sta_finish_handler s)
      | EvAck \<Rightarrow> ret (sta_ack_handler s)
      | EvError c \<Rightarrow> ret (sta_error_handler c s)
      | EvValid m \<Rightarrow> callback_of_get_interface_index N m s)"

definition sta_cb_set :: "('k, 'm) libnl \<Rightarrow> 'm callbacks" where
  "sta_cb_set N e s = (case e of EvValid m \<Rightarrow> callback_of_get_sta_info N m s | _ \<Rightarrow> ret (s, default_action N e))"

text \<open>The last loop; \<open>sent_ret\<close> is the result of sending, which the error message prints instead of \<^verbatim>\<open>res\<close>.\<close>

partial_function (option) sta_loop ::
    "('k, 'm) libnl \<Rightarrow> int \<Rightarrow> 'k \<Rightarrow> cbstate \<Rightarrow> (int \<times> 'k \<times> cbstate) cres" where
  "sta_loop N sent_ret k s =
     (if got s = 0
      then bnd (nl_recvmsgs N k (sta_cb_set N) s) (\<lambda>(k, s, res).
        if res < 0 then ret (res, k, say (OStr ''ERROR: '' # recv_error_line N ''nl_recvmsgs_default'' sent_ret) s)
        else sta_loop N sent_ret k s)
      else ret (0, k, s))"

definition station_main :: "('k, 'm) libnl \<Rightarrow> station_calls \<Rightarrow> 'k world \<Rightarrow> (int \<times> 'k world) cres" where
  "station_main N c w =
     (if \<not> sc_cb c then ret (- ENOMEM, wsay [OStr ''Failed to allocate netlink callbacks.'', newline] w)
      else let w = hold Callbacks w in
      if \<not> sc_cb2 c then ret (- ENOMEM, wsay [OStr ''Failed to allocate netlink callbacks.'', newline] w)
      else let w = hold Callbacks w; w = w\<lparr>cbs := (cbs w)\<lparr>iface_idx := 0, got := 0, err := 1\<rparr>\<rparr> in
      case get_interface_index (sc_iface c) w of (r, w) \<Rightarrow>
        if r < 0 then ret (r, wsay [OStr ''Failed to get station info. ('', OInt r, OStr '')'', newline] w)
        else
          bnd (recv_while N (iface_cb_set N) (\<lambda>s. 0 < err s) (report_error N) (sock w) (cbs w) r) (\<lambda>(k, s, r).
          let s = say [OStr ''Send NL80211_CMD_GET_INTERFACE done.'', newline] s in
          bnd (recv_while N (iface_cb_set N) (\<lambda>s. iface_idx s = 0) (report_error N) k s r) (\<lambda>(k, s, r).
          case get_station_info (sc_sta c) (iface_idx s) (w\<lparr>sock := k, cbs := s\<rparr>) of (r, w) \<Rightarrow>
            if r < 0 then ret (r, wsay [OStr ''Failed to get station info. ('', OInt r, OStr '')'', newline] w)
            else
              bnd (sta_loop N r (sock w) (cbs w)) (\<lambda>(res, k, s).
              ret (res, w\<lparr>sock := k, cbs := s\<rparr>)))))"

section \<open>What the callback prints\<close>

text \<open>The optional number \<open>v\<close> is what \<open>get\<close> reads from the attribute.\<close>

definition reads :: "(nlattr \<Rightarrow> nat cres) \<Rightarrow> nlattr option \<Rightarrow> nat option \<Rightarrow> bool" where
  "reads get a v \<longleftrightarrow> (case a of None \<Rightarrow> v = None | Some x \<Rightarrow> (\<exists>n. v = Some n \<and> get x = ret n))"

definition num_line :: "string \<Rightarrow> nat option \<Rightarrow> out list" where
  "num_line label v = (case v of None \<Rightarrow> [] | Some n \<Rightarrow> [OStr label, OInt (int n), newline])"

lemma show_num_reads: "reads get a v \<Longrightarrow> show_num label get a = ret (num_line label v)"
  by (auto simp: reads_def show_num_def show_attr_def num_line_def split: option.splits)

record station =
  tx_bytes :: "nat option"
  rx_bytes :: "nat option"
  tx_packets :: "nat option"
  rx_packets :: "nat option"
  rssi :: "nat option"

record rate =
  bitrate :: "nat option"
  mcs :: "nat option"
  vht_mcs :: "nat option"
  vht_nss :: "nat option"
  width40 :: bool
  width80 :: bool

definition station_of :: "('k, 'm) libnl \<Rightarrow> sta_attr nla_table \<Rightarrow> station \<Rightarrow> bool" where
  "station_of N info st \<longleftrightarrow>
     reads (nla_get_u32 N) (info NL80211_STA_INFO_TX_BYTES) (tx_bytes st)
     \<and> reads (nla_get_u32 N) (info NL80211_STA_INFO_RX_BYTES) (rx_bytes st)
     \<and> reads (nla_get_u32 N) (info NL80211_STA_INFO_TX_PACKETS) (tx_packets st)
     \<and> reads (nla_get_u32 N) (info NL80211_STA_INFO_RX_PACKETS) (rx_packets st)
     \<and> reads (nla_get_u8 N) (info NL80211_STA_INFO_SIGNAL) (rssi st)
     \<and> info NL80211_STA_INFO_CHAIN_SIGNAL = None"

definition rate_of :: "('k, 'm) libnl \<Rightarrow> rate_attr nla_table \<Rightarrow> rate \<Rightarrow> bool" where
  "rate_of N tb r \<longleftrightarrow>
     reads (nla_get_u16 N) (tb NL80211_RATE_INFO_BITRATE) (bitrate r) \<and> reads (nla_get_u8 N) (tb NL80211_RATE_INFO_MCS) (mcs r)
     \<and> reads (nla_get_u8 N) (tb NL80211_RATE_INFO_VHT_MCS) (vht_mcs r) \<and> reads (nla_get_u8 N) (tb NL80211_RATE_INFO_VHT_NSS) (vht_nss r)
     \<and> nla_get_flag N (tb NL80211_RATE_INFO_40_MHZ_WIDTH) = width40 r \<and> nla_get_flag N (tb NL80211_RATE_INFO_80_MHZ_WIDTH) = width80 r"

definition counter_lines :: "station \<Rightarrow> out list" where
  "counter_lines st = num_line ''TX_BYTES='' (tx_bytes st) @ num_line ''TX_PACKETS='' (tx_packets st) @
     num_line ''TX_BYTES='' (rx_bytes st) @ (if rx_packets st = None then [] else num_line ''RX_PACKETS='' (tx_packets st)) @
     (case rssi st of None \<Rightarrow> [] | Some v \<Rightarrow> [OStr ''SIGNAL='', OInt (to_int8 v), OStr '' dbm('', OInt (int v), OStr '' dbm)'', newline])"

definition rate_lines :: "rate \<Rightarrow> rate \<Rightarrow> out list" where
  "rate_lines r fl = num_line ''  BITRATE='' (bitrate r) @ num_line ''  MCS='' (mcs r) @ num_line ''  VHT_MCS='' (vht_mcs r) @
     num_line ''  VHT_NSS='' (vht_nss r) @ (if width40 fl then [OStr ''  VHT40'', newline] else []) @
     (if width80 fl then [OStr ''  VHT80'', newline] else [])"

lemma show_counters_station:
  "station_of N info st \<Longrightarrow> show_counters N info =
     (if rx_packets st \<noteq> None \<and> tx_packets st = None then fault NullDeref else ret (counter_lines st))"
  by (auto simp: station_of_def show_counters_def show_num_reads counter_lines_def)
    (auto simp: reads_def show_attr_def get_attr_def num_line_def split: option.splits)

lemma show_rate_lines: "rate_of N tb r \<Longrightarrow> rate_of N ft fl \<Longrightarrow> show_rate N tb ft = ret (rate_lines r fl)"
  by (auto simp: rate_of_def show_rate_def show_num_reads rate_lines_def)

text \<open>A message about a station with both rates.\<close>

definition station_msg :: "('k, 'm) libnl \<Rightarrow> 'm \<Rightarrow> station \<Rightarrow> rate \<Rightarrow> rate \<Rightarrow> bool" where
  "station_msg N m st tx rx \<longleftrightarrow>
     (\<exists>a info t r tb_tx tb_rx. parse_nl80211 N m NL80211_ATTR_STA_INFO = Some a \<and> parse_sta N a info_policy = Some info
        \<and> station_of N info st \<and> info NL80211_STA_INFO_TX_BITRATE = Some t \<and> parse_rate N t bitrate_policy = Some tb_tx \<and> rate_of N tb_tx tx
        \<and> info NL80211_STA_INFO_RX_BITRATE = Some r \<and> parse_rate N r bitrate_policy = Some tb_rx \<and> rate_of N tb_rx rx)"

definition station_lines :: "station \<Rightarrow> rate \<Rightarrow> rate \<Rightarrow> out list" where
  "station_lines st tx rx = [OStr ''Enter callback_of_get_sta_info'', newline] @ counter_lines st @
     [OStr ''Tx information:'', newline] @ rate_lines tx tx @ [OStr ''Rx information:'', newline] @ rate_lines rx tx"

lemma callback_of_station:
  "station_msg N m st tx rx \<Longrightarrow> callback_of_get_sta_info N m s =
     (if rx_packets st \<noteq> None \<and> tx_packets st = None then fault NullDeref
      else ret (say (station_lines st tx rx) (s\<lparr>got := 1\<rparr>), NL_SKIP))"
  by (auto simp: station_msg_def callback_of_get_sta_info_def show_counters_station show_rate_lines station_lines_def say_update Let_def)

section \<open>A run of the program\<close>

text \<open>A message about the interface number \<open>i\<close>.\<close>

definition iface_msg :: "('k, 'm) libnl \<Rightarrow> 'm \<Rightarrow> nat \<Rightarrow> bool" where
  "iface_msg N m i \<longleftrightarrow> (\<exists>a. parse_nl80211 N m NL80211_ATTR_IFINDEX = Some a \<and> nla_get_u32 N a = ret i)
     \<and> (\<forall>a \<in> set_option (parse_nl80211 N m NL80211_ATTR_IFNAME). \<exists>t. nla_get_string N a = ret t)"

lemma callback_of_iface:
  "iface_msg N m i \<Longrightarrow> \<exists>os. callback_of_get_interface_index N m s = ret (say os (s\<lparr>iface_idx := i\<rparr>), NL_SKIP)"
  by (cases "parse_nl80211 N m NL80211_ATTR_IFNAME")
    (auto simp: iface_msg_def callback_of_get_interface_index_def show_attr_def say_update Let_def)

lemma dispatch_ifaces:
  "list_all2 (iface_msg N) ms ns \<Longrightarrow> \<exists>os. dispatch (iface_cb_set N) (map EvValid ms @ [EvFinish]) s =
     ret (say os (s\<lparr>iface_idx := last (iface_idx s # ns), err := 0\<rparr>))"
proof (induction arbitrary: s rule: list_all2_induct)
  case Nil
  then show ?case by (auto simp: iface_cb_set_def sta_finish_handler_def say_update)
next
  case (Cons m ms i ns)
  obtain os where os: "callback_of_get_interface_index N m s = ret (say os (s\<lparr>iface_idx := i\<rparr>), NL_SKIP)"
    using callback_of_iface [OF Cons.hyps(1)] by blast
  let ?s = "say os (s\<lparr>iface_idx := i\<rparr>)"
  obtain ps where "dispatch (iface_cb_set N) (map EvValid ms @ [EvFinish]) ?s =
      ret (say ps (?s\<lparr>iface_idx := last (iface_idx ?s # ns), err := 0\<rparr>))" using Cons.IH by blast
  then have "dispatch (iface_cb_set N) (map EvValid ms @ [EvFinish]) ?s =
      ret (say (os @ ps) (s\<lparr>iface_idx := last (iface_idx s # i # ns), err := 0\<rparr>))" by (simp add: say_update)
  moreover have "iface_cb_set N (EvValid m) s = ret (?s, NL_SKIP)" using os by (simp add: iface_cb_set_def)
  ultimately show ?case by auto
qed

definition put_all :: "put_calls \<Rightarrow> bool" where
  "put_all c \<longleftrightarrow> p_alloc c \<and> p_header c \<and> p_ifindex c \<and> p_second c \<and> 0 \<le> p_send c"

definition station_ok :: "station_calls \<Rightarrow> bool" where
  "station_ok c \<longleftrightarrow> sc_cb c \<and> sc_cb2 c \<and> put_all (sc_iface c) \<and> put_all (sc_sta c)"

lemma get_interface_index_sends:
  "put_all c \<Longrightarrow> \<exists>os. get_interface_index c w = (p_send c, w\<lparr>sent := sent w @ [interface_request], cbs := say os (cbs w)\<rparr>)"
  by (simp add: put_all_def get_interface_index_def Let_def send_request_def wsay_def hold_def release_def, rule exI, rule refl)

lemma get_station_info_sends:
  "put_all c \<Longrightarrow> \<exists>os. get_station_info c idx w = (p_send c, w\<lparr>sent := sent w @ [station_request idx], cbs := say os (cbs w)\<rparr>)"
  by (simp add: put_all_def get_station_info_def Let_def send_request_def wsay_def hold_def release_def, rule exI, rule refl)

context libnl_recv
begin

lemma station_asked:
  assumes "station_ok c" and "next_datagram N (sock w) = Some (map EvValid ms @ [EvFinish], q, k)"
    and "list_all2 (iface_msg N) ms ns" and "last (0 # ns) \<noteq> 0"
  shows "\<exists>s. got s = 0 \<and> station_main N c w =
    bnd (sta_loop N (p_send (sc_sta c)) k s) (\<lambda>(res, k, s).
      ret (res, w\<lparr>held := Callbacks # Callbacks # held w,
        sent := sent w @ [interface_request, station_request (last (0 # ns))], sock := k, cbs := s\<rparr>))"
proof -
  let ?s = "(cbs w)\<lparr>iface_idx := 0, got := 0, err := 1\<rparr>"
  obtain o1 where o1: "get_interface_index (sc_iface c) (hold Callbacks (hold Callbacks w)\<lparr>cbs := ?s\<rparr>) =
      (p_send (sc_iface c), w\<lparr>held := Callbacks # Callbacks # held w, sent := sent w @ [interface_request], cbs := say o1 ?s\<rparr>)"
    using get_interface_index_sends [of "sc_iface c" "hold Callbacks (hold Callbacks w)\<lparr>cbs := ?s\<rparr>"] assms(1)
    by (auto simp: station_ok_def hold_def)
  obtain o2 where o2: "dispatch (iface_cb_set N) (map EvValid ms @ [EvFinish]) (say o1 ?s) =
      ret (say o2 ((say o1 ?s)\<lparr>iface_idx := last (0 # ns), err := 0\<rparr>))"
    using dispatch_ifaces [OF assms(3), of "say o1 ?s"] by auto
  let ?t = "say (o2 @ report_error N q) ((say o1 ?s)\<lparr>iface_idx := last (0 # ns), err := 0\<rparr>)"
  have r1: "recv_while N (iface_cb_set N) (\<lambda>s. 0 < err s) (report_error N) (sock w) (say o1 ?s) (p_send (sc_iface c)) = ret (k, ?t, q)"
    using recv_while_last [where cond = "\<lambda>s. 0 < err s" and report = "report_error N" and s = "say o1 ?s", OF _ assms(2) o2] by simp
  let ?u = "say [OStr ''Send NL80211_CMD_GET_INTERFACE done.'', newline] ?t"
  have r2: "recv_while N (iface_cb_set N) (\<lambda>s. iface_idx s = 0) (report_error N) k ?u q = ret (k, ?u, q)"
    using assms(4) by (intro recv_while_stop) simp
  let ?w = "w\<lparr>held := Callbacks # Callbacks # held w, sent := sent w @ [interface_request], sock := k, cbs := ?u\<rparr>"
  obtain o3 where o3: "get_station_info (sc_sta c) (last (0 # ns)) ?w =
      (p_send (sc_sta c), ?w\<lparr>sent := sent ?w @ [station_request (last (0 # ns))], cbs := say o3 ?u\<rparr>)"
    using get_station_info_sends [of "sc_sta c" _ ?w] assms(1) by (auto simp: station_ok_def)
  have "station_main N c w = bnd (sta_loop N (p_send (sc_sta c)) k (say o3 ?u)) (\<lambda>(res, k, s).
      ret (res, w\<lparr>held := Callbacks # Callbacks # held w,
        sent := sent w @ [interface_request, station_request (last (0 # ns))], sock := k, cbs := s\<rparr>))"
    using assms(1) o1 r1 r2 o3 unfolding station_main_def station_ok_def put_all_def Let_def
    by (simp del: recv_while.simps)
  moreover have "got (say o3 ?u) = 0" by simp
  ultimately show ?thesis by blast
qed

end

section \<open>Properties\<close>



text \<open>The bytes of messages about an interface and about a station.\<close>

definition one_iface :: genl_msg where
  "one_iface = (7, concat (map enc_attr [(3, le_enc 4 4), (4, c_bytes ''wlan0'')]))"

lemma one_iface_msg: "iface_msg libnl3 one_iface 4"
proof -
  have "attrs_of (snd one_iface) = [\<lparr>nla_type = 3, nla_data = le_enc 4 4\<rparr>, \<lparr>nla_type = 4, nla_data = c_bytes ''wlan0''\<rparr>]"
    unfolding one_iface_def snd_conv by (subst attrs_of_enc) (simp_all add: attr_ok_def c_bytes_def)
  moreover have "le_nat (le_enc 4 4) = 4" by (rule le_nat_enc) simp
  ultimately show ?thesis by (simp add: iface_msg_def lookup_attr_def get_le_def c_bytes_def)
qed

definition rate_bytes :: "nat list" where
  "rate_bytes = concat (map enc_attr [(1, le_enc 2 866), (3, [])])"

definition station_bytes :: "(nat \<times> nat list) list \<Rightarrow> genl_msg" where
  "station_bytes packets =
     (19, concat (map enc_attr [(21, concat (map enc_attr (packets @ [(7, [206]), (8, rate_bytes), (14, rate_bytes)])))]))"

definition a_rate :: rate where
  "a_rate = \<lparr>bitrate = Some 866, mcs = None, vht_mcs = None, vht_nss = None, width40 = True, width80 = False\<rparr>"

definition a_station :: "nat option \<Rightarrow> nat option \<Rightarrow> station" where
  "a_station tx rx = \<lparr>tx_bytes = None, rx_bytes = None, tx_packets = tx, rx_packets = rx, rssi = Some 206\<rparr>"

lemma rate_bytes_parsed: "\<exists>tb. parse_rate libnl3 \<lparr>nla_type = t, nla_data = rate_bytes\<rparr> bitrate_policy = Some tb \<and> rate_of libnl3 tb a_rate"
proof -
  have 1: "attrs_of rate_bytes = [\<lparr>nla_type = 1, nla_data = le_enc 2 866\<rparr>, \<lparr>nla_type = 3, nla_data = []\<rparr>]"
    unfolding rate_bytes_def by (subst attrs_of_enc) (simp_all add: attr_ok_def)
  have "le_nat (le_enc 2 866) = 866" by (rule le_nat_enc) simp
  then show ?thesis
    by (simp add: parse_with_def Let_def 1 bitrate_policy_def lookup_attr_def min_len_def rate_of_def reads_def a_rate_def get_le_def)
qed

lemma station_bytes_msg:
  assumes "packets = [(10, le_enc 4 5), (9, le_enc 4 6)] \<and> tx = Some 5 \<or> packets = [(9, le_enc 4 6)] \<and> tx = None"
  shows "station_msg libnl3 (station_bytes packets) (a_station tx (Some 6)) a_rate a_rate"
proof -
  let ?as = "packets @ [(7, [206]), (8, rate_bytes), (14, rate_bytes)]"
  let ?tb = "map (\<lambda>(t, d). \<lparr>nla_type = t, nla_data = d\<rparr>) ?as"
  have len: "length rate_bytes = 12" by (simp add: rate_bytes_def)
  have 1: "attrs_of (concat (map enc_attr ?as)) = ?tb"
    using assms by (intro attrs_of_enc) (auto simp: attr_ok_def len)
  have 2: "attrs_of (snd (station_bytes packets)) = [\<lparr>nla_type = 21, nla_data = concat (map enc_attr ?as)\<rparr>]"
    unfolding station_bytes_def snd_conv using assms by (subst attrs_of_enc) (auto simp: attr_ok_def len)
  have num: "le_nat (le_enc 4 5) = 5" "le_nat (le_enc 4 6) = 6" by (simp_all add: le_nat_enc)
  let ?info = "\<lambda>x. lookup_attr (sta_no x) ?tb"
  have 3: "parse_sta libnl3 \<lparr>nla_type = 21, nla_data = concat (map enc_attr ?as)\<rparr> info_policy = Some ?info"
    unfolding libnl3_fields parse_with_def Let_def nlattr.simps 1
    using assms by (auto simp: info_policy_def lookup_attr_def min_len_def)
  have 4: "station_of libnl3 ?info (a_station tx (Some 6))"
    "?info NL80211_STA_INFO_TX_BITRATE = Some \<lparr>nla_type = 8, nla_data = rate_bytes\<rparr>"
    "?info NL80211_STA_INFO_RX_BITRATE = Some \<lparr>nla_type = 14, nla_data = rate_bytes\<rparr>"
    using assms by (auto simp: station_of_def reads_def a_station_def lookup_attr_def get_le_def num)
  have 5: "parse_nl80211 libnl3 (station_bytes packets) NL80211_ATTR_STA_INFO =
      Some \<lparr>nla_type = 21, nla_data = concat (map enc_attr ?as)\<rparr>"
    unfolding libnl3_fields 2 by (simp add: lookup_attr_def)
  show ?thesis
    unfolding station_msg_def using 3 4 5 rate_bytes_parsed [of 8] rate_bytes_parsed [of 14] by blast
qed



end
