(* ===== verification/Genl_Iface.thy ===== *)
theory Genl_Iface
  imports Genl_Station
begin

text \<open>
  \<^verbatim>\<open>generic_netlink/example/genetlink_test.c\<close>: lists the wireless interfaces. A second message is built and
  never sent.
\<close>

section \<open>The program\<close>

definition getWifiIface :: "('k, 'm) libnl \<Rightarrow> 'm \<Rightarrow> cbstate \<Rightarrow> (cbstate \<times> nl_action) cres" where
  "getWifiIface N msg s =
     (let tb = parse_nl80211 N msg in
      bnd (case tb NL80211_ATTR_IFNAME of
             Some a \<Rightarrow> bnd (nla_get_string N a) (\<lambda>t. ret [OStr ''Wifi Iface name='', OStr t, newline])
           | None \<Rightarrow> ret [OStr ''Nothing parse'', newline]) (\<lambda>o1.
      bnd (case tb NL80211_ATTR_SCAN_FREQUENCIES of
             Some a \<Rightarrow> bnd (nla_get_string N a) (\<lambda>t. ret [OStr ''Scan frequency='', OStr t, newline])
           | None \<Rightarrow> ret [OStr ''Nothing parse...'', newline]) (\<lambda>o2.
      ret ((say ([OStr ''Callback getWifiInterface'', newline] @ o1 @ o2) s)\<lparr>err := 0\<rparr>, NL_SKIP))))"

text \<open>
  The results of the library calls. The request has no attribute, yet the program prints the type
  and the text of the first one: \<open>behind\<close> is what lies behind the request in memory.
\<close>

record iface_calls =
  ic_cb :: bool
  ic_sock :: bool
  ic_connect :: int
  ic_family :: int
  ic_msg :: bool
  ic_header :: bool
  ic_msg2 :: bool
  ic_header2 :: bool
  ic_behind :: "nat \<times> string"
  ic_send :: int

definition wifi_cb_set :: "('k, 'm) libnl \<Rightarrow> 'm callbacks" where
  "wifi_cb_set N e s = (case e of EvValid m \<Rightarrow> getWifiIface N m s | _ \<Rightarrow> ret (s, default_action N e))"

partial_function (option) wifi_loop :: "('k, 'm) libnl \<Rightarrow> 'k \<Rightarrow> cbstate \<Rightarrow> ('k \<times> cbstate) cres" where
  "wifi_loop N k s =
     (if 0 < err s
      then bnd (nl_recvmsgs N k (wifi_cb_set N) (say [OStr ''Begin...'', newline] s)) (\<lambda>(k, s, res).
        wifi_loop N k (if res < 0 then say [OStr ''recv wrong...'', newline] s else s))
      else ret (k, s))"

text \<open>\<^verbatim>\<open>nl_close\<close> and \<^verbatim>\<open>nl_socket_free\<close>, if there is a socket: the label \<^verbatim>\<open>clean\<close>.\<close>

definition clean :: "bool \<Rightarrow> 'k world \<Rightarrow> (int \<times> 'k world) cres" where
  "clean has_sock w = ret (- 1, if has_sock then release Socket w else w)"

definition wifi_send :: "('k, 'm) libnl \<Rightarrow> iface_calls \<Rightarrow> 'k world \<Rightarrow> (int \<times> 'k world) cres" where
  "wifi_send N c w =
     (let w = wsay [OStr ''cmd='', OInt (int (cmd_value N NL80211_CMD_GET_INTERFACE)), OStr '', nla_type='', OInt (int (fst (ic_behind c))),
                    OStr '', payload='', OStr (snd (ic_behind c)), newline] w in
      if ic_send c < 0 then ret (- 1, release Message (wsay [OStr ''Send wrong ...'', newline] w))
      else
        let w = wsay [OStr ''Send OK'', newline] (w\<lparr>sent := sent w @ [interface_request]\<rparr>) in
        bnd (wifi_loop N (sock w) (cbs w)) (\<lambda>(k, s).
        ret (0, release Socket (wsay [OStr ''err='', OInt (err s), newline] (w\<lparr>sock := k, cbs := s\<rparr>)))))"

definition genetlink_test_main :: "('k, 'm) libnl \<Rightarrow> iface_calls \<Rightarrow> 'k world \<Rightarrow> (int \<times> 'k world) cres" where
  "genetlink_test_main N c w =
     (let w = (if ic_cb c then hold Callbacks w else w) in
      if \<not> ic_sock c then clean False w
      else let w = hold Socket w in
      if ic_connect c \<noteq> 0 then clean True w
      else if ic_family c < 0 then clean True w
      else let w = wsay [OStr ''nl80211_id=0x'', OHex (nat (ic_family c)), newline] w; w = w\<lparr>cbs := (cbs w)\<lparr>err := 1\<rparr>\<rparr> in
      if \<not> ic_cb c then fault NullDeref
      else if \<not> ic_msg c then clean True w
      else let w = hold Message w in
      if \<not> ic_header c then ret (- 1, release Message (wsay [OStr ''Something wrong ...'', newline] w))
      else let w = wsay [OStr ''Add NL80211_CMD_GET_INTERFACE OK'', newline] w in
      if \<not> ic_msg2 c then clean True w
      else let w = hold Message w in
      if \<not> ic_header2 c then ret (- 1, release Message (wsay [OStr ''Something wrong ...'', newline] w))
      else wifi_send N c (wsay [OStr ''Add NL80211_CMD_GET_STATION OK'', newline] w))"

section \<open>Property\<close>

definition iface_ok :: "iface_calls \<Rightarrow> bool" where
  "iface_ok c \<longleftrightarrow> ic_cb c \<and> ic_sock c \<and> ic_connect c = 0 \<and> 0 \<le> ic_family c \<and> ic_msg c \<and> ic_header c \<and> ic_msg2 c \<and> ic_header2 c
     \<and> 0 \<le> ic_send c"

text \<open>A message whose text attributes end with a zero byte.\<close>

definition named_iface :: "('k, 'm) libnl \<Rightarrow> 'm \<Rightarrow> bool" where
  "named_iface N m \<longleftrightarrow> (\<forall>x \<in> {NL80211_ATTR_IFNAME, NL80211_ATTR_SCAN_FREQUENCIES}.
     \<forall>a \<in> set_option (parse_nl80211 N m x). \<exists>t. nla_get_string N a = ret t)"

lemma getWifiIface_err:
  "named_iface N m \<Longrightarrow> \<exists>os. getWifiIface N m s = ret (say os (s\<lparr>err := 0\<rparr>), NL_SKIP)"
  by (cases "parse_nl80211 N m NL80211_ATTR_IFNAME"; cases "parse_nl80211 N m NL80211_ATTR_SCAN_FREQUENCIES")
    (auto simp: named_iface_def getWifiIface_def say_update Let_def)

lemma dispatch_wifi:
  "list_all (named_iface N) ms \<Longrightarrow>
     \<exists>os. dispatch (wifi_cb_set N) (map EvValid ms @ [EvFinish]) s = ret (say os (if ms = [] then s else s\<lparr>err := 0\<rparr>))"
proof (induction ms arbitrary: s)
  case Nil
  then show ?case by (auto simp: wifi_cb_set_def intro: exI [of _ "[]"])
next
  case (Cons m ms)
  obtain os where os: "wifi_cb_set N (EvValid m) s = ret (say os (s\<lparr>err := 0\<rparr>), NL_SKIP)"
    using getWifiIface_err [of N m s] Cons.prems by (auto simp: wifi_cb_set_def)
  obtain ps where "dispatch (wifi_cb_set N) (map EvValid ms @ [EvFinish]) (say os (s\<lparr>err := 0\<rparr>)) =
      ret (say (os @ ps) (s\<lparr>err := 0\<rparr>))"
    using Cons.IH [of "say os (s\<lparr>err := 0\<rparr>)"] Cons.prems by (auto simp: say_update split: if_splits)
  with os show ?case by auto
qed

lemma wifi_send_loop:
  assumes "iface_ok c"
  shows "\<exists>w1 os. cbs w1 = say os ((cbs w)\<lparr>err := 1\<rparr>) \<and> sock w1 = sock w \<and> sent w1 = sent w @ [interface_request]
    \<and> held w1 = [Message, Message, Socket, Callbacks] @ held w
    \<and> genetlink_test_main N c w = bnd (wifi_loop N (sock w1) (cbs w1)) (\<lambda>(k, s).
        ret (0, release Socket (wsay [OStr ''err='', OInt (err s), newline] (w1\<lparr>sock := k, cbs := s\<rparr>))))"
proof -
  let ?i = "wsay [OStr ''nl80211_id=0x'', OHex (nat (ic_family c)), newline] (hold Socket (hold Callbacks w))"
  let ?m = "wsay [OStr ''Add NL80211_CMD_GET_INTERFACE OK'', newline] (hold Message (?i\<lparr>cbs := (cbs ?i)\<lparr>err := 1\<rparr>\<rparr>))"
  let ?n = "wsay [OStr ''Add NL80211_CMD_GET_STATION OK'', newline] (hold Message ?m)"
  let ?c = "wsay [OStr ''cmd='', OInt (int (cmd_value N NL80211_CMD_GET_INTERFACE)), OStr '', nla_type='', OInt (int (fst (ic_behind c))),
      OStr '', payload='', OStr (snd (ic_behind c)), newline] ?n"
  let ?w = "wsay [OStr ''Send OK'', newline] (?c\<lparr>sent := sent ?c @ [interface_request]\<rparr>)"
  have "genetlink_test_main N c w = wifi_send N c ?n"
    using assms unfolding iface_ok_def genetlink_test_main_def Let_def by simp
  also have "\<dots> = bnd (wifi_loop N (sock ?w) (cbs ?w)) (\<lambda>(k, s).
        ret (0, release Socket (wsay [OStr ''err='', OInt (err s), newline] (?w\<lparr>sock := k, cbs := s\<rparr>))))"
    using assms unfolding iface_ok_def wifi_send_def Let_def by simp
  finally show ?thesis
    by (intro exI [of _ ?w] exI) (auto simp: say_update)
qed

text \<open>
  C24: The program that lists interfaces ends with 0 once a message about an interface has arrived, after
  one request; with no interface the dump is empty and it waits for ever. The socket is given
  back, the callbacks and both messages are not; without memory for the callbacks it
  dereferences null.
\<close>

theorem genetlink_test_correct:
  assumes "libnl_recv N" and "next_datagram N (sock w) = Some (map EvValid ms @ [EvFinish], r, k)" and "list_all (named_iface N) ms"
  shows "(iface_ok c \<and> ms \<noteq> [] \<longrightarrow> (\<exists>w'. genetlink_test_main N c w = ret (0, w') \<and> sock w' = k
        \<and> sent w' = sent w @ [interface_request] \<and> held w' = [Message, Message, Callbacks] @ held w))
    \<and> (iface_ok c \<and> ms = [] \<and> next_datagram N k = None \<longrightarrow> genetlink_test_main N c w = None)
    \<and> (iface_ok (c\<lparr>ic_cb := True\<rparr>) \<and> \<not> ic_cb c \<longrightarrow> genetlink_test_main N c w = fault NullDeref)"
proof -
  note law = libnl_recv.recv_law [OF assms(1)]
  have step: "\<exists>os. wifi_loop N (sock w) s =
      wifi_loop N k (say os (if ms = [] then s else s\<lparr>err := 0\<rparr>))" if "0 < err s" for s
  proof -
    obtain os where "dispatch (wifi_cb_set N) (map EvValid ms @ [EvFinish]) (say [OStr ''Begin...'', newline] s) =
        ret (say os (if ms = [] then s else s\<lparr>err := 0\<rparr>))"
      using dispatch_wifi [OF assms(3), of "say [OStr ''Begin...'', newline] s"] by (auto simp: say_update split: if_splits)
    then show ?thesis
      using that assms(2)
      by (subst wifi_loop.simps) (auto simp: law intro!: exI [of _ "os @ (if r < 0 then [OStr ''recv wrong...'', newline] else [])"])
  qed
  have done_1: "\<exists>w'. genetlink_test_main N c w = ret (0, w') \<and> sock w' = k \<and> sent w' = sent w @ [interface_request]
      \<and> held w' = [Message, Message, Callbacks] @ held w" if ok: "iface_ok c" and ms: "ms \<noteq> []"
  proof -
    obtain w1 os where w1: "cbs w1 = say os ((cbs w)\<lparr>err := 1\<rparr>)" "sock w1 = sock w" "sent w1 = sent w @ [interface_request]"
      "held w1 = [Message, Message, Socket, Callbacks] @ held w"
      "genetlink_test_main N c w = bnd (wifi_loop N (sock w1) (cbs w1)) (\<lambda>(k, s).
        ret (0, release Socket (wsay [OStr ''err='', OInt (err s), newline] (w1\<lparr>sock := k, cbs := s\<rparr>))))"
      using wifi_send_loop [OF ok] by blast
    obtain ps where "wifi_loop N (sock w) (cbs w1) = wifi_loop N k (say ps ((cbs w1)\<lparr>err := 0\<rparr>))"
      using step [of "cbs w1"] w1(1) ms by auto
    also have "\<dots> = ret (k, say ps ((cbs w1)\<lparr>err := 0\<rparr>))" by (subst wifi_loop.simps) simp
    finally show ?thesis using w1 by simp
  qed
  have wait: "genetlink_test_main N c w = None" if ok: "iface_ok c" and ms: "ms = []" and k: "next_datagram N k = None"
  proof -
    obtain w1 os where w1: "cbs w1 = say os ((cbs w)\<lparr>err := 1\<rparr>)" "sock w1 = sock w"
      "genetlink_test_main N c w = bnd (wifi_loop N (sock w1) (cbs w1)) (\<lambda>(k, s).
        ret (0, release Socket (wsay [OStr ''err='', OInt (err s), newline] (w1\<lparr>sock := k, cbs := s\<rparr>))))"
      using wifi_send_loop [OF ok] by blast
    obtain ps where "wifi_loop N (sock w) (cbs w1) = wifi_loop N k (say ps (cbs w1))"
      using step [of "cbs w1"] w1(1) ms by auto
    also have "\<dots> = None" using k w1(1) by (subst wifi_loop.simps) (simp add: law)
    finally show ?thesis using w1 by simp
  qed
  have "genetlink_test_main N c w = fault NullDeref" if "iface_ok (c\<lparr>ic_cb := True\<rparr>)" "\<not> ic_cb c"
    using that by (simp add: iface_ok_def genetlink_test_main_def)
  with done_1 wait show ?thesis by blast
qed

definition iface_all_ok :: iface_calls where
  "iface_all_ok = \<lparr>ic_cb = True, ic_sock = True, ic_connect = 0, ic_family = 30, ic_msg = True, ic_header = True, ic_msg2 = True,
     ic_header2 = True, ic_behind = (0, []), ic_send = 20\<rparr>"

theorem genetlink_test_correct_witness:
  "\<exists>w'. genetlink_test_main libnl3 iface_all_ok (start_world [([EvValid one_iface, EvFinish], 0)]) = ret (0, w')
     \<and> held w' = [Message, Message, Callbacks]"
proof -
  have "attrs_of (snd one_iface) = [\<lparr>nla_type = 3, nla_data = le_enc 4 4\<rparr>, \<lparr>nla_type = 4, nla_data = c_bytes ''wlan0''\<rparr>]"
    unfolding one_iface_def snd_conv by (subst attrs_of_enc) (simp_all add: attr_ok_def c_bytes_def)
  then have "named_iface libnl3 one_iface" by (simp add: named_iface_def lookup_attr_def c_bytes_def)
  moreover have "iface_ok iface_all_ok" by (simp add: iface_ok_def iface_all_ok_def)
  ultimately show ?thesis
    using genetlink_test_correct [OF libnl3.libnl_recv_axioms, of "start_world [([EvValid one_iface, EvFinish], 0)]" "[one_iface]" 0 "[]" iface_all_ok]
    by (auto simp: start_world_def)
qed

end
