(* ===== verification/Genl_Types.thy ===== *)
theory Genl_Types
  imports Genl_Iface
begin

text \<open>
  A property of all wireless programs: the variables that callbacks write keep the range of their C
  types, \<^verbatim>\<open>int\<close> for the results, 0 or 1 for the marks, 32 unsigned bits for the counter and the interface
  index.
\<close>

section \<open>Types of the variables\<close>

definition cb_typed :: "cbstate \<Rightarrow> bool" where
  "cb_typed s \<longleftrightarrow> in_int (err s) \<and> in_int (grp_id s) \<and> scan_done s \<in> {0, 1} \<and> scan_aborted s \<in> {0, 1} \<and> got s \<in> {0, 1}
     \<and> in_int (callback_round s) \<and> 0 \<le> scan_result_count s \<and> scan_result_count s < 4294967296 \<and> iface_idx s < 4294967296"

text \<open>\<^verbatim>\<open>nla_get_u32\<close> returns 32 bits, and the error code of a message is an \<^verbatim>\<open>int\<close>.\<close>

definition u32_typed :: "('k, 'm) libnl \<Rightarrow> bool" where
  "u32_typed N \<longleftrightarrow> (\<forall>a v. nla_get_u32 N a = ret v \<longrightarrow> v < 4294967296)"

definition event_typed :: "'m event \<Rightarrow> bool" where
  "event_typed e \<longleftrightarrow> (\<forall>c. e = EvError c \<longrightarrow> in_int c)"

text \<open>The callbacks of all programs.\<close>

definition program_callbacks :: "('k, 'm) libnl \<Rightarrow> string \<Rightarrow> 'm callbacks list" where
  "program_callbacks N grp =
     [multicast_cb ack_handler N grp, multicast_cb loud_ack_handler N grp, trigger_cb_set N, dump_cb_set N, scan_cb_set N,
      result_cb_set N, iface_cb_set N, sta_cb_set N, wifi_cb_set N]"

definition keeps_types :: "'m callbacks \<Rightarrow> bool" where
  "keeps_types cb \<longleftrightarrow> (\<forall>e s s' a. event_typed e \<longrightarrow> cb_typed s \<longrightarrow> cb e s = ret (s', a) \<longrightarrow> cb_typed s')"

lemma cb_typed_say [simp]: "cb_typed (say os s) = cb_typed s"
  by (simp add: cb_typed_def)

lemma cb_typed_updates:
  "cb_typed s \<Longrightarrow> in_int e \<Longrightarrow> cb_typed (s\<lparr>err := e\<rparr>)"
  "cb_typed s \<Longrightarrow> in_int e \<Longrightarrow> cb_typed (s\<lparr>grp_id := e\<rparr>)"
  "cb_typed s \<Longrightarrow> in_int e \<Longrightarrow> cb_typed (s\<lparr>callback_round := e\<rparr>)"
  "cb_typed s \<Longrightarrow> n < 4294967296 \<Longrightarrow> cb_typed (s\<lparr>iface_idx := n\<rparr>)"
  "cb_typed s \<Longrightarrow> d \<in> {0, 1} \<Longrightarrow> cb_typed (s\<lparr>scan_done := d\<rparr>)"
  "cb_typed s \<Longrightarrow> d \<in> {0, 1} \<Longrightarrow> cb_typed (s\<lparr>scan_aborted := d\<rparr>)"
  "cb_typed s \<Longrightarrow> d \<in> {0, 1} \<Longrightarrow> cb_typed (s\<lparr>got := d\<rparr>)"
  "cb_typed s \<Longrightarrow> cb_typed (s\<lparr>scan_result_count := c mod 4294967296\<rparr>)"
  by (simp_all add: cb_typed_def)

lemma zero_in_int: "in_int 0"
  by (simp add: int_range_defs)

lemma to_int_in_int: "v < 4294967296 \<Longrightarrow> in_int (to_int v)"
  by (simp add: to_int_def int_range_defs)

lemmas handlers = error_handler_def finish_handler_def ack_handler_def loud_ack_handler_def sta_finish_handler_def
  sta_ack_handler_def sta_error_handler_def

lemmas typed_intros = cb_typed_updates zero_in_int to_int_in_int

lemma mcgrp_loop_typed: "u32_typed N \<Longrightarrow> cb_typed s \<Longrightarrow> mcgrp_loop N grp gs s = ret s' \<Longrightarrow> cb_typed s'"
  by (induction N grp gs s rule: mcgrp_loop.induct)
    (auto simp: Let_def u32_typed_def intro!: typed_intros split: option.splits if_splits elim!: bnd_eq_ret_E)

lemma multicast_typed:
  "u32_typed N \<Longrightarrow> (\<And>s. cb_typed s \<Longrightarrow> cb_typed (fst (ack s))) \<Longrightarrow> keeps_types (multicast_cb ack N grp)"
  by (auto simp: keeps_types_def multicast_cb_def event_typed_def handlers family_handler_def intro!: typed_intros
      split: event.splits option.splits elim!: bnd_eq_ret_E dest: mcgrp_loop_typed) fastforce

lemma scan_callbacks_typed: "keeps_types (trigger_cb_set N)" "keeps_types (scan_cb_set N)"
  by (auto simp: keeps_types_def trigger_cb_set_def scan_cb_set_def event_typed_def handlers callback_trigger_def
      callback_of_scan_def Let_def intro!: typed_intros split: event.splits if_splits)

lemma dump_typed: "keeps_types (dump_cb_set N)"
  by (auto simp: keeps_types_def dump_cb_set_def callback_dump_def Let_def intro!: typed_intros
      split: event.splits option.splits if_splits elim!: bnd_eq_ret_E)

lemma result_typed: "keeps_types (result_cb_set N)"
  by (auto simp: keeps_types_def result_cb_set_def callback_of_get_scan_result_def Let_def intro!: typed_intros
      split: event.splits option.splits elim!: bnd_eq_ret_E)

lemma iface_typed: "u32_typed N \<Longrightarrow> keeps_types (iface_cb_set N)"
  by (auto simp: keeps_types_def iface_cb_set_def event_typed_def handlers callback_of_get_interface_index_def Let_def u32_typed_def
      intro!: typed_intros split: event.splits option.splits elim!: bnd_eq_ret_E)

lemma station_typed: "keeps_types (sta_cb_set N)" "keeps_types (wifi_cb_set N)"
  by (auto simp: keeps_types_def sta_cb_set_def wifi_cb_set_def callback_of_get_sta_info_def getWifiIface_def Let_def
      intro!: typed_intros split: event.splits option.splits elim!: bnd_eq_ret_E)

lemma dispatch_typed:
  "keeps_types cb \<Longrightarrow> list_all event_typed es \<Longrightarrow> cb_typed s \<Longrightarrow> dispatch cb es s = ret s' \<Longrightarrow> cb_typed s'"
proof (induction es arbitrary: s)
  case (Cons e es)
  obtain s1 a where c: "cb e s = ret (s1, a)" "(if a = NL_STOP then ret s1 else dispatch cb es s1) = ret s'"
    using Cons.prems(4) by (auto elim!: bnd_eq_ret_E)
  have "cb_typed s1" using Cons.prems(1,2,3) c(1) unfolding keeps_types_def by (metis list.pred_inject(2))
  with c(2) Cons show ?case by (auto split: if_splits)
qed simp


text \<open>The instance of the library with numbers cut to 32 bits.\<close>

definition libnl3_u32 :: "((genl_msg event list \<times> int) list, genl_msg) libnl" where
  "libnl3_u32 = libnl3\<lparr>nla_get_u32 := (\<lambda>a. bnd (get_le 4 a) (\<lambda>v. ret (v mod 4294967296)))\<rparr>"


end
