(* ===== verification/Spec2Isabelle.thy ===== *)
theory Spec2Isabelle
  imports List_Search List_Loop List_Reorder List_Insert List_Delete List_Calc List_Refine Hash_Dedup
    Sort_Simple Sort_Merge Sort_Quick Rt_Dump Netfilter_Run Bpf_Xdp Drop_Udp Multicast Net_Programs
    Mem_Examples Genl_Types
begin

text \<open>
  A model of the C programs of the repository \<^verbatim>\<open>side_work\<close>, and what makes them correct.

  \<^bold>\<open>The programs.\<close> The repository is a collection of small programs, each a file with its own \<^verbatim>\<open>main\<close>:
  operations on singly linked lists (\<^verbatim>\<open>src/linked_list\<close>), sorting (\<^verbatim>\<open>src/sort\<close>), netlink clients and the
  kernel modules they talk to (\<^verbatim>\<open>src/socket/netlink_socket\<close>), an XDP filter with its loader (\<^verbatim>\<open>src/bpf\<close>), a
  netfilter module (\<^verbatim>\<open>src/kernel_module\<close>), a raw Ethernet sender and TCP programs
  (\<^verbatim>\<open>src/socket/network_socket\<close>), and short examples. They share code by copying it, so one definition
  often stands for the same function in several files; its documentation names them.

  \<^bold>\<open>The language.\<close> \<open>C_Prelude\<close> holds the results of a call (it does not return, faults, or returns a
  value), checked \<^verbatim>\<open>int\<close> arithmetic, counting loops, arrays and bytes, and the printed output as a list
  of items, one for each conversion or literal piece of a format.
  Loops whose end is not evident are partial functions over \<^typ>\<open>'a option\<close>: no fuel is used, a
  theorem that states a result states that the loop ends, and \<open>None\<close> is a run without end.
  \<open>C_Heap\<close> is the heap of list nodes with the usable size of each block, \<^verbatim>\<open>malloc\<close>, \<^verbatim>\<open>free\<close>, the loads and
  stores, and the predicate that a pointer leads to a list of nodes. \<open>C_Bytes\<close> has buffers whose bytes
  may not have been written yet, C strings in them, decimal, padded and hexadecimal text, and the
  bytes of netlink attributes.

  \<^bold>\<open>Lists.\<close> \<open>List_Basic\<close> (append, insert at the head, print, length), \<open>List_Search\<close> (by position, by key, from
  the end, the middle), \<open>List_Loop\<close> (Floyd's search, with and without the length of the loop),
  \<open>List_Reorder\<close> (reverse, rotate), \<open>List_Insert\<close>, \<open>List_Delete\<close>, \<open>List_Calc\<close> (compare, multiply, subtract, sum)
  and \<open>Hash_Dedup\<close> (a hash table, related to a set of integers, and the deletion of duplicates with it). Each operation is related
  to the list of nodes it works on, with a frame condition for the rest of the heap; the locale
  \<open>list_builder\<close> is the contract of the two ways to build a list. \<open>List_Refine\<close> takes the operations as one
  abstract data type: \<open>exec_op\<close> runs one on heap and head pointer, \<open>spec_op\<close> on a list of integers, and the
  locale \<open>list_machine\<close> lifts the refinement of each step to sequences: same values, same faults, every
  node that leaves the list freed, no other block changed.

  \<^bold>\<open>Sorting.\<close> \<open>Sort_Base\<close> has the shared parts of the programs and the locale \<open>array_sort\<close>, the contract of a
  sort under a condition on its input; \<open>Sort_Simple\<close> interprets it for bubble, insertion and selection
  sort, \<open>Sort_Merge\<close> for merge sort under the condition that makes it correct, \<open>Sort_Quick\<close> for quick sort.

  \<^bold>\<open>Netlink.\<close> \<open>Rt_Netlink\<close>: the programs that ask for addresses, links and routes, and the event monitor.
  \<open>Rt_Dump\<close>: whole runs of the first three on the bytes of a dump, from the encoded entries to the printed lines.
  \<open>Netlink_Echo\<close>: the echo module with its clients, the netfilter test module with its client, and
  the route monitor; the module and its client are brought together in one exchange. \<open>Netfilter_Run\<close>: the runs
  of the netfilter test module, with loads, unloads, messages and packets in any order, follow an abstract view. The kernel
  headers are not part of the repository: they are arguments (\<open>uapi\<close>, \<open>nlapi\<close>), what their documentation
  promises are the locales \<open>attr_macros\<close> and \<open>netlink_api\<close>, both interpreted on the Linux layout.

  \<^bold>\<open>Wireless interfaces.\<close> The programs under \<^verbatim>\<open>generic_netlink\<close> talk to the kernel through the library libnl, which
  calls the functions they register. \<open>Genl_Base\<close> has the interface of that library (the argument \<open>libnl\<close>,
  with the contract \<open>libnl_recv\<close> that states how received messages reach the callbacks), the shared
  callbacks, the lookup of a multicast group and the loops that receive until a callback has set a
  variable. The variables that callbacks write are the record \<open>cbstate\<close>; \<open>world\<close> adds the socket, the
  requests sent and the library objects still held. \<open>Genl_Scan\<close> is \<^verbatim>\<open>scan.c\<close>, \<open>Genl_Trigger\<close> is
  \<^verbatim>\<open>scan_NL80211_CMD_TRIGGER_SCAN.c\<close>, \<open>Genl_Station\<close> is \<^verbatim>\<open>get_sta_info_NL80211_CMD_GET_STATION.c\<close>,
  \<open>Genl_Iface\<close> is \<^verbatim>\<open>genetlink_test.c\<close>. The theorems state which sequences of messages make a program end, with
  which result, and which make it wait for ever (\<open>None\<close>); what the callbacks print; and which attributes they
  read without a test. \<open>Genl_Types\<close> shows that all callbacks keep the variables in the range of their types. The instance \<open>libnl3\<close>, attributes as bytes, satisfies the contract.

  \<^bold>\<open>Packets.\<close> \<open>Bpf_Endian\<close>: the byte order macros for both byte orders, with the contract \<open>swab_header\<close> of the
  kernel header they use. \<open>Bpf_Xdp\<close>: the filter with its accounting and the loader; the map helpers are an
  argument with the contract \<open>bpf_hash\<close>, extended by the iteration over the keys in \<open>bpf_hash_iter\<close>;
  \<open>xdp_reach\<close> are the states that packets and polling rounds reach in any order. \<open>Nf_Hooks\<close>: how the two kernel modules describe
  their hooks. \<open>Drop_Udp\<close>: the module as a state with one definition for each handler, its files, and a
  step relation for its runs, with loads, removals, packets and file accesses in any order. \<open>Multicast\<close>: the frame and the stores that build it.

  \<^bold>\<open>Short programs.\<close> \<open>Small_Programs\<close>: greatest common divisor, division, pointers, TCP client and the
  loop of the server, child processes, a record in a file. \<open>Net_Programs\<close>: name lookup, the whole TCP server,
  a command in a pipe, tokens and searches in strings, interface requests. \<open>Mem_Examples\<close>: array sizes, pointers
  to pointers, heap blocks and the C++ containers.

  \<^bold>\<open>What the theorems show.\<close> For the operations: what they compute on every input that satisfies their
  precondition, that they end, and which fault the other inputs lead to. For tables, maps and
  modules: invariants over all operations and runs. For several programs the theorems give the exact
  limit of correctness: merge sort works for lengths that are powers of two, quick sort never returns a
  wrong result but leaves the array when its maximum is first or occurs twice, the hash table is a set for
  values that do not collide, the monitor
  does not get past a message with an invalid length.

  \<^bold>\<open>What is not modelled.\<close> The headers copied from libbpf except \<^verbatim>\<open>bpf_endian.h\<close> and the
  description of a map in \<^verbatim>\<open>bpf_helpers.h\<close>: \<^verbatim>\<open>bpf_helper_defs.h\<close> is a
  generated table of the kernel's helper numbers, the others are attributes for the compiler. System
  calls and library calls appear only through their results, which are arguments. Two programs
  that run at once are interleaved in whole steps: a packet is not counted while the loader walks
  through the map. The file of the event monitor lacks a closing brace; both places for it are modelled.
\<close>

section \<open>Operations on the empty list\<close>

text \<open>
  Four operations read the first node before they test whether there is one.
\<close>

lemma empty_list_faults:
  "reverse_c h NULL = fault NullDeref"
  "delete_alternate h NULL = fault NullDeref"
  "delete_by_value h NULL w = fault NullDeref"
  "delete_duplicate h NULL = fault NullDeref"
  by (simp_all add: reverse_c_def delete_alternate_def delete_by_value_def delete_duplicate_def
      dedup_loop.simps load_next_def load_value_def node_at_def)

end
